(* ===== verification/Rpc_Prelude.thy ===== *)
theory Rpc_Prelude
  imports Main "HOL-Library.Word" "HOL-Library.Multiset"
begin

text \<open>
  Shared vocabulary of the development: machine integers and bytes, Rust's \<open>Result\<close>, \<open>Poll\<close>
  and panics as values, little-endian integers, UTF-8 validation as \<open>core::str::from_utf8\<close>
  performs it, hash maps as association lists whose iteration order is a parameter, and the
  generic lemmas on lists and words that the component theories share.
\<close>

section \<open>Types\<close>

type_synonym byte = "8 word"
type_synonym u8 = "8 word"
type_synonym u16 = "16 word"
type_synonym u32 = "32 word"
type_synonym i32 = "32 word"
type_synonym u64 = "64 word"
type_synonym bytes = "8 word list"

text \<open>A Rust \<open>str\<close> or \<open>String\<close> is its sequence of UTF-8 bytes.\<close>

type_synonym rust_str = "8 word list"

text \<open>Rust's \<open>Result<'a, 'e>\<close> is a sum; the error is on the left.\<close>

type_synonym ('a, 'e) result = "'e + 'a"

abbreviation Ok :: "'a \<Rightarrow> ('a, 'e) result" where
  "Ok x \<equiv> Inr x"

abbreviation Err :: "'e \<Rightarrow> ('a, 'e) result" where
  "Err e \<equiv> Inl e"

text \<open>What polling a future gives, and what a call that may panic gives.\<close>

datatype 'a poll = Ready 'a | Pending

datatype 'a outcome = Return 'a | Panic

primrec map_outcome_value :: "('a \<Rightarrow> 'b) \<Rightarrow> 'a outcome \<Rightarrow> 'b outcome" where
  "map_outcome_value f (Return x) = Return (f x)"
| "map_outcome_value f Panic = Panic"

lemma map_outcome_Return [simp]: "map_outcome_value f x = Return y \<longleftrightarrow> (\<exists>z. x = Return z \<and> y = f z)"
  by (cases x) auto

primrec is_ok :: "('a, 'e) result \<Rightarrow> bool" where
  "is_ok (Inl e) = False"
| "is_ok (Inr x) = True"

text \<open>The \<open>i32\<close> of a number, when it has one.\<close>

definition to_i32 :: "int \<Rightarrow> i32 option" where
  "to_i32 i = (if - (2 ^ 31) \<le> i \<and> i < 2 ^ 31 then Some (of_int i) else None)"

named_theorems codec_simps \<open>equations that evaluate the wire format\<close>
named_theorems io_simps \<open>equations of the byte streams\<close>

section \<open>Little-endian integers\<close>

fun nat_le :: "nat \<Rightarrow> nat \<Rightarrow> bytes" where
  "nat_le 0 x = []"
| "nat_le (Suc n) x = of_nat (x mod 256) # nat_le n (x div 256)"

fun le_nat :: "bytes \<Rightarrow> nat" where
  "le_nat [] = 0"
| "le_nat (b # bs) = unat b + 256 * le_nat bs"

definition le_bytes :: "nat \<Rightarrow> 'a::len word \<Rightarrow> bytes" where
  "le_bytes n w = nat_le n (unat w)"

definition le_word :: "bytes \<Rightarrow> 'a::len word" where
  "le_word bs = of_nat (le_nat bs)"

lemma length_nat_le [simp]: "length (nat_le n x) = n"
  by (induction n arbitrary: x) simp_all

lemma length_le_bytes [simp]: "length (le_bytes n w) = n"
  by (simp add: le_bytes_def)

lemma unat_of_nat_byte: "unat (of_nat (x mod 256) :: byte) = x mod 256"
  by (simp add: unat_of_nat)

lemma le_nat_nat_le: "le_nat (nat_le n x) = x mod 256 ^ n"
proof (induction n arbitrary: x)
  case 0
  then show ?case by simp
next
  case (Suc n)
  have "le_nat (nat_le (Suc n) x) = x mod 256 + 256 * (x div 256 mod 256 ^ n)"
    by (simp add: Suc unat_of_nat_byte)
  also have "\<dots> = x mod (256 * 256 ^ n)"
    by (simp add: mod_mult2_eq)
  finally show ?case by simp
qed

lemma le_word_le_bytes:
  fixes w :: "'a::len word"
  assumes "LENGTH('a) = 8 * n"
  shows "le_word (le_bytes n w) = w"
proof -
  have "unat w < 2 ^ LENGTH('a)" by (rule unsigned_less)
  also have "(2::nat) ^ LENGTH('a) = 256 ^ n"
    by (simp add: assms power_mult)
  finally show ?thesis
    by (simp add: le_word_def le_bytes_def le_nat_nat_le)
qed

lemma le_word_le_bytes_sizes [simp, codec_simps]:
  "le_word (le_bytes 2 (a::16 word)) = a"
  "le_word (le_bytes 4 (b::32 word)) = b"
  "le_word (le_bytes 8 (c::64 word)) = c"
  by (simp_all add: le_word_le_bytes)

lemma nat_le_le_nat: "nat_le (length bs) (le_nat bs) = bs"
proof (induction bs)
  case Nil
  then show ?case by simp
next
  case (Cons b bs)
  have b: "unat b < 256" using unsigned_less [of b] by simp
  then have "(unat b + 256 * le_nat bs) mod 256 = unat b"
    and "(unat b + 256 * le_nat bs) div 256 = le_nat bs" by simp_all
  with Cons show ?case by simp
qed

lemma le_nat_bound: "le_nat bs < 256 ^ length bs"
proof (induction bs)
  case Nil
  then show ?case by simp
next
  case (Cons b bs)
  have "unat b < 256" using unsigned_less [of b] by simp
  moreover have "le_nat bs + 1 \<le> 256 ^ length bs" using Cons by simp
  then have "256 * (le_nat bs + 1) \<le> 256 * 256 ^ length bs" by simp
  ultimately show ?case by simp
qed

lemma le_bytes_le_word:
  assumes "length bs = n" "LENGTH('a::len) = 8 * n"
  shows "le_bytes n (le_word bs :: 'a word) = bs"
proof -
  have "le_nat bs < 2 ^ LENGTH('a)"
    using le_nat_bound [of bs] by (simp add: assms power_mult)
  then have "unat (le_word bs :: 'a word) = le_nat bs"
    by (simp add: le_word_def unat_of_nat take_bit_nat_eq_self)
  then show ?thesis
    using assms(1) nat_le_le_nat [of bs] by (simp add: le_bytes_def)
qed

section \<open>Strings and UTF-8\<close>

definition str :: "string \<Rightarrow> rust_str" where
  "str s = map of_char s"

lemma str_eq_iff: "str a = str b \<longleftrightarrow> a = b"
proof -
  have "inj (of_char :: char \<Rightarrow> byte)"
  proof
    fix c d
    assume "(of_char c :: byte) = of_char d"
    then have "unat (of_nat (of_char c) :: byte) = unat (of_nat (of_char d) :: byte)" by (simp add: of_nat_of_char)
    then show "c = d" by (simp add: unat_of_nat)
  qed
  then show ?thesis by (simp add: str_def inj_map_eq_map)
qed

definition utf8_cont :: "byte \<Rightarrow> bool" where
  "utf8_cont b \<longleftrightarrow> 0x80 \<le> b \<and> b \<le> 0xBF"

text \<open>
  The well-formed byte sequences of UTF-8, as the standard library's validation accepts them:
  no overlong form, no surrogate, nothing beyond U+10FFFF.
\<close>

fun utf8_valid :: "bytes \<Rightarrow> bool" where
  "utf8_valid [] = True"
| "utf8_valid (b # bs) =
     (if b < 0x80 then utf8_valid bs
      else if 0xC2 \<le> b \<and> b \<le> 0xDF then
        (case bs of c # r \<Rightarrow> utf8_cont c \<and> utf8_valid r | _ \<Rightarrow> False)
      else if 0xE0 \<le> b \<and> b \<le> 0xEF then
        (case bs of c # d # r \<Rightarrow>
           (if b = 0xE0 then 0xA0 \<le> c \<and> c \<le> 0xBF
            else if b = 0xED then 0x80 \<le> c \<and> c \<le> 0x9F else utf8_cont c) \<and>
           utf8_cont d \<and> utf8_valid r
         | _ \<Rightarrow> False)
      else if 0xF0 \<le> b \<and> b \<le> 0xF4 then
        (case bs of c # d # e # r \<Rightarrow>
           (if b = 0xF0 then 0x90 \<le> c \<and> c \<le> 0xBF
            else if b = 0xF4 then 0x80 \<le> c \<and> c \<le> 0x8F else utf8_cont c) \<and>
           utf8_cont d \<and> utf8_cont e \<and> utf8_valid r
         | _ \<Rightarrow> False)
      else False)"

definition from_utf8 :: "bytes \<Rightarrow> rust_str option" where
  "from_utf8 bs = (if utf8_valid bs then Some bs else None)"

lemma utf8_valid_ascii: "\<forall>b \<in> set bs. b < 0x80 \<Longrightarrow> utf8_valid bs"
  by (induction bs) simp_all

lemma from_utf8_Some [simp]: "from_utf8 bs = Some s \<longleftrightarrow> utf8_valid bs \<and> s = bs"
  by (auto simp: from_utf8_def)

lemma from_utf8_None [simp]: "from_utf8 bs = None \<longleftrightarrow> \<not> utf8_valid bs"
  by (simp add: from_utf8_def)

section \<open>Hash maps\<close>

text \<open>
  A hash map is an association list with distinct keys. Lookup, insertion and removal are those
  of the map it denotes; the order in which a loop visits the entries is not specified by the
  code, so every operation that iterates takes it as a parameter \<open>ord\<close>, a rearrangement of the
  entries.
\<close>

type_synonym ('k, 'v) hash_map = "('k \<times> 'v) list"

definition hm_remove :: "'k \<Rightarrow> ('k, 'v) hash_map \<Rightarrow> ('k, 'v) hash_map" where
  "hm_remove k m = filter (\<lambda>p. fst p \<noteq> k) m"

definition hm_insert :: "'k \<Rightarrow> 'v \<Rightarrow> ('k, 'v) hash_map \<Rightarrow> ('k, 'v) hash_map" where
  "hm_insert k v m = hm_remove k m @ [(k, v)]"

abbreviation hm_keys :: "('k, 'v) hash_map \<Rightarrow> 'k set" where
  "hm_keys m \<equiv> fst ` set m"

definition hm_wf :: "('k, 'v) hash_map \<Rightarrow> bool" where
  "hm_wf m \<longleftrightarrow> distinct (map fst m)"

text \<open>What is assumed of the iteration order: every entry is visited exactly once.\<close>

definition iter_order :: "(('k, 'v) hash_map \<Rightarrow> ('k, 'v) hash_map) \<Rightarrow> bool" where
  "iter_order ord \<longleftrightarrow> (\<forall>m. mset (ord m) = mset m)"

lemma iter_orderD: "iter_order ord \<Longrightarrow> mset (ord m) = mset m"
  by (simp add: iter_order_def)

lemma iter_order_set: "iter_order ord \<Longrightarrow> set (ord m) = set m"
  by (metis iter_orderD set_mset_mset)

lemma iter_order_id: "iter_order (\<lambda>m. m)"
  by (simp add: iter_order_def)

lemma iter_order_rev: "iter_order rev"
  by (simp add: iter_order_def)

lemma hm_keys_remove [simp]: "hm_keys (hm_remove k m) = hm_keys m - {k}"
  by (auto simp: hm_remove_def)

lemma hm_keys_insert [simp]: "hm_keys (hm_insert k v m) = insert k (hm_keys m)"
  by (auto simp: hm_insert_def hm_remove_def)

lemma hm_wf_Nil [simp]: "hm_wf []"
  by (simp add: hm_wf_def)

lemma hm_wf_remove [simp]: "hm_wf m \<Longrightarrow> hm_wf (hm_remove k m)"
  by (simp add: hm_wf_def hm_remove_def distinct_map_filter)

lemma hm_wf_insert [simp]: "hm_wf m \<Longrightarrow> hm_wf (hm_insert k v m)"
  using hm_wf_remove [of m k] by (auto simp: hm_wf_def hm_insert_def hm_remove_def)

lemma hm_lookup_insert: "hm_wf m \<Longrightarrow> map_of (hm_insert k v m) = (map_of m)(k \<mapsto> v)"
proof
  fix x
  assume "hm_wf m"
  have "map_of (filter (\<lambda>p. fst p \<noteq> k) m) x = (if x = k then None else map_of m x)"
    by (induction m) auto
  then show "map_of (hm_insert k v m) x = ((map_of m)(k \<mapsto> v)) x"
    by (auto simp: hm_insert_def hm_remove_def map_add_def split: option.split)
qed

lemma hm_lookup_remove: "map_of (hm_remove k m) = (map_of m)(k := None)"
proof
  fix x
  show "map_of (hm_remove k m) x = ((map_of m)(k := None)) x"
    by (induction m) (auto simp: hm_remove_def)
qed

lemma hm_remove_absent [simp]: "k \<notin> hm_keys m \<Longrightarrow> hm_remove k m = m"
  by (simp add: hm_remove_def filter_id_conv) (metis image_eqI)

lemma mset_hm_remove:
  "hm_wf m \<Longrightarrow> map_of m k = Some v \<Longrightarrow> mset m = add_mset (k, v) (mset (hm_remove k m))"
proof (induction m)
  case Nil
  then show ?case by simp
next
  case (Cons p m)
  show ?case
  proof (cases "fst p = k")
    case True
    with Cons.prems have "k \<notin> hm_keys m" and "p = (k, v)"
      by (auto simp: hm_wf_def)
    then have "hm_remove k (p # m) = m"
      using hm_remove_absent [of k m] by (simp add: hm_remove_def)
    with \<open>p = (k, v)\<close> show ?thesis by simp
  next
    case False
    with Cons show ?thesis by (cases p) (simp add: hm_wf_def hm_remove_def)
  qed
qed

lemma hm_insert_fresh: "k \<notin> hm_keys m \<Longrightarrow> hm_insert k v m = m @ [(k, v)]"
  by (simp add: hm_insert_def)

lemma hm_wf_map_of: "hm_wf m \<Longrightarrow> (k, v) \<in> set m \<Longrightarrow> map_of m k = Some v"
  by (simp add: hm_wf_def)

lemma hm_wf_mset: "mset m = mset m' \<Longrightarrow> hm_wf m \<longleftrightarrow> hm_wf m'"
  unfolding hm_wf_def by (metis mset_eq_imp_distinct_iff mset_map)

section \<open>Lists\<close>

lemma take_length_append [simp]: "n = length xs \<Longrightarrow> take n (xs @ ys) = xs"
  by simp

lemma drop_length_append [simp]: "n = length xs \<Longrightarrow> drop n (xs @ ys) = ys"
  by simp

lemma list_all_butlast_last: "q \<noteq> [] \<Longrightarrow> list_all P q \<longleftrightarrow> list_all P (butlast q) \<and> P (last q)"
  by (cases q rule: rev_cases) auto

lemma sorted_wrt_butlast_last:
  "q \<noteq> [] \<Longrightarrow> sorted_wrt R q \<longleftrightarrow> sorted_wrt R (butlast q) \<and> (\<forall>b \<in> set (butlast q). R b (last q))"
  by (cases q rule: rev_cases) (auto simp: sorted_wrt_append)

lemma min_zero_iff: "(min a b = (0::nat)) = (a = 0 \<or> b = 0)"
  by (auto simp: min_def)

lemma sum_list_map_update:
  fixes g :: "'a \<Rightarrow> 'b :: comm_monoid_add"
  shows "i < length xs \<Longrightarrow> sum_list (map g (xs[i := v])) + g (xs ! i) = sum_list (map g xs) + g v"
proof (induction xs arbitrary: i)
  case (Cons x xs)
  show ?case
  proof (cases i)
    case 0
    then show ?thesis by (simp add: ac_simps)
  next
    case (Suc j)
    with Cons.IH [of j] Cons.prems show ?thesis by (simp add: add.assoc)
  qed
qed simp

lemma cancel_swap:
  fixes a :: "'a :: cancel_comm_monoid_add"
  assumes "n + a = m + b" "x + a = b + y"
  shows "m + x = n + y"
proof -
  have "(m + x) + (a + b) = (m + b) + (x + a)" by (simp add: ac_simps)
  also have "\<dots> = (n + a) + (b + y)" by (simp only: assms)
  also have "\<dots> = (n + y) + (a + b)" by (simp add: ac_simps)
  finally show ?thesis by simp
qed

lemma balance_trans:
  fixes m :: "'a :: comm_monoid_add"
  assumes "m + x = n + y" "n + x' = k + y'"
  shows "m + (x + x') = k + (y + y')"
proof -
  have "m + (x + x') = (n + x') + y" by (metis assms(1) add.assoc add.commute)
  also have "\<dots> = k + (y + y')" by (simp add: assms(2) ac_simps)
  finally show ?thesis .
qed

lemma balance_frame:
  fixes m :: "'a :: comm_monoid_add"
  assumes "m + x = n + e" "(n + r) + e = k + y"
  shows "(m + r) + x = k + y"
proof -
  have "(m + r) + x = (n + e) + r" by (metis assms(1) add.assoc add.commute)
  also have "\<dots> = (n + r) + e" by (simp add: ac_simps)
  finally show ?thesis using assms(2) by simp
qed

lemma map_Some_map:
  "map Some xs = map g ys \<Longrightarrow> \<forall>y \<in> set ys. \<forall>x. g y = Some x \<longrightarrow> P x \<and> f x = h y \<Longrightarrow>
   map f xs = map h ys \<and> (\<forall>x \<in> set xs. P x)"
proof (induction ys arbitrary: xs)
  case (Cons y ys)
  then obtain x zs where "xs = x # zs" "Some x = g y" "map Some zs = map g ys" by auto
  with Cons.IH [of zs] Cons.prems(2) show ?case by auto
qed simp

end
