(* ===== verification/Rpc_Config.thy ===== *)
theory Rpc_Config
  imports Rpc_Prelude
begin

text \<open>
  The configuration records of \<open>core/src/config.rs\<close> and their defaults. A \<open>Duration\<close> is a number
  of seconds; every duration the crate builds comes from \<open>Duration::from_secs\<close>.
\<close>

type_synonym duration = nat

record client_config =
  cc_task_timeout :: nat
  cc_read_timeout :: duration
  cc_write_timeout :: duration
  cc_idle_timeout :: duration
  cc_connect_timeout :: duration
  cc_thresholds :: nat
  cc_stream_buf_size :: nat

definition client_config_default :: client_config where
  "client_config_default =
     \<lparr>cc_task_timeout = 20, cc_read_timeout = 5, cc_write_timeout = 5, cc_idle_timeout = 120,
      cc_connect_timeout = 10, cc_thresholds = 128, cc_stream_buf_size = 0\<rparr>"

record server_config =
  sc_read_timeout :: duration
  sc_write_timeout :: duration
  sc_idle_timeout :: duration
  sc_server_close_wait :: duration
  sc_stream_buf_size :: nat

definition server_config_default :: server_config where
  "server_config_default =
     \<lparr>sc_read_timeout = 5, sc_write_timeout = 5, sc_idle_timeout = 120,
      sc_server_close_wait = 90, sc_stream_buf_size = 0\<rparr>"

end
