(* ===== verification/Rpc_Buf_Io.thy ===== *)
theory Rpc_Buf_Io
  imports Rpc_Config
begin

text \<open>
  Buffered byte streams, \<open>core/src/io/buf_io.rs\<close>, and the cancellation and timeout wrappers of
  \<open>core/src/io/mod.rs\<close>. The socket below is its observable behaviour: a script of what successive
  \<open>read\<close> calls find (data in chunks of any size, failures, silence) and of what successive
  \<open>write\<close> calls do. The loops \<open>read_exact\<close>, \<open>read_at_least\<close> and \<open>write_all\<close> are partial functions,
  since a stream can interrupt them for ever; the locales below state what the loops rely on and
  prove that they return.
\<close>

section \<open>I/O errors, polling and cancellation\<close>

datatype io_kind =
  UnexpectedEof | WriteZero | Interrupted | TimedOut | OutOfMemory | AddrNotAvailable | Other_Kind nat

type_synonym 'a io_result = "('a, io_kind) result"

text \<open>\<open>Cancellable::poll\<close>: the I/O future is polled first, then the cancelling one.\<close>

fun cancellable_poll :: "'a poll \<Rightarrow> 'c poll \<Rightarrow> ('a, unit) result poll" where
  "cancellable_poll (Ready x) c = Ready (Ok x)"
| "cancellable_poll Pending (Ready y) = Ready (Err ())"
| "cancellable_poll Pending Pending = Pending"

text \<open>
  An operation is run with a flag: when it is awaited on its own it waits through silence of the
  peer (\<open>patient\<close>); raced against a timer it is abandoned at the first silence and is \<open>Pending\<close>
  when the timer fires. \<open>None\<close> is not returning. \<open>io_with_timeout!\<close> turns the abandoned
  operation into \<open>TimedOut\<close>; a zero duration disables the timer.
\<close>

type_synonym ('s, 'a) io_op = "bool \<Rightarrow> ('s \<times> 'a io_result poll) option"

definition io_with_timeout :: "duration \<Rightarrow> ('s, 'a) io_op \<Rightarrow> ('s \<times> 'a io_result) option" where
  "io_with_timeout d f =
     (if d = 0 then
        (case f True of Some (s, Ready r) \<Rightarrow> Some (s, r) | _ \<Rightarrow> None)
      else
        (case f False of
           Some (s, r) \<Rightarrow>
             (case cancellable_poll r (Ready ()) of
                Ready (Inr v) \<Rightarrow> Some (s, v)
              | Ready (Inl _) \<Rightarrow> Some (s, Err TimedOut)
              | Pending \<Rightarrow> None)
         | None \<Rightarrow> None))"

section \<open>The loops of AsyncRead and AsyncWrite\<close>

type_synonym 's reader = "'s \<Rightarrow> nat \<Rightarrow> 's \<times> bytes io_result poll"
type_synonym 's writer = "'s \<Rightarrow> bytes \<Rightarrow> ('s \<times> nat io_result poll) option"

text \<open>\<open>n\<close> is the length of the part of the buffer that is still to be filled.\<close>

partial_function (option) read_exact ::
  "'s reader \<Rightarrow> bool \<Rightarrow> 's \<Rightarrow> nat \<Rightarrow> bytes \<Rightarrow> ('s \<times> bytes io_result poll) option" where
  "read_exact rd patient s n acc =
     (if n = 0 then Some (s, Ready (Ok acc))
      else (case rd s n of (s', r) \<Rightarrow>
        (case r of
           Pending \<Rightarrow> (if patient then read_exact rd patient s' n acc else Some (s', Pending))
         | Ready q \<Rightarrow>
             (case q of
                Inr bs \<Rightarrow>
                  (if bs = [] then Some (s', Ready (Err UnexpectedEof))
                   else read_exact rd patient s' (n - length bs) (acc @ bs))
              | Inl e \<Rightarrow>
                  (if e = Interrupted then read_exact rd patient s' n acc
                   else Some (s', Ready (Err e)))))))"

partial_function (option) read_at_least ::
  "'s reader \<Rightarrow> bool \<Rightarrow> 's \<Rightarrow> nat \<Rightarrow> nat \<Rightarrow> bytes \<Rightarrow> ('s \<times> bytes io_result poll) option" where
  "read_at_least rd patient s buf_len min_len acc =
     (if length acc < min_len \<and> length acc < buf_len then
        (case rd s (buf_len - length acc) of (s', r) \<Rightarrow>
          (case r of
             Pending \<Rightarrow>
               (if patient then read_at_least rd patient s' buf_len min_len acc
                else Some (s', Pending))
           | Ready q \<Rightarrow>
               (case q of
                  Inr bs \<Rightarrow>
                    (if bs = [] then Some (s', Ready (Err UnexpectedEof))
                     else read_at_least rd patient s' buf_len min_len (acc @ bs))
                | Inl e \<Rightarrow>
                    (if e = Interrupted then read_at_least rd patient s' buf_len min_len acc
                     else Some (s', Ready (Err e))))))
      else Some (s, Ready (Ok acc)))"

partial_function (option) write_all ::
  "'s writer \<Rightarrow> bool \<Rightarrow> 's \<Rightarrow> bytes \<Rightarrow> ('s \<times> unit io_result poll) option" where
  "write_all wr patient s buf =
     (if buf = [] then Some (s, Ready (Ok ()))
      else (case wr s buf of
         None \<Rightarrow> None
       | Some (s', r) \<Rightarrow>
          (case r of
             Pending \<Rightarrow> (if patient then write_all wr patient s' buf else Some (s', Pending))
           | Ready q \<Rightarrow>
               (case q of
                  Inr n \<Rightarrow>
                    (if n = 0 then Some (s', Ready (Err WriteZero))
                     else write_all wr patient s' (drop n buf))
                | Inl e \<Rightarrow>
                    (if e = Interrupted then write_all wr patient s' buf
                     else Some (s', Ready (Err e)))))))"

section \<open>The socket\<close>

datatype rd_event = Data bytes | Rd_Fail io_kind | Rd_Stall

fun raw_read :: "rd_event list reader" where
  "raw_read [] n = ([], Ready (Ok []))"
| "raw_read (Data bs # s) n =
     (if length bs \<le> n then (s, Ready (Ok bs))
      else (Data (drop n bs) # s, Ready (Ok (take n bs))))"
| "raw_read (Rd_Fail e # s) n = (s, Ready (Err e))"
| "raw_read (Rd_Stall # s) n = (s, Pending)"

datatype wr_event = Accept nat | Wr_Fail io_kind | Wr_Stall

record sink =
  sk_out :: bytes
  sk_script :: "wr_event list"

text \<open>A socket whose script is used up accepts everything.\<close>

fun raw_write :: "sink writer" where
  "raw_write s bs =
     (case sk_script s of
        [] \<Rightarrow> Some (s\<lparr>sk_out := sk_out s @ bs\<rparr>, Ready (Ok (length bs)))
      | Accept k # t \<Rightarrow>
          Some (s\<lparr>sk_out := sk_out s @ take k bs, sk_script := t\<rparr>, Ready (Ok (min k (length bs))))
      | Wr_Fail e # t \<Rightarrow> Some (s\<lparr>sk_script := t\<rparr>, Ready (Err e))
      | Wr_Stall # t \<Rightarrow> Some (s\<lparr>sk_script := t\<rparr>, Pending))"

section \<open>AsyncBufRead\<close>

record buf_read =
  br_buf :: bytes
  br_pos :: nat
  br_cap :: nat

definition buf_read_new :: "nat \<Rightarrow> buf_read outcome" where
  "buf_read_new capacity =
     (if 0 < capacity then Return \<lparr>br_buf = replicate capacity 0, br_pos = 0, br_cap = 0\<rparr>
      else Panic)"

definition read_buffered ::
  "'s reader \<Rightarrow> buf_read \<Rightarrow> 's \<Rightarrow> nat \<Rightarrow> buf_read \<times> 's \<times> bytes io_result poll" where
  "read_buffered rd b s len =
     (if br_pos b < br_cap b then
        (let n = min len (br_cap b - br_pos b) in
         (b\<lparr>br_pos := br_pos b + n\<rparr>, s, Ready (Ok (take n (drop (br_pos b) (br_buf b))))))
      else if length (br_buf b) \<le> len then
        (case rd s len of (s', r) \<Rightarrow> (b, s', r))
      else
        (case rd s (length (br_buf b)) of (s', r) \<Rightarrow>
           (case r of
              Ready (Inr bs) \<Rightarrow>
                (let buf = bs @ drop (length bs) (br_buf b);
                     n = min len (length bs) in
                 (b\<lparr>br_buf := buf, br_cap := length bs, br_pos := n\<rparr>, s',
                  Ready (Ok (take n buf))))
            | Ready (Inl e) \<Rightarrow> (b, s', Ready (Err e))
            | Pending \<Rightarrow> (b, s', Pending))))"

section \<open>AsyncBufWrite\<close>

record buf_write =
  bw_buf :: bytes
  bw_pos :: nat

definition buf_write_new :: "nat \<Rightarrow> buf_write outcome" where
  "buf_write_new capacity =
     (if 0 < capacity then Return \<lparr>bw_buf = replicate capacity 0, bw_pos = 0\<rparr> else Panic)"

definition buf_flush ::
  "'s writer \<Rightarrow> bool \<Rightarrow> buf_write \<Rightarrow> 's \<Rightarrow> (buf_write \<times> 's \<times> unit io_result poll) option" where
  "buf_flush wr patient w s =
     (if 0 < bw_pos w then
        (case write_all wr patient s (take (bw_pos w) (bw_buf w)) of
           None \<Rightarrow> None
         | Some (s', Ready (Inr _)) \<Rightarrow> Some (w\<lparr>bw_pos := 0\<rparr>, s', Ready (Ok ()))
         | Some (s', Ready (Inl e)) \<Rightarrow> Some (w, s', Ready (Err e))
         | Some (s', Pending) \<Rightarrow> Some (w, s', Pending))
      else Some (w, s, Ready (Ok ())))"

text \<open>The copy into the internal buffer, \<open>self.buf[pos..pos + n].copy_from_slice(buf)\<close>.\<close>

definition buf_store :: "buf_write \<Rightarrow> bytes \<Rightarrow> buf_write" where
  "buf_store w bs =
     w\<lparr>bw_buf := take (bw_pos w) (bw_buf w) @ bs @ drop (bw_pos w + length bs) (bw_buf w),
       bw_pos := bw_pos w + length bs\<rparr>"

definition write_buffered ::
  "'s writer \<Rightarrow> bool \<Rightarrow> buf_write \<Rightarrow> 's \<Rightarrow> bytes \<Rightarrow> (buf_write \<times> 's \<times> nat io_result poll) option"
  where
  "write_buffered wr patient w s bs =
     (if length (bw_buf w) \<le> length bs then
        (case buf_flush wr patient w s of
           None \<Rightarrow> None
         | Some (w', s', Ready (Inr _)) \<Rightarrow>
             (case wr s' bs of None \<Rightarrow> None | Some (s'', r) \<Rightarrow> Some (w', s'', r))
         | Some (w', s', Ready (Inl e)) \<Rightarrow> Some (w', s', Ready (Err e))
         | Some (w', s', Pending) \<Rightarrow> Some (w', s', Pending))
      else
        (case (if length (bw_buf w) - bw_pos w < length bs then buf_flush wr patient w s
               else Some (w, s, Ready (Ok ()))) of
           None \<Rightarrow> None
         | Some (w', s', Ready (Inr _)) \<Rightarrow> Some (buf_store w' bs, s', Ready (Ok (length bs)))
         | Some (w', s', Ready (Inl e)) \<Rightarrow> Some (w', s', Ready (Err e))
         | Some (w', s', Pending) \<Rightarrow> Some (w', s', Pending)))"

section \<open>AsyncBufStream\<close>

record buf_stream =
  bs_read :: buf_read
  bs_write :: buf_write
  bs_in :: "rd_event list"
  bs_out :: sink

definition buf_stream_new :: "rd_event list \<Rightarrow> sink \<Rightarrow> nat \<Rightarrow> buf_stream outcome" where
  "buf_stream_new i out buf_size =
     (case buf_read_new buf_size of
        Panic \<Rightarrow> Panic
      | Return r \<Rightarrow>
          (case buf_write_new buf_size of
             Panic \<Rightarrow> Panic
           | Return w \<Rightarrow> Return \<lparr>bs_read = r, bs_write = w, bs_in = i, bs_out = out\<rparr>))"

definition stream_read :: "buf_stream reader" where
  "stream_read s len =
     (case read_buffered raw_read (bs_read s) (bs_in s) len of
        (b, i, r) \<Rightarrow> (s\<lparr>bs_read := b, bs_in := i\<rparr>, r))"

definition stream_write :: "bool \<Rightarrow> buf_stream writer" where
  "stream_write patient s bs =
     (case write_buffered raw_write patient (bs_write s) (bs_out s) bs of
        None \<Rightarrow> None
      | Some (w, out, r) \<Rightarrow> Some (s\<lparr>bs_write := w, bs_out := out\<rparr>, r))"

definition stream_flush :: "bool \<Rightarrow> buf_stream \<Rightarrow> (buf_stream \<times> unit io_result poll) option" where
  "stream_flush patient s =
     (case buf_flush raw_write patient (bs_write s) (bs_out s) of
        None \<Rightarrow> None
      | Some (w, out, r) \<Rightarrow> Some (s\<lparr>bs_write := w, bs_out := out\<rparr>, r))"

section \<open>One round of each loop\<close>

lemma read_exact_done [simp]: "read_exact rd p s 0 acc = Some (s, Ready (Ok acc))"
  by (simp add: read_exact.simps)

lemma read_exact_wait:
  "0 < n \<Longrightarrow> rd s n = (s', Pending) \<Longrightarrow>
   read_exact rd p s n acc = (if p then read_exact rd p s' n acc else Some (s', Pending))"
  by (simp add: read_exact.simps [of rd p s])

lemma read_exact_fail:
  "0 < n \<Longrightarrow> rd s n = (s', Ready (Err e)) \<Longrightarrow>
   read_exact rd p s n acc =
     (if e = Interrupted then read_exact rd p s' n acc else Some (s', Ready (Err e)))"
  by (simp add: read_exact.simps [of rd p s])

lemma read_exact_eof:
  "0 < n \<Longrightarrow> rd s n = (s', Ready (Ok [])) \<Longrightarrow>
   read_exact rd p s n acc = Some (s', Ready (Err UnexpectedEof))"
  by (simp add: read_exact.simps [of rd p s])

lemma read_exact_more:
  "0 < n \<Longrightarrow> rd s n = (s', Ready (Ok bs)) \<Longrightarrow> bs \<noteq> [] \<Longrightarrow>
   read_exact rd p s n acc = read_exact rd p s' (n - length bs) (acc @ bs)"
  by (simp add: read_exact.simps [of rd p s])

lemma write_all_done [simp]: "write_all wr p s [] = Some (s, Ready (Ok ()))"
  by (simp add: write_all.simps)

lemma write_all_wait:
  "bs \<noteq> [] \<Longrightarrow> wr s bs = Some (s', Pending) \<Longrightarrow>
   write_all wr p s bs = (if p then write_all wr p s' bs else Some (s', Pending))"
  by (simp add: write_all.simps [of wr p s])

lemma write_all_fail:
  "bs \<noteq> [] \<Longrightarrow> wr s bs = Some (s', Ready (Err e)) \<Longrightarrow>
   write_all wr p s bs =
     (if e = Interrupted then write_all wr p s' bs else Some (s', Ready (Err e)))"
  by (simp add: write_all.simps [of wr p s])

lemma write_all_zero:
  "bs \<noteq> [] \<Longrightarrow> wr s bs = Some (s', Ready (Ok 0)) \<Longrightarrow>
   write_all wr p s bs = Some (s', Ready (Err WriteZero))"
  by (simp add: write_all.simps [of wr p s])

lemma write_all_more:
  "bs \<noteq> [] \<Longrightarrow> wr s bs = Some (s', Ready (Ok k)) \<Longrightarrow> 0 < k \<Longrightarrow>
   write_all wr p s bs = write_all wr p s' (drop k bs)"
  by (simp add: write_all.simps [of wr p s])

section \<open>What the loops rely on, and that they return\<close>

text \<open>
  A byte source has a content \<open>rest\<close> still to be read and a bound \<open>fuel\<close> on the interruptions it
  can still produce. A read of \<open>n\<close> bytes gives at most \<open>n\<close> of the next bytes, in order, or fails
  and loses none.
\<close>

locale byte_source =
  fixes rd :: "'s reader" and rest :: "'s \<Rightarrow> bytes" and fuel :: "'s \<Rightarrow> nat" and inv :: "'s \<Rightarrow> bool"
  assumes rd_inv: "inv s \<Longrightarrow> rd s n = (s', r) \<Longrightarrow> inv s' \<and> fuel s' \<le> fuel s"
    and rd_data: "inv s \<Longrightarrow> rd s n = (s', Ready (Ok bs)) \<Longrightarrow> length bs \<le> n \<and> rest s = bs @ rest s'"
    and rd_wait: "inv s \<Longrightarrow> rd s n = (s', Pending) \<Longrightarrow> fuel s' < fuel s \<and> rest s' = rest s"
    and rd_err: "inv s \<Longrightarrow> rd s n = (s', Ready (Err e)) \<Longrightarrow> fuel s' < fuel s \<and> rest s' = rest s"
begin

definition read_post :: "bool \<Rightarrow> 's \<Rightarrow> nat \<Rightarrow> bytes \<Rightarrow> 's \<Rightarrow> bytes io_result poll \<Rightarrow> bool" where
  "read_post p s n acc s' r \<longleftrightarrow>
     inv s' \<and> fuel s' \<le> fuel s \<and> (p \<longrightarrow> r \<noteq> Pending) \<and>
     (\<forall>bs. r = Ready (Ok bs) \<longrightarrow> (\<exists>d. bs = acc @ d \<and> length d = n \<and> rest s = d @ rest s'))"

lemma read_post_step:
  assumes "read_post p s' m (acc @ d) t r" "fuel s' \<le> fuel s" "rest s = d @ rest s'" "n = length d + m"
  shows "read_post p s n acc t r"
  using assms unfolding read_post_def by force

lemma read_exact_returns:
  assumes "inv s"
  shows "\<exists>s' r. read_exact rd p s n acc = Some (s', r) \<and> read_post p s n acc s' r"
  using assms
proof (induction "n + fuel s" arbitrary: s n acc rule: less_induct)
  case less
  obtain s' q where rd: "rd s n = (s', q)" by fastforce
  have inv': "inv s'" "fuel s' \<le> fuel s" using rd_inv [OF less.prems rd] by auto
  have again: "\<exists>t r. read_exact rd p s' m (acc @ d) = Some (t, r) \<and> read_post p s n acc t r"
    if "m + fuel s' < n + fuel s" "rest s = d @ rest s'" "n = length d + m" for m d
    using less.hyps [OF that(1) inv'(1), of "acc @ d"] read_post_step [OF _ inv'(2) that(2,3)] by blast
  have retry: "\<exists>t r. read_exact rd p s' n acc = Some (t, r) \<and> read_post p s n acc t r"
    if "fuel s' < fuel s" "rest s' = rest s"
    using again [of n "[]"] that by simp
  have stop: "read_post p s n acc s' r" if "p \<longrightarrow> r \<noteq> Pending" "\<nexists>bs. r = Ready (Ok bs)" for r
    using inv' that by (auto simp: read_post_def)
  consider "n = 0" | "0 < n" "q = Pending" | e where "0 < n" "q = Ready (Err e)"
    | "0 < n" "q = Ready (Ok [])" | bs where "0 < n" "q = Ready (Ok bs)" "bs \<noteq> []"
    by (cases q rule: poll.exhaust; metis neq0_conv sum.exhaust)
  then show ?case
  proof cases
    case 1
    then show ?thesis using less.prems by (simp add: read_post_def)
  next
    case 2
    then show ?thesis
      using rd rd_wait [OF less.prems] retry stop by (cases p) (auto simp: read_exact_wait)
  next
    case 3
    then show ?thesis
      using rd rd_err [OF less.prems] retry stop by (cases "e = Interrupted") (auto simp: read_exact_fail)
  next
    case 4
    then show ?thesis using rd stop by (auto simp: read_exact_eof)
  next
    case 5
    then have "n - length bs + fuel s' < n + fuel s" "rest s = bs @ rest s'" "length bs \<le> n"
      using rd rd_data [OF less.prems] inv' by (cases bs; force)+
    then show ?thesis using 5 rd again [of "n - length bs" bs] by (simp add: read_exact_more)
  qed
qed

end

text \<open>
  A healthy source has neither failures nor silences ahead: as long as bytes are left, a read
  gives some of them.
\<close>

locale healthy_source = byte_source +
  fixes good :: "'a \<Rightarrow> bool"
  assumes rd_good: "inv s \<Longrightarrow> good s \<Longrightarrow> 0 < n \<Longrightarrow> rest s \<noteq> [] \<Longrightarrow>
    \<exists>s' bs. rd s n = (s', Ready (Ok bs)) \<and> bs \<noteq> [] \<and> good s'"
begin

lemma read_exact_good:
  assumes "inv s" "good s" "n \<le> length (rest s)"
  shows "\<exists>s'. read_exact rd p s n acc = Some (s', Ready (Ok (acc @ take n (rest s)))) \<and>
     inv s' \<and> good s' \<and> rest s' = drop n (rest s)"
  using assms
proof (induction n arbitrary: s acc rule: less_induct)
  case (less n)
  show ?case
  proof (cases "n = 0")
    case True
    then show ?thesis using less.prems by (simp add: read_exact.simps)
  next
    case False
    with less.prems obtain s' bs where rd: "rd s n = (s', Ready (Ok bs))" "bs \<noteq> []" "good s'"
      using rd_good [of s n] by force
    have *: "length bs \<le> n" "rest s = bs @ rest s'" "inv s'"
      using rd_data [OF less.prems(1) rd(1)] rd_inv [OF less.prems(1) rd(1)] by auto
    have "n - length bs < n" using rd(2) False by (cases bs) auto
    moreover have "n - length bs \<le> length (rest s')" using less.prems(3) * by simp
    ultimately have "\<exists>t. read_exact rd p s' (n - length bs) (acc @ bs) =
        Some (t, Ready (Ok ((acc @ bs) @ take (n - length bs) (rest s')))) \<and>
        inv t \<and> good t \<and> rest t = drop (n - length bs) (rest s')"
      using less.IH rd(3) *(3) by blast
    then show ?thesis using rd * False by (simp add: read_exact_more)
  qed
qed

end

text \<open>
  A byte sink has accepted \<open>out\<close>; a write of a buffer accepts a prefix of it, and what it does
  otherwise uses up its bound on interruptions. When the caller will try again (silence while
  patient, or an interruption) nothing of the buffer was taken.
\<close>

locale byte_sink =
  fixes wr :: "'s writer" and out :: "'s \<Rightarrow> bytes" and fuel :: "'s \<Rightarrow> nat" and inv :: "'s \<Rightarrow> bool"
    and p :: bool
  assumes wr_total: "inv s \<Longrightarrow> bs \<noteq> [] \<Longrightarrow> wr s bs \<noteq> None"
    and wr_inv: "inv s \<Longrightarrow> wr s bs = Some (s', r) \<Longrightarrow> inv s' \<and> fuel s' \<le> fuel s"
    and wr_data: "inv s \<Longrightarrow> wr s bs = Some (s', Ready (Ok k)) \<Longrightarrow>
      k \<le> length bs \<and> out s' = out s @ take k bs \<and> (k = 0 \<and> bs \<noteq> [] \<longrightarrow> fuel s' < fuel s)"
    and wr_wait: "inv s \<Longrightarrow> wr s bs = Some (s', r) \<Longrightarrow> \<nexists>k. r = Ready (Ok k) \<Longrightarrow> fuel s' < fuel s"
    and wr_retry: "inv s \<Longrightarrow> wr s bs = Some (s', r) \<Longrightarrow> r = Pending \<and> p \<or> r = Ready (Err Interrupted) \<Longrightarrow>
      out s' = out s"
begin

definition write_post :: "'s \<Rightarrow> bytes \<Rightarrow> 's \<Rightarrow> unit io_result poll \<Rightarrow> bool" where
  "write_post s bs s' r \<longleftrightarrow>
     inv s' \<and> fuel s' \<le> fuel s \<and> (p \<longrightarrow> r \<noteq> Pending) \<and> r \<noteq> Ready (Err Interrupted) \<and>
     (r = Ready (Ok ()) \<longrightarrow> out s' = out s @ bs) \<and> (r \<noteq> Ready (Ok ()) \<longrightarrow> fuel s' < fuel s)"

lemma write_post_step:
  assumes "write_post s' (drop k bs) t r" "fuel s' \<le> fuel s" "out s' = out s @ take k bs"
  shows "write_post s bs t r"
  using assms by (auto simp: write_post_def)

lemma write_all_returns:
  assumes "inv s"
  shows "\<exists>s' r. write_all wr p s bs = Some (s', r) \<and> write_post s bs s' r"
  using assms
proof (induction "length bs + fuel s" arbitrary: s bs rule: less_induct)
  case less
  show ?case
  proof (cases "bs = []")
    case True
    then show ?thesis using less.prems by (simp add: write_post_def)
  next
    case False
    then obtain s' q where wr: "wr s bs = Some (s', q)" using wr_total less.prems by fastforce
    have inv': "inv s'" "fuel s' \<le> fuel s" using wr_inv [OF less.prems wr] by auto
    have again: "\<exists>t r. write_all wr p s' (drop k bs) = Some (t, r) \<and> write_post s bs t r"
      if "length (drop k bs) + fuel s' < length bs + fuel s" "out s' = out s @ take k bs" for k
      using less.hyps [OF that(1) inv'(1)] write_post_step [OF _ inv'(2) that(2)] by blast
    have retry: "\<exists>t r. write_all wr p s' bs = Some (t, r) \<and> write_post s bs t r"
      if "q = Pending \<and> p \<or> q = Ready (Err Interrupted)"
      using again [of 0] wr_retry [OF less.prems wr that] wr_wait [OF less.prems wr] that by auto
    have stop: "write_post s bs s' r"
      if "fuel s' < fuel s" "p \<longrightarrow> r \<noteq> Pending" "r \<noteq> Ready (Err Interrupted)" "r \<noteq> Ready (Ok ())" for r
      using inv' that by (auto simp: write_post_def)
    consider "q = Pending" | e where "q = Ready (Err e)" | "q = Ready (Ok 0)"
      | k where "q = Ready (Ok k)" "0 < k"
      by (cases q rule: poll.exhaust; metis neq0_conv sum.exhaust)
    then show ?thesis
    proof cases
      case 1
      then show ?thesis
        using wr False wr_wait [OF less.prems wr] retry stop by (cases p) (auto simp: write_all_wait)
    next
      case 2
      then show ?thesis
        using wr False wr_wait [OF less.prems wr] retry stop
        by (cases "e = Interrupted") (auto simp: write_all_fail)
    next
      case 3
      then show ?thesis
        using wr False wr_data [OF less.prems, of bs s' 0] stop by (auto simp: write_all_zero)
    next
      case 4
      then show ?thesis
        using wr False wr_data [OF less.prems, of bs s' k] inv' again [of k]
        by (auto simp: write_all_more)
    qed
  qed
qed

end

section \<open>The socket and the buffered stream meet these contracts\<close>

fun script_data :: "rd_event list \<Rightarrow> bytes" where
  "script_data [] = []"
| "script_data (Data bs # s) = bs @ script_data s"
| "script_data (_ # s) = script_data s"

text \<open>A peer that neither fails nor falls silent: every event carries some bytes.\<close>

fun all_data :: "rd_event list \<Rightarrow> bool" where
  "all_data [] = True"
| "all_data (Data bs # s) = (bs \<noteq> [] \<and> all_data s)"
| "all_data (_ # s) = False"

interpretation raw: healthy_source raw_read script_data length "\<lambda>_. True" all_data
proof
  fix s s' :: "rd_event list" and n r
  show "raw_read s n = (s', r) \<Longrightarrow> True \<and> length s' \<le> length s"
    by (cases "(s, n)" rule: raw_read.cases) (auto split: if_splits)
next
  fix s s' :: "rd_event list" and n bs
  show "raw_read s n = (s', Ready (Ok bs)) \<Longrightarrow> length bs \<le> n \<and> script_data s = bs @ script_data s'"
    by (cases "(s, n)" rule: raw_read.cases) (auto split: if_splits)
next
  fix s s' :: "rd_event list" and n
  show "raw_read s n = (s', Pending) \<Longrightarrow> length s' < length s \<and> script_data s' = script_data s"
    by (cases "(s, n)" rule: raw_read.cases) (auto split: if_splits)
next
  fix s s' :: "rd_event list" and n e
  show "raw_read s n = (s', Ready (Err e)) \<Longrightarrow> length s' < length s \<and> script_data s' = script_data s"
    by (cases "(s, n)" rule: raw_read.cases) (auto split: if_splits)
next
  fix s :: "rd_event list" and n :: nat
  show "all_data s \<Longrightarrow> 0 < n \<Longrightarrow> script_data s \<noteq> [] \<Longrightarrow>
      \<exists>s' bs. raw_read s n = (s', Ready (Ok bs)) \<and> bs \<noteq> [] \<and> all_data s'"
    by (cases "(s, n)" rule: raw_read.cases) auto
qed

interpretation rawout: byte_sink raw_write sk_out "\<lambda>s. length (sk_script s)" "\<lambda>_. True" p for p
  by unfold_locales (auto split: list.splits wr_event.splits simp: min_def)

definition buf_read_inv :: "buf_read \<Rightarrow> bool" where
  "buf_read_inv b \<longleftrightarrow> br_pos b \<le> br_cap b \<and> br_cap b \<le> length (br_buf b) \<and> br_buf b \<noteq> []"

definition buf_read_rest :: "buf_read \<Rightarrow> bytes" where
  "buf_read_rest b = take (br_cap b - br_pos b) (drop (br_pos b) (br_buf b))"

lemma read_buffered_Ok:
  assumes "buf_read_inv b" "read_buffered raw_read b s n = (b', s', Ready (Ok bs))"
  shows "length bs \<le> n \<and>
    buf_read_rest b @ script_data s = bs @ buf_read_rest b' @ script_data s'"
proof (cases "br_pos b < br_cap b")
  case True
  have "take k xs @ take (m - k) (drop k xs) = take m xs" if "k \<le> m" for k m and xs :: bytes
    by (metis that append_take_drop_id le_add_diff_inverse take_add)
  note split = this [of "min n (br_cap b - br_pos b)" "br_cap b - br_pos b" "drop (br_pos b) (br_buf b)"]
  from True assms show ?thesis
    using split by (auto simp: read_buffered_def Let_def buf_read_rest_def add.commute diff_diff_eq)
next
  case False
  then have "buf_read_rest b = []" using assms(1) by (simp add: buf_read_rest_def)
  with False assms show ?thesis
    by (auto simp: read_buffered_def Let_def buf_read_rest_def min_def take_drop
        dest!: raw.rd_data [OF TrueI] split: if_splits prod.splits poll.splits sum.splits)
qed

lemma raw_read_interrupted:
  "raw_read s n = (s', r) \<Longrightarrow> \<nexists>bs. r = Ready (Ok bs) \<Longrightarrow>
   length s' < length s \<and> script_data s' = script_data s"
  by (cases "(s, n)" rule: raw_read.cases) (auto split: if_splits)

lemma read_buffered_inv:
  assumes "buf_read_inv b" "read_buffered raw_read b s n = (b', s', r)"
  shows "buf_read_inv b' \<and> length s' \<le> length s \<and>
    ((\<nexists>bs. r = Ready (Ok bs)) \<longrightarrow> b' = b \<and> length s' < length s \<and> script_data s' = script_data s)"
proof (cases "br_pos b < br_cap b")
  case True
  with assms show ?thesis
    by (auto simp: read_buffered_def Let_def buf_read_inv_def)
next
  case False
  with assms show ?thesis
    by (auto simp: read_buffered_def Let_def buf_read_inv_def
        dest: raw.rd_data [OF TrueI] raw.rd_inv [OF TrueI] raw_read_interrupted
        split: if_splits prod.splits poll.splits sum.splits)
qed

lemma read_buffered_good:
  assumes "buf_read_inv b" "all_data s" "0 < n" "buf_read_rest b @ script_data s \<noteq> []"
  shows "\<exists>b' s' bs. read_buffered raw_read b s n = (b', s', Ready (Ok bs)) \<and> bs \<noteq> [] \<and> all_data s'"
proof (cases "br_pos b < br_cap b")
  case True
  with assms show ?thesis
    by (auto simp: read_buffered_def Let_def buf_read_inv_def)
next
  case False
  then have "script_data s \<noteq> []" using assms by (simp add: buf_read_rest_def)
  with False assms show ?thesis
    using raw.rd_good [of s n] raw.rd_good [of s "length (br_buf b)"]
    by (auto simp: read_buffered_def Let_def buf_read_inv_def min_def take_Cons' split: list.splits)
qed

definition stream_rest :: "buf_stream \<Rightarrow> bytes" where
  "stream_rest s = buf_read_rest (bs_read s) @ script_data (bs_in s)"

definition buf_write_inv :: "buf_write \<Rightarrow> bool" where
  "buf_write_inv w \<longleftrightarrow> bw_pos w \<le> length (bw_buf w) \<and> bw_buf w \<noteq> []"

definition stream_inv :: "buf_stream \<Rightarrow> bool" where
  "stream_inv s \<longleftrightarrow> buf_read_inv (bs_read s) \<and> buf_write_inv (bs_write s)"

lemma stream_read_eq:
  "stream_read s n = (s', r) \<longleftrightarrow>
   (\<exists>b i. read_buffered raw_read (bs_read s) (bs_in s) n = (b, i, r) \<and>
          s' = s\<lparr>bs_read := b, bs_in := i\<rparr>)"
  by (auto simp: stream_read_def split: prod.splits)

interpretation buffered: healthy_source stream_read stream_rest "\<lambda>s. length (bs_in s)" stream_inv
  "\<lambda>s. all_data (bs_in s)"
proof
  show "stream_inv s \<Longrightarrow> stream_read s n = (s', r) \<Longrightarrow>
      stream_inv s' \<and> length (bs_in s') \<le> length (bs_in s)" for s n s' r
    using read_buffered_inv by (fastforce simp: stream_read_eq stream_inv_def)
  show "stream_inv s \<Longrightarrow> stream_read s n = (s', Ready (Ok bs)) \<Longrightarrow>
      length bs \<le> n \<and> stream_rest s = bs @ stream_rest s'" for s n s' bs
    using read_buffered_Ok by (fastforce simp: stream_read_eq stream_inv_def stream_rest_def)
  show "stream_inv s \<Longrightarrow> stream_read s n = (s', Pending) \<Longrightarrow>
      length (bs_in s') < length (bs_in s) \<and> stream_rest s' = stream_rest s" for s n s'
    using read_buffered_inv by (fastforce simp: stream_read_eq stream_inv_def stream_rest_def)
  show "stream_inv s \<Longrightarrow> stream_read s n = (s', Ready (Err e)) \<Longrightarrow>
      length (bs_in s') < length (bs_in s) \<and> stream_rest s' = stream_rest s" for s n s' e
    using read_buffered_inv by (fastforce simp: stream_read_eq stream_inv_def stream_rest_def)
  show "stream_inv s \<Longrightarrow> all_data (bs_in s) \<Longrightarrow> 0 < n \<Longrightarrow> stream_rest s \<noteq> [] \<Longrightarrow>
      \<exists>s' bs. stream_read s n = (s', Ready (Ok bs)) \<and> bs \<noteq> [] \<and> all_data (bs_in s')" for s n
    using read_buffered_good [of "bs_read s" "bs_in s" n]
    by (fastforce simp: stream_read_eq stream_inv_def stream_rest_def)
qed

definition buf_out :: "buf_write \<Rightarrow> sink \<Rightarrow> bytes" where
  "buf_out w s = sk_out s @ take (bw_pos w) (bw_buf w)"

definition stream_out :: "buf_stream \<Rightarrow> bytes" where
  "stream_out s = buf_out (bs_write s) (bs_out s)"

text \<open>
  Flushing returns; on success the bytes in transit are on the socket, otherwise an interruption
  of the socket was used up.
\<close>

lemma buf_flush_returns:
  assumes "buf_write_inv w"
  shows "\<exists>w' s' r. buf_flush raw_write p w s = Some (w', s', r) \<and> buf_write_inv w' \<and>
    length (sk_script s') \<le> length (sk_script s) \<and>
    (p \<longrightarrow> r \<noteq> Pending) \<and> r \<noteq> Ready (Err Interrupted) \<and>
    (r = Ready (Ok ()) \<longrightarrow> bw_pos w' = 0 \<and> bw_buf w' = bw_buf w \<and> sk_out s' = buf_out w s) \<and>
    (r \<noteq> Ready (Ok ()) \<longrightarrow> length (sk_script s') < length (sk_script s))"
proof -
  obtain s' r where *: "write_all raw_write p s (take (bw_pos w) (bw_buf w)) = Some (s', r)"
    "rawout.write_post p s (take (bw_pos w) (bw_buf w)) s' r"
    using rawout.write_all_returns by blast
  show ?thesis
    using * assms
    by (cases r rule: poll.exhaust)
       (auto simp: buf_flush_def rawout.write_post_def buf_out_def buf_write_inv_def split: sum.splits)
qed

lemma buf_store_out:
  "bw_pos w + length bs \<le> length (bw_buf w) \<Longrightarrow> buf_out (buf_store w bs) s = buf_out w s @ bs"
  by (simp add: buf_out_def buf_store_def)

lemma write_buffered_returns:
  assumes "buf_write_inv w" "bs \<noteq> []"
  shows "\<exists>w' s' r. write_buffered raw_write p w s bs = Some (w', s', r) \<and> buf_write_inv w' \<and>
    length (sk_script s') \<le> length (sk_script s) \<and>
    (\<forall>k. r = Ready (Ok k) \<longrightarrow> k \<le> length bs \<and> buf_out w' s' = buf_out w s @ take k bs \<and>
       (k = 0 \<longrightarrow> length (sk_script s') < length (sk_script s))) \<and>
    ((\<nexists>k. r = Ready (Ok k)) \<longrightarrow> length (sk_script s') < length (sk_script s)) \<and>
    (r = Pending \<and> p \<or> r = Ready (Err Interrupted) \<longrightarrow> buf_out w' s' = buf_out w s)"
proof -
  obtain w' s' r where f: "buf_flush raw_write p w s = Some (w', s', r)" "buf_write_inv w'"
    "length (sk_script s') \<le> length (sk_script s)" "p \<longrightarrow> r \<noteq> Pending" "r \<noteq> Ready (Err Interrupted)"
    "r = Ready (Ok ()) \<longrightarrow> bw_pos w' = 0 \<and> bw_buf w' = bw_buf w \<and> sk_out s' = buf_out w s"
    "r \<noteq> Ready (Ok ()) \<longrightarrow> length (sk_script s') < length (sk_script s)"
    using buf_flush_returns [OF assms(1), of p s] by blast
  obtain s2 q where d: "raw_write s' bs = Some (s2, q)"
    using rawout.wr_total [OF TrueI assms(2)] by fastforce
  note d' = rawout.wr_inv [OF TrueI d] rawout.wr_data [OF TrueI, of s' bs s2] rawout.wr_wait [OF TrueI d]
    rawout.wr_retry [OF TrueI d]
  show ?thesis
  proof (cases "length (bw_buf w) \<le> length bs")
    case True
    with f d d' assms(2) show ?thesis
      by (cases r rule: poll.exhaust)
         (auto simp: write_buffered_def buf_out_def buf_write_inv_def split: sum.splits)
  next
    case False
    have direct: ?thesis if "length bs \<le> length (bw_buf w) - bw_pos w"
      using False that assms buf_store_out [of w bs s]
      by (auto simp: write_buffered_def buf_write_inv_def buf_store_def)
    have flushed: ?thesis if "length (bw_buf w) - bw_pos w < length bs"
      using False that assms f buf_store_out [of w' bs s']
      by (cases r rule: poll.exhaust)
         (auto simp: write_buffered_def buf_write_inv_def buf_out_def buf_store_def split: sum.splits)
    show ?thesis by (rule disjE [OF le_less_linear]) (fact direct, fact flushed)
  qed
qed

lemma stream_write_eq:
  "stream_write p s bs = Some (s', r) \<longleftrightarrow>
   (\<exists>w out. write_buffered raw_write p (bs_write s) (bs_out s) bs = Some (w, out, r) \<and>
            s' = s\<lparr>bs_write := w, bs_out := out\<rparr>)"
  by (auto simp: stream_write_def split: option.splits)

text \<open>Writing nothing touches the buffer only when the buffer is empty, and it never is.\<close>

lemma write_buffered_Nil:
  "buf_write_inv w \<Longrightarrow> write_buffered raw_write p w s [] = Some (w, s, Ready (Ok 0))"
  by (simp add: write_buffered_def buf_write_inv_def buf_store_def)

interpretation bufferedout: byte_sink "stream_write p" stream_out "\<lambda>s. length (sk_script (bs_out s))"
  stream_inv p for p
proof
  fix s bs
  assume inv: "stream_inv s"
  note wr = write_buffered_returns [of "bs_write s" bs p "bs_out s"]
  note nil = write_buffered_Nil [of "bs_write s" p "bs_out s"]
  note defs = stream_write_eq stream_inv_def stream_out_def
  show "bs \<noteq> [] \<Longrightarrow> stream_write p s bs \<noteq> None"
    using wr inv by (auto simp: stream_write_def stream_inv_def)
  fix s' r
  show "stream_write p s bs = Some (s', r) \<Longrightarrow>
      stream_inv s' \<and> length (sk_script (bs_out s')) \<le> length (sk_script (bs_out s))"
    using wr nil inv by (cases "bs = []") (auto simp: defs)
  show "stream_write p s bs = Some (s', r) \<Longrightarrow> \<nexists>k. r = Ready (Ok k) \<Longrightarrow>
      length (sk_script (bs_out s')) < length (sk_script (bs_out s))"
    using wr nil inv by (cases "bs = []") (auto simp: defs)
  show "stream_write p s bs = Some (s', r) \<Longrightarrow> r = Pending \<and> p \<or> r = Ready (Err Interrupted) \<Longrightarrow>
      stream_out s' = stream_out s"
    using wr nil inv by (cases "bs = []") (auto simp: defs)
  fix k
  show "stream_write p s bs = Some (s', Ready (Ok k)) \<Longrightarrow>
      k \<le> length bs \<and> stream_out s' = stream_out s @ take k bs \<and>
      (k = 0 \<and> bs \<noteq> [] \<longrightarrow> length (sk_script (bs_out s')) < length (sk_script (bs_out s)))"
    using wr nil inv by (cases "bs = []") (auto simp: defs)
qed

lemma buf_stream_new_inv:
  "buf_stream_new i out n = Return s \<Longrightarrow>
   stream_inv s \<and> stream_rest s = script_data i \<and> stream_out s = sk_out out \<and>
   bs_in s = i \<and> bs_out s = out"
  by (auto simp: buf_stream_new_def buf_read_new_def buf_write_new_def stream_inv_def buf_read_inv_def
      buf_write_inv_def stream_rest_def buf_read_rest_def stream_out_def buf_out_def
      split: if_splits outcome.splits)

lemma stream_flush_returns:
  assumes "stream_inv s"
  shows "\<exists>s' r. stream_flush p s = Some (s', r) \<and> stream_inv s' \<and> (p \<longrightarrow> r \<noteq> Pending) \<and>
    (r = Ready (Ok ()) \<longrightarrow> sk_out (bs_out s') = stream_out s \<and> stream_out s' = stream_out s)"
  using buf_flush_returns [of "bs_write s" p "bs_out s"] assms
  by (auto simp: stream_flush_def stream_inv_def stream_out_def buf_out_def)

section \<open>Properties\<close>

text \<open>
  C22: \<open>read_exact\<close> over the buffered stream always returns, whatever chunks, failures,
  interruptions and silences the socket produces (a finite script), and a successful call delivers
  exactly the next \<open>n\<close> bytes the peer sent: the buffer neither loses, duplicates nor reorders any,
  and what is left is the rest of the stream.
\<close>

theorem stream_read_exact:
  assumes "stream_inv s"
  shows "\<exists>s' r. read_exact stream_read p s n [] = Some (s', r) \<and> stream_inv s' \<and>
    (p \<longrightarrow> r \<noteq> Pending) \<and>
    (\<forall>bs. r = Ready (Ok bs) \<longrightarrow> length bs = n \<and> stream_rest s = bs @ stream_rest s')"
  using buffered.read_exact_returns [OF assms, of p n "[]"] by (auto simp: buffered.read_post_def)

theorem stream_read_exact_witness:
  "\<exists>s r. buf_stream_new [Data [1, 2], Rd_Fail Interrupted, Data [3]] \<lparr>sk_out = [], sk_script = []\<rparr> 2
     = Return s \<and> (\<exists>s'. read_exact stream_read True s 3 [] = Some (s', r)) \<and> r \<noteq> Pending"
proof -
  obtain s where s: "buf_stream_new [Data [1, 2], Rd_Fail Interrupted, Data [3]]
      \<lparr>sk_out = [], sk_script = []\<rparr> 2 = Return s"
    by (auto simp: buf_stream_new_def buf_read_new_def buf_write_new_def)
  with stream_read_exact [of s True 3] show ?thesis by (blast dest: buf_stream_new_inv)
qed

text \<open>
  C23: \<open>write_all\<close> over the buffered stream always returns, and when it succeeds exactly the given
  bytes were appended to what the stream has accepted (the socket's bytes followed by those still
  in the buffer); a successful \<open>flush\<close> after it puts all of them on the socket, in order.
\<close>

theorem stream_write_flush:
  assumes "stream_inv s"
  shows "\<exists>s' r. write_all (stream_write p) p s bs = Some (s', r) \<and> stream_inv s' \<and>
    (r = Ready (Ok ()) \<longrightarrow> stream_out s' = stream_out s @ bs \<and>
      (\<exists>s'' q. stream_flush p s' = Some (s'', q) \<and> stream_inv s'' \<and>
        (q = Ready (Ok ()) \<longrightarrow> sk_out (bs_out s'') = stream_out s @ bs)))"
proof -
  obtain s' r where *: "write_all (stream_write p) p s bs = Some (s', r)"
    "bufferedout.write_post p s bs s' r"
    using bufferedout.write_all_returns [OF assms] by blast
  then have "stream_inv s'" "r = Ready (Ok ()) \<longrightarrow> stream_out s' = stream_out s @ bs"
    by (auto simp: bufferedout.write_post_def)
  with * stream_flush_returns [of s' p] show ?thesis by auto
qed

theorem stream_write_flush_witness:
  "\<exists>s s' r. buf_stream_new [] \<lparr>sk_out = [], sk_script = [Accept 1, Wr_Fail Interrupted]\<rparr> 2 = Return s \<and>
     write_all (stream_write True) True s [1, 2, 3] = Some (s', r)"
proof -
  obtain s where s: "buf_stream_new [] \<lparr>sk_out = [], sk_script = [Accept 1, Wr_Fail Interrupted]\<rparr> 2 = Return s"
    by (auto simp: buf_stream_new_def buf_read_new_def buf_write_new_def)
  with stream_write_flush [of s True "[1, 2, 3]"] show ?thesis by (blast dest: buf_stream_new_inv)
qed

end
