(* ===== verification/Rpc_Alloc_Buf.thy ===== *)
theory Rpc_Alloc_Buf
  imports Rpc_Prelude
begin

text \<open>
  \<open>AllocateBuf\<close>, \<open>core/src/io/buffer.rs\<close>: making room for a blob of the announced length in the
  four buffer types a task may use. A buffer is its length and its capacity; the bytes do not
  influence these operations. The slice that \<open>reserve\<close> returns covers the length of the buffer,
  so memory safety is that the length never exceeds the capacity.
\<close>

record rvec =
  rlen :: nat
  rcap :: nat

definition vec_wf :: "rvec \<Rightarrow> bool" where
  "vec_wf v \<longleftrightarrow> rlen v \<le> rcap v"

text \<open>\<open>blob_len as usize\<close> sign-extends the \<open>i32\<close> to 64 bits.\<close>

definition i32_as_usize :: "i32 \<Rightarrow> nat" where
  "i32_as_usize n = unat (scast n :: 64 word)"

text \<open>
  \<open>Vec::reserve(additional)\<close> of the standard library: room for \<open>additional\<close> elements beyond the
  \<^emph>\<open>length\<close>; it does nothing when the capacity is sufficient, and may otherwise allocate more than
  asked, which the parameter \<open>grow\<close> decides from the old capacity and the required one. A
  capacity beyond \<open>isize::MAX\<close> panics.
\<close>

definition vec_reserve :: "(nat \<Rightarrow> nat \<Rightarrow> nat) \<Rightarrow> nat \<Rightarrow> rvec \<Rightarrow> rvec outcome" where
  "vec_reserve grow additional v =
     (if additional \<le> rcap v - rlen v then Return v
      else if 2 ^ 63 \<le> rlen v + additional then Panic
      else Return (v\<lparr>rcap := grow (rcap v) (rlen v + additional)\<rparr>))"

definition grow_ok :: "(nat \<Rightarrow> nat \<Rightarrow> nat) \<Rightarrow> bool" where
  "grow_ok grow \<longleftrightarrow> (\<forall>c n. n \<le> grow c n)"

definition vec_with_capacity :: "nat \<Rightarrow> rvec" where
  "vec_with_capacity n = \<lparr>rlen = 0, rcap = n\<rparr>"

text \<open>\<open>impl AllocateBuf for Vec<u8>\<close>.\<close>

definition reserve_vec :: "(nat \<Rightarrow> nat \<Rightarrow> nat) \<Rightarrow> rvec \<Rightarrow> i32 \<Rightarrow> rvec outcome" where
  "reserve_vec grow v blob_len =
     (let n = i32_as_usize blob_len in
      if rlen v \<noteq> n then
        (case (if rcap v < n then vec_reserve grow (n - rcap v) v else Return v) of
           Panic \<Rightarrow> Panic
         | Return v' \<Rightarrow> Return (v'\<lparr>rlen := n\<rparr>))
      else Return v)"

text \<open>\<open>impl AllocateBuf for Option<Vec<u8>>\<close>.\<close>

definition reserve_opt_vec :: "(nat \<Rightarrow> nat \<Rightarrow> nat) \<Rightarrow> rvec option \<Rightarrow> i32 \<Rightarrow> rvec outcome" where
  "reserve_opt_vec grow self blob_len =
     (let n = i32_as_usize blob_len in
      case self of
        Some buf \<Rightarrow>
          (if rlen buf \<noteq> n then
             (case (if rcap buf < n then vec_reserve grow (n - rcap buf) buf else Return buf) of
                Panic \<Rightarrow> Panic
              | Return v \<Rightarrow> Return (v\<lparr>rlen := n\<rparr>))
           else Return buf)
      | None \<Rightarrow> Return ((vec_with_capacity n)\<lparr>rlen := n\<rparr>))"

text \<open>
  \<open>impl AllocateBuf for io_buffer::Buffer\<close> and for \<open>Option\<close> of it. \<open>None\<close> is the refusal the
  trait documents; \<open>Buffer::alloc\<close> of the \<open>io_buffer\<close> crate is the parameter \<open>alloc\<close>.
\<close>

definition reserve_buffer :: "rvec \<Rightarrow> i32 \<Rightarrow> rvec option" where
  "reserve_buffer self blob_len =
     (let n = i32_as_usize blob_len in
      if rlen self \<noteq> n then
        (if rcap self < n then None else Some (self\<lparr>rlen := n\<rparr>))
      else Some self)"

definition reserve_opt_buffer :: "(i32 \<Rightarrow> rvec option) \<Rightarrow> rvec option \<Rightarrow> i32 \<Rightarrow> rvec option" where
  "reserve_opt_buffer alloc self blob_len =
     (case self of
        Some buf \<Rightarrow>
          (let n = i32_as_usize blob_len in
           if rlen buf \<noteq> n then
             (if rcap buf < n then None else Some (buf\<lparr>rlen := n\<rparr>))
           else Some buf)
      | None \<Rightarrow> alloc blob_len)"

section \<open>Properties\<close>

lemma reserve_opt_vec_Some: "reserve_opt_vec grow (Some v) n = reserve_vec grow v n"
  by (simp add: reserve_opt_vec_def reserve_vec_def)

lemma reserve_vec_full:
  assumes "grow_ok grow" "vec_wf v" "rlen v = rcap v \<or> i32_as_usize n \<le> rcap v"
    and "i32_as_usize n < 2 ^ 63"
  shows "\<exists>v'. reserve_vec grow v n = Return v' \<and> rlen v' = i32_as_usize n \<and> vec_wf v'"
  using assms
  by (auto simp: reserve_vec_def vec_reserve_def vec_wf_def grow_ok_def Let_def split: if_splits)

text \<open>
  With a \<open>Vec<u8>\<close> or \<open>Option<Vec<u8>>\<close> that is absent, full, or already large enough, making
  room for a blob succeeds, gives a slice of exactly the announced length and stays within the
  allocation, for every growth policy the standard library may use.
\<close>

theorem reserve_opt_vec_fits:
  assumes "grow_ok grow" and "i32_as_usize n < 2 ^ 63"
    and "\<forall>v. self = Some v \<longrightarrow> vec_wf v \<and> (rlen v = rcap v \<or> i32_as_usize n \<le> rcap v)"
  shows "\<exists>v'. reserve_opt_vec grow self n = Return v' \<and> rlen v' = i32_as_usize n \<and> vec_wf v'"
proof (cases self)
  case None
  then show ?thesis by (simp add: reserve_opt_vec_def vec_with_capacity_def vec_wf_def Let_def)
next
  case (Some v)
  with assms show ?thesis
    by (simp add: reserve_opt_vec_Some reserve_vec_full)
qed

theorem reserve_opt_vec_fits_witness:
  "\<exists>v'. reserve_opt_vec max (Some \<lparr>rlen = 4, rcap = 4\<rparr>) 9 = Return v' \<and> rlen v' = 9 \<and> vec_wf v'"
proof -
  have n: "i32_as_usize 9 = 9" by (simp add: i32_as_usize_def)
  have "grow_ok max" by (simp add: grow_ok_def)
  from reserve_opt_vec_fits [OF this, of 9 "Some \<lparr>rlen = 4, rcap = 4\<rparr>"] n
  show ?thesis by (simp add: vec_wf_def)
qed



text \<open>
  A pre-allocated \<open>io_buffer::Buffer\<close> is accepted exactly when the blob fits its capacity or
  its length is already the blob's, and then the slice has the announced length and stays within
  the allocation; otherwise the request is refused and nothing is written.
\<close>

theorem reserve_buffer_exact:
  assumes "vec_wf b"
  shows "(reserve_buffer b n = None \<longleftrightarrow> rcap b < i32_as_usize n) \<and>
    (\<forall>b'. reserve_buffer b n = Some b' \<longrightarrow>
       rlen b' = i32_as_usize n \<and> rcap b' = rcap b \<and> vec_wf b')"
  using assms by (auto simp: reserve_buffer_def vec_wf_def Let_def split: if_splits)

theorem reserve_buffer_exact_witness:
  "reserve_buffer \<lparr>rlen = 0, rcap = 8\<rparr> 9 = None"
proof -
  have "i32_as_usize 9 = 9" by (simp add: i32_as_usize_def)
  then show ?thesis
    using reserve_buffer_exact [of "\<lparr>rlen = 0, rcap = 8\<rparr>" 9] by (simp add: vec_wf_def)
qed

end
