(* ===== verification/Rpc_Error.thy ===== *)
theory Rpc_Error
  imports Rpc_Prelude "HOL-Library.Sublist"
begin

text \<open>
  The error types of the framework, \<open>core/src/error.rs\<close>: the internal errors \<open>RpcIntErr\<close> with
  their order and their reserved names, the transport form \<open>EncodedErr\<close>, the user-facing
  \<open>RpcError<E>\<close>, and the \<open>RpcErrCodec\<close> implementations for the built-in error types.
\<close>

section \<open>RpcIntErr\<close>

datatype rpc_int_err =
  Unreachable | IO | Timeout | Method | Service | Encode | Decode | Internal | Version

fun int_err_repr :: "rpc_int_err \<Rightarrow> nat" where
  "int_err_repr Unreachable = 0"
| "int_err_repr IO = 1"
| "int_err_repr Timeout = 2"
| "int_err_repr Method = 3"
| "int_err_repr Service = 4"
| "int_err_repr Encode = 5"
| "int_err_repr Decode = 6"
| "int_err_repr Internal = 7"
| "int_err_repr Version = 8"

lemma int_err_repr_inj [simp]: "int_err_repr a = int_err_repr b \<longleftrightarrow> a = b"
  by (cases a; cases b; simp)

text \<open>The derived \<open>PartialOrd\<close> compares discriminants.\<close>

instantiation rpc_int_err :: linorder
begin

definition less_eq_rpc_int_err :: "rpc_int_err \<Rightarrow> rpc_int_err \<Rightarrow> bool" where
  "less_eq_rpc_int_err a b \<longleftrightarrow> int_err_repr a \<le> int_err_repr b"

definition less_rpc_int_err :: "rpc_int_err \<Rightarrow> rpc_int_err \<Rightarrow> bool" where
  "less_rpc_int_err a b \<longleftrightarrow> int_err_repr a < int_err_repr b"

instance
  by standard (auto simp: less_eq_rpc_int_err_def less_rpc_int_err_def)

end

definition RPC_ERR_PREFIX :: rust_str where
  "RPC_ERR_PREFIX = str ''rpc_''"

fun int_err_as_ref :: "rpc_int_err \<Rightarrow> rust_str" where
  "int_err_as_ref Unreachable = str ''rpc_unreachable''"
| "int_err_as_ref IO = str ''rpc_io_err''"
| "int_err_as_ref Timeout = str ''rpc_timeout''"
| "int_err_as_ref Method = str ''rpc_method_notfound''"
| "int_err_as_ref Service = str ''rpc_service_notfound''"
| "int_err_as_ref Encode = str ''rpc_encode''"
| "int_err_as_ref Decode = str ''rpc_decode''"
| "int_err_as_ref Internal = str ''rpc_internal_err''"
| "int_err_as_ref Version = str ''rpc_invalid_ver''"

definition int_err_as_bytes :: "rpc_int_err \<Rightarrow> bytes" where
  "int_err_as_bytes e = int_err_as_ref e"

definition all_int_errs :: "rpc_int_err list" where
  "all_int_errs =
     [Unreachable, IO, Timeout, Method, Service, Encode, Decode, Internal, Version]"

text \<open>The derived \<open>FromStr\<close> matches the serialized names exactly.\<close>

definition int_err_from_str :: "rust_str \<Rightarrow> rpc_int_err option" where
  "int_err_from_str s = find (\<lambda>e. int_err_as_ref e = s) all_int_errs"

definition int_err_from_io :: "'io_error \<Rightarrow> rpc_int_err" where
  "int_err_from_io e = IO"

lemma int_err_as_ref_inj [simp]: "int_err_as_ref a = int_err_as_ref b \<longleftrightarrow> a = b"
  by (cases a; cases b; simp add: str_def)

lemma int_err_from_str_as_ref [simp]: "int_err_from_str (int_err_as_ref e) = Some e"
  by (cases e) (simp_all add: int_err_from_str_def all_int_errs_def str_def)

lemma int_err_from_str_Some: "int_err_from_str s = Some e \<longleftrightarrow> s = int_err_as_ref e"
proof
  assume "int_err_from_str s = Some e"
  then show "s = int_err_as_ref e"
    unfolding int_err_from_str_def by (auto simp: find_Some_iff)
qed simp

lemma int_err_prefix [simp]: "prefix RPC_ERR_PREFIX (int_err_as_bytes e)"
  by (cases e) (simp_all add: RPC_ERR_PREFIX_def int_err_as_bytes_def str_def)

lemma int_err_utf8 [simp]: "utf8_valid (int_err_as_bytes e)"
  by (rule utf8_valid_ascii, cases e) (simp_all add: int_err_as_bytes_def str_def)

lemma int_err_as_bytes_nonempty [simp]: "int_err_as_bytes e \<noteq> []"
  by (cases e) (simp_all add: int_err_as_bytes_def str_def)

lemma int_err_as_bytes_short: "length (int_err_as_bytes e) \<le> 20"
  by (cases e) (simp_all add: int_err_as_bytes_def str_def)

section \<open>EncodedErr\<close>

datatype encoded_err =
  Enc_Rpc rpc_int_err | Enc_Num u32 | Enc_Static rust_str | Enc_Buf bytes

definition encoded_err_from_int :: "rpc_int_err \<Rightarrow> encoded_err" where
  "encoded_err_from_int e = Enc_Rpc e"

fun try_as_str :: "encoded_err \<Rightarrow> rust_str option" where
  "try_as_str (Enc_Static s) = Some s"
| "try_as_str (Enc_Buf b) = from_utf8 b"
| "try_as_str _ = None"

fun encoded_err_eq :: "encoded_err \<Rightarrow> encoded_err \<Rightarrow> bool" where
  "encoded_err_eq (Enc_Rpc e) other = (case other of Enc_Rpc q \<Rightarrow> e = q | _ \<Rightarrow> False)"
| "encoded_err_eq (Enc_Num e) other = (case other of Enc_Num q \<Rightarrow> e = q | _ \<Rightarrow> False)"
| "encoded_err_eq (Enc_Static s) other =
     (case try_as_str other of Some q \<Rightarrow> s = q | None \<Rightarrow> False)"
| "encoded_err_eq (Enc_Buf s) other =
     (case other of
        Enc_Buf q \<Rightarrow> s = q
      | _ \<Rightarrow> (case try_as_str other of
                Some q \<Rightarrow> (case from_utf8 s of Some t \<Rightarrow> t = q | None \<Rightarrow> False)
              | None \<Rightarrow> False))"

text \<open>A \<open>&'static str\<close> is valid UTF-8.\<close>

fun encoded_err_wf :: "encoded_err \<Rightarrow> bool" where
  "encoded_err_wf (Enc_Static s) = utf8_valid s"
| "encoded_err_wf _ = True"

section \<open>RpcError\<close>

datatype 'e rpc_error = Rpc_User 'e | Rpc_Int rpc_int_err

definition rpc_error_from_user :: "'e \<Rightarrow> 'e rpc_error" where
  "rpc_error_from_user e = Rpc_User e"

definition rpc_error_from_int :: "rpc_int_err \<Rightarrow> 'e rpc_error" where
  "rpc_error_from_int e = Rpc_Int e"

text \<open>The three \<open>PartialEq\<close> implementations, against an internal error, a user error, and itself.\<close>

fun rpc_error_eq_int :: "'e rpc_error \<Rightarrow> rpc_int_err \<Rightarrow> bool" where
  "rpc_error_eq_int (Rpc_Int r) q = (r = q)"
| "rpc_error_eq_int (Rpc_User r) q = False"

fun rpc_error_eq_user :: "('e \<Rightarrow> 'e \<Rightarrow> bool) \<Rightarrow> 'e rpc_error \<Rightarrow> 'e \<Rightarrow> bool" where
  "rpc_error_eq_user eq (Rpc_User r) q = eq r q"
| "rpc_error_eq_user eq (Rpc_Int r) q = False"

fun rpc_error_eq :: "('e \<Rightarrow> 'e \<Rightarrow> bool) \<Rightarrow> 'e rpc_error \<Rightarrow> 'e rpc_error \<Rightarrow> bool" where
  "rpc_error_eq eq (Rpc_Int r) q = (case q of Rpc_Int p \<Rightarrow> r = p | _ \<Rightarrow> False)"
| "rpc_error_eq eq (Rpc_User r) q = (case q of Rpc_User p \<Rightarrow> eq r p | _ \<Rightarrow> False)"

section \<open>RpcErrCodec\<close>

text \<open>
  The argument of \<open>RpcErrCodec::decode\<close> is \<open>Result<u32, &[u8]>\<close>: a number, or the bytes of the
  error. An implementation is the pair of its two functions.
\<close>

type_synonym err_wire = "(u32, bytes) result"

record 'e rpc_err_codec =
  err_encode :: "'e \<Rightarrow> encoded_err"
  err_decode :: "err_wire \<Rightarrow> 'e option"

text \<open>
  \<open>impl_rpc_error_for_num!\<close>. The bound of \<open>decode\<close> is the expression \<open>$t::max as u32\<close>: \<open>max\<close> in
  lower case names the function \<open>Ord::max\<close>, so the bound is the address of that function, cast to
  32 bits. The address is chosen by the linker and the loader, and is the parameter \<open>max_addr\<close>.
\<close>

definition num_encode_signed :: "'a::len word \<Rightarrow> encoded_err" where
  "num_encode_signed x = Enc_Num (scast x)"

definition num_encode_unsigned :: "'a::len word \<Rightarrow> encoded_err" where
  "num_encode_unsigned x = Enc_Num (ucast x)"

definition num_decode :: "u32 \<Rightarrow> err_wire \<Rightarrow> 'a::len word option" where
  "num_decode max_addr buf =
     (case buf of Inr i \<Rightarrow> (if i \<le> max_addr then Some (ucast i) else None) | Inl _ \<Rightarrow> None)"

definition codec_signed :: "u32 \<Rightarrow> 'a::len word rpc_err_codec" where
  "codec_signed max_addr = \<lparr>err_encode = num_encode_signed, err_decode = num_decode max_addr\<rparr>"

definition codec_unsigned :: "u32 \<Rightarrow> 'a::len word rpc_err_codec" where
  "codec_unsigned max_addr = \<lparr>err_encode = num_encode_unsigned, err_decode = num_decode max_addr\<rparr>"

text \<open>
  \<open>nix::errno::Errno\<close>: the numbers of the variants and \<open>Errno::from_raw\<close> are those of the
  \<open>nix\<close> crate and are parameters; \<open>i32::max as u32\<close> is again an address.
\<close>

definition codec_errno :: "u32 \<Rightarrow> ('errno \<Rightarrow> i32) \<Rightarrow> (i32 \<Rightarrow> 'errno) \<Rightarrow> 'errno rpc_err_codec" where
  "codec_errno max_addr as_i32 from_raw =
     \<lparr>err_encode = (\<lambda>e. Enc_Num (as_i32 e)),
      err_decode = (\<lambda>buf. case buf of
          Inr i \<Rightarrow> (if i \<le> max_addr then Some (from_raw i) else None) | Inl _ \<Rightarrow> None)\<rparr>"

definition codec_unit :: "unit rpc_err_codec" where
  "codec_unit =
     \<lparr>err_encode = (\<lambda>_. Enc_Num 0),
      err_decode = (\<lambda>buf. case buf of Inr i \<Rightarrow> (if i = 0 then Some () else None) | Inl _ \<Rightarrow> None)\<rparr>"

definition codec_string :: "rust_str rpc_err_codec" where
  "codec_string =
     \<lparr>err_encode = (\<lambda>s. Enc_Buf s),
      err_decode = (\<lambda>buf. case buf of Inl s \<Rightarrow> from_utf8 s | Inr _ \<Rightarrow> None)\<rparr>"

text \<open>How the transport hands an encoded error to \<open>decode\<close>: as its number or as its bytes.\<close>

fun err_wire_of :: "encoded_err \<Rightarrow> err_wire" where
  "err_wire_of (Enc_Num n) = Inr n"
| "err_wire_of (Enc_Buf b) = Inl b"
| "err_wire_of (Enc_Static s) = Inl s"
| "err_wire_of (Enc_Rpc e) = Inl (int_err_as_bytes e)"

text \<open>
  The contract an error type has with the transport: on the errors it supports (\<open>ok\<close>), decoding
  what was encoded gives the error back, and the encoded form is one of the two forms that the
  client side keeps apart from internal errors.
\<close>

locale err_codec =
  fixes c :: "'e rpc_err_codec" and ok :: "'e \<Rightarrow> bool"
  assumes decode_encode: "ok e \<Longrightarrow> err_decode c (err_wire_of (err_encode c e)) = Some e"
    and encode_form: "ok e \<Longrightarrow>
      (\<exists>n. err_encode c e = Enc_Num n) \<or>
      (\<exists>b. err_encode c e = Enc_Buf b \<and> int_err_from_str b = None)"
begin

lemma encode_inj: "ok a \<Longrightarrow> ok b \<Longrightarrow> err_encode c a = err_encode c b \<Longrightarrow> a = b"
  by (metis decode_encode option.inject)

lemma encode_not_internal: "ok e \<Longrightarrow> err_encode c e \<noteq> Enc_Rpc i"
  using encode_form [of e] by auto

end

lemma ucast_scast_up: "LENGTH('a::len) \<le> 32 \<Longrightarrow> ucast (scast (x :: 'a word) :: 32 word) = x"
proof (rule bit_word_eqI)
  fix n
  assume "LENGTH('a) \<le> 32" and n: "n < LENGTH('a)"
  moreover have "LENGTH('a) - Suc 0 \<le> n \<Longrightarrow> n = LENGTH('a) - Suc 0" using n by arith
  ultimately show "bit (ucast (scast x :: 32 word) :: 'a word) n = bit x n"
    by (auto simp: bit_simps not_le min_def)
qed

lemma ucast_ucast_up: "LENGTH('a::len) \<le> 32 \<Longrightarrow> ucast (ucast (x :: 'a word) :: 32 word) = x"
  by (rule bit_word_eqI) (auto simp: bit_simps)

lemma codec_signed_roundtrip:
  assumes "LENGTH('a::len) \<le> 32"
  shows "err_decode (codec_signed a) (err_wire_of (err_encode (codec_signed a) (x :: 'a word))) =
     (if scast x \<le> a then Some x else None)"
  using assms by (simp add: codec_signed_def num_decode_def num_encode_signed_def ucast_scast_up)

lemma codec_unsigned_roundtrip:
  assumes "LENGTH('a::len) \<le> 32"
  shows "err_decode (codec_unsigned a) (err_wire_of (err_encode (codec_unsigned a) (x :: 'a word))) =
     (if ucast x \<le> a then Some x else None)"
  using assms
  by (simp add: codec_unsigned_def num_decode_def num_encode_unsigned_def ucast_ucast_up)

interpretation unit_err: err_codec codec_unit "\<lambda>_. True"
  by unfold_locales (simp_all add: codec_unit_def)

interpretation string_err: err_codec codec_string
  "\<lambda>s. utf8_valid s \<and> int_err_from_str s = None"
  by unfold_locales (auto simp: codec_string_def)

interpretation i32_err: err_codec "codec_signed a :: 32 word rpc_err_codec"
  "\<lambda>x. scast x \<le> a" for a
  by unfold_locales (simp_all add: codec_signed_roundtrip, simp add: codec_signed_def num_encode_signed_def)

interpretation u32_err: err_codec "codec_unsigned a :: 32 word rpc_err_codec"
  "\<lambda>x. ucast x \<le> a" for a
  by unfold_locales
    (simp_all add: codec_unsigned_roundtrip, simp add: codec_unsigned_def num_encode_unsigned_def)

section \<open>Properties\<close>

text \<open>
  The meaning of an encoded error for comparison: strings and byte buffers are compared by their
  bytes, whichever of the two variants carries them.
\<close>

fun encoded_err_view :: "encoded_err \<Rightarrow> rpc_int_err + (u32 + bytes)" where
  "encoded_err_view (Enc_Rpc e) = Inl e"
| "encoded_err_view (Enc_Num n) = Inr (Inl n)"
| "encoded_err_view (Enc_Static s) = Inr (Inr s)"
| "encoded_err_view (Enc_Buf b) = Inr (Inr b)"

text \<open>
  The hand-written \<open>PartialEq\<close> of \<open>EncodedErr\<close> is equality of what the two errors denote,
  with static strings and byte buffers identified, hence an equivalence relation.
\<close>

theorem encoded_err_eq_iff_view:
  assumes "encoded_err_wf a" and "encoded_err_wf b"
  shows "encoded_err_eq a b \<longleftrightarrow> encoded_err_view a = encoded_err_view b"
  using assms by (cases a; cases b) (auto simp: from_utf8_def)

theorem encoded_err_eq_iff_view_witness:
  "encoded_err_eq (Enc_Static (str ''busy'')) (Enc_Buf (str ''busy''))"
proof -
  have "encoded_err_wf (Enc_Static (str ''busy''))" and "encoded_err_wf (Enc_Buf (str ''busy''))"
    by (simp_all add: str_def)
  from encoded_err_eq_iff_view [OF this] show ?thesis by simp
qed

text \<open>
  The names of the internal errors parse back to the error and nothing else parses, every
  name is valid UTF-8 and carries the reserved prefix, so the client recognises exactly the
  internal errors; and the variants below \<open>Method\<close>, which the failover pool retries, are
  \<open>Unreachable\<close>, \<open>IO\<close> and \<open>Timeout\<close>.
\<close>

theorem int_err_names:
  "(int_err_from_str s = Some e \<longleftrightarrow> s = int_err_as_bytes e) \<and>
   prefix RPC_ERR_PREFIX (int_err_as_bytes e) \<and> utf8_valid (int_err_as_bytes e) \<and>
   (e < Method \<longleftrightarrow> e \<in> {Unreachable, IO, Timeout})"
  by (cases e) (simp_all add: int_err_from_str_Some int_err_as_bytes_def less_rpc_int_err_def
      int_err_prefix [unfolded int_err_as_bytes_def] int_err_utf8 [unfolded int_err_as_bytes_def]
      del: int_err_as_ref.simps)

text \<open>
  C37: a numeric user error survives the wire exactly when its 32-bit image does not exceed the
  address of \<open>Ord::max\<close> that the comparison in \<open>decode\<close> uses in place of the type's maximum;
  otherwise the client reports a decode failure.
\<close>

theorem num_err_roundtrip:
  "err_decode (codec_signed a) (err_wire_of (err_encode (codec_signed a) (x :: 8 word))) =
     (if scast x \<le> a then Some x else None) \<and>
   err_decode (codec_signed a) (err_wire_of (err_encode (codec_signed a) (y :: 32 word))) =
     (if y \<le> a then Some y else None) \<and>
   err_decode (codec_unsigned a) (err_wire_of (err_encode (codec_unsigned a) (z :: 32 word))) =
     (if z \<le> a then Some z else None)"
  by (simp_all add: codec_signed_roundtrip codec_unsigned_roundtrip)

end
