(* ===== verification/Rpc_Task.thy ===== *)
theory Rpc_Task
  imports Rpc_Alloc_Buf Rpc_Error
begin

text \<open>
  The traits a request and a response cross the framework with, as dictionaries of their methods:
  \<open>RpcAction\<close> of \<open>stream/src/proto.rs\<close>, the client task traits of \<open>stream/src/client/task.rs\<close>
  and the encoding trait of \<open>stream/src/server/task.rs\<close>. What the framework relies on is the
  locale \<open>client_task\<close>; the codec and the growth policy of \<open>Vec\<close> are parameters of the
  implementations.
\<close>

section \<open>RpcAction\<close>

datatype rpc_action = Act_Str rust_str | Act_Num i32

fun action_to_owned :: "rpc_action \<Rightarrow> rpc_action" where
  "action_to_owned (Act_Str s) = Act_Str s"
| "action_to_owned (Act_Num n) = Act_Num n"

fun owned_to_action :: "rpc_action \<Rightarrow> rpc_action" where
  "owned_to_action (Act_Str s) = Act_Str s"
| "owned_to_action (Act_Num n) = Act_Num n"

lemma action_owned [simp]: "action_to_owned a = a" "owned_to_action a = a"
  by (cases a; simp)+

section \<open>The client task\<close>

text \<open>
  \<open>ClientTask\<close> sums up the traits below and dereferences to \<open>ClientTaskCommon\<close>, which holds the
  sequence number. \<open>encode_req\<close> appends to the buffer and returns the number of bytes;
  \<open>reserve_resp_blob\<close> hands out a slice of the task, of which the length is returned here, and
  \<open>ct_fill_resp_blob\<close> is the reading through that slice.
\<close>

record client_task_common =
  cm_seq :: u64

definition common_seq :: "client_task_common \<Rightarrow> u64" where
  "common_seq c = cm_seq c"

definition common_set_seq :: "u64 \<Rightarrow> client_task_common \<Rightarrow> client_task_common" where
  "common_set_seq s c = c\<lparr>cm_seq := s\<rparr>"

record ('c, 't) client_task_ops =
  ct_common :: "'t \<Rightarrow> client_task_common"
  ct_common_mut :: "(client_task_common \<Rightarrow> client_task_common) \<Rightarrow> 't \<Rightarrow> 't"
  ct_get_action :: "'t \<Rightarrow> rpc_action"
  ct_encode_req :: "'c \<Rightarrow> 't \<Rightarrow> bytes \<Rightarrow> bytes \<times> (nat, unit) result"
  ct_get_req_blob :: "'t \<Rightarrow> bytes option"
  ct_decode_resp :: "'c \<Rightarrow> 't \<Rightarrow> bytes \<Rightarrow> 't \<times> (unit, unit) result"
  ct_reserve_resp_blob :: "'t \<Rightarrow> i32 \<Rightarrow> 't \<times> nat option"
  ct_fill_resp_blob :: "bytes \<Rightarrow> 't \<Rightarrow> 't"
  ct_set_custom_error :: "'c \<Rightarrow> encoded_err \<Rightarrow> 't \<Rightarrow> 't"
  ct_set_rpc_error :: "rpc_int_err \<Rightarrow> 't \<Rightarrow> 't"
  ct_set_ok :: "'t \<Rightarrow> 't"

definition ct_seq :: "('c, 't) client_task_ops \<Rightarrow> 't \<Rightarrow> u64" where
  "ct_seq ct t = common_seq (ct_common ct t)"

definition ct_set_seq :: "('c, 't) client_task_ops \<Rightarrow> u64 \<Rightarrow> 't \<Rightarrow> 't" where
  "ct_set_seq ct s t = ct_common_mut ct (common_set_seq s) t"

text \<open>
  How a task leaves the framework: \<open>task.done()\<close>, or \<open>facts.error_handle(task)\<close>, which is
  \<open>done\<close> by default and the retry of the failover pool otherwise.
\<close>

datatype 't task_event = Done 't | Error_Handle 't

primrec event_task :: "'t task_event \<Rightarrow> 't" where
  "event_task (Done t) = t"
| "event_task (Error_Handle t) = t"

text \<open>\<open>ClientFacts::error_handle\<close>, the provided method.\<close>

definition default_error_handle :: "'t \<Rightarrow> 't task_event" where
  "default_error_handle t = Done t"

text \<open>
  What the framework relies on: the sequence number is only changed by \<open>set_seq\<close>, an encoded
  message (\<open>msg\<close>) is appended to the buffer and its size returned.
\<close>

locale client_task =
  fixes ct :: "('c, 't) client_task_ops" and msg :: "'c \<Rightarrow> 't \<Rightarrow> bytes"
  assumes common_mut: "ct_common ct (ct_common_mut ct f t) = f (ct_common ct t)"
    and action_mut: "ct_get_action ct (ct_common_mut ct f t) = ct_get_action ct t"
    and blob_mut: "ct_get_req_blob ct (ct_common_mut ct f t) = ct_get_req_blob ct t"
    and msg_mut: "msg c (ct_common_mut ct f t) = msg c t"
    and encode_req: "ct_encode_req ct c t buf = (buf', Ok n) \<Longrightarrow>
      buf' = buf @ msg c t \<and> n = length (msg c t)"
    and common_rpc_error: "ct_common ct (ct_set_rpc_error ct e t) = ct_common ct t"
    and common_custom_error: "ct_common ct (ct_set_custom_error ct c x t) = ct_common ct t"
    and common_ok: "ct_common ct (ct_set_ok ct t) = ct_common ct t"
    and common_decode: "ct_decode_resp ct c t bs = (t', r) \<Longrightarrow> ct_common ct t' = ct_common ct t"
    and common_reserve: "ct_reserve_resp_blob ct t k = (t', r') \<Longrightarrow> ct_common ct t' = ct_common ct t"
    and common_fill: "ct_common ct (ct_fill_resp_blob ct bs t) = ct_common ct t"
begin

lemma seq_set_seq [simp]: "ct_seq ct (ct_set_seq ct s t) = s"
  by (simp add: ct_seq_def ct_set_seq_def common_mut common_seq_def common_set_seq_def)

lemma seq_keep [simp]:
  "ct_seq ct (ct_set_rpc_error ct e t) = ct_seq ct t"
  "ct_seq ct (ct_set_custom_error ct c x t) = ct_seq ct t"
  "ct_seq ct (ct_set_ok ct t) = ct_seq ct t"
  "ct_seq ct (ct_fill_resp_blob ct bs t) = ct_seq ct t"
  by (simp_all add: ct_seq_def common_rpc_error common_custom_error common_ok common_fill)

end

text \<open>
  A view of a task that no operation of the framework changes, such as its sequence number after
  registration, or the channel its caller waits on: what identifies a task as the same one.
\<close>

definition task_view :: "('c, 't) client_task_ops \<Rightarrow> ('t \<Rightarrow> 'v) \<Rightarrow> bool" where
  "task_view ct f \<longleftrightarrow>
     (\<forall>e t. f (ct_set_rpc_error ct e t) = f t) \<and>
     (\<forall>c x t. f (ct_set_custom_error ct c x t) = f t) \<and>
     (\<forall>t. f (ct_set_ok ct t) = f t) \<and>
     (\<forall>bs t. f (ct_fill_resp_blob ct bs t) = f t) \<and>
     (\<forall>c t bs. f (fst (ct_decode_resp ct c t bs)) = f t) \<and>
     (\<forall>t k. f (fst (ct_reserve_resp_blob ct t k)) = f t)"

lemma task_viewD:
  assumes "task_view ct f"
  shows "f (ct_set_rpc_error ct e t) = f t" "f (ct_set_custom_error ct c x t) = f t"
    "f (ct_set_ok ct t) = f t" "f (ct_fill_resp_blob ct bs t) = f t"
    "ct_decode_resp ct c t bs = (t', r) \<Longrightarrow> f t' = f t"
    "ct_reserve_resp_blob ct t k = (t', q) \<Longrightarrow> f t' = f t"
  using assms unfolding task_view_def by (blast, blast, blast, blast, metis fst_conv, metis fst_conv)

context client_task
begin

lemma seq_view: "task_view ct (ct_seq ct)"
  using common_decode common_reserve
  by (simp add: task_view_def) (metis ct_seq_def prod.collapse)

end

section \<open>The server's response task\<close>

text \<open>
  \<open>ServerTaskEncode::encode_resp\<close> takes the task mutably, appends the message to the buffer and
  returns the sequence number with the message length and the blob, or an error. The provided
  implementations panic when the task has no result.
\<close>

type_synonym ('c, 'r) server_encode =
  "'c \<Rightarrow> 'r \<Rightarrow> bytes \<Rightarrow> (bytes \<times> 'r \<times> u64 \<times> (nat \<times> bytes option, encoded_err) result) outcome"

section \<open>Codec\<close>

text \<open>
  \<open>occams_rpc_core::Codec\<close> at one message type \<open>'m\<close>. The serialisation is that of a library and a
  parameter. \<open>encode_into\<close> appends to the buffer; when it fails, part of the message may have been
  written.
\<close>

record 'm codec =
  cd_encode :: "'m \<Rightarrow> (bytes, unit) result"
  cd_encode_into :: "'m \<Rightarrow> bytes \<Rightarrow> bytes \<times> (nat, unit) result"
  cd_decode :: "bytes \<Rightarrow> ('m, unit) result"

text \<open>
  \<open>MsgpCodec\<close> wraps three functions of \<open>rmp_serde\<close>: \<open>to_vec_named\<close>, \<open>write_named\<close> (what it
  writes, and whether it succeeds) and \<open>from_slice\<close>.
\<close>

record 'm rmp =
  to_vec_named :: "'m \<Rightarrow> bytes option"
  write_named :: "'m \<Rightarrow> bytes \<times> bool"
  from_slice :: "bytes \<Rightarrow> 'm option"

definition msgp_encode :: "'m rmp \<Rightarrow> 'm \<Rightarrow> (bytes, unit) result" where
  "msgp_encode r m = (case to_vec_named r m of Some buf \<Rightarrow> Ok buf | None \<Rightarrow> Err ())"

definition msgp_encode_into :: "'m rmp \<Rightarrow> 'm \<Rightarrow> bytes \<Rightarrow> bytes \<times> (nat, unit) result" where
  "msgp_encode_into r m buf =
     (let pre_len = length buf in
      case write_named r m of (w, success) \<Rightarrow>
        (let buf' = buf @ w in
         if \<not> success then (buf', Err ()) else (buf', Ok (length buf' - pre_len))))"

definition msgp_decode :: "'m rmp \<Rightarrow> bytes \<Rightarrow> ('m, unit) result" where
  "msgp_decode r buf = (case from_slice r buf of None \<Rightarrow> Err () | Some s \<Rightarrow> Ok s)"

definition msgp_codec :: "'m rmp \<Rightarrow> 'm codec" where
  "msgp_codec r =
     \<lparr>cd_encode = msgp_encode r, cd_encode_into = msgp_encode_into r, cd_decode = msgp_decode r\<rparr>"

text \<open>
  What \<open>rmp_serde\<close> documents for a message it supports: both writers succeed with the same bytes,
  and reading gives the message back.
\<close>

definition rmp_supports :: "'m rmp \<Rightarrow> 'm \<Rightarrow> bool" where
  "rmp_supports r m \<longleftrightarrow>
     (\<exists>bs. to_vec_named r m = Some bs \<and> write_named r m = (bs, True) \<and> from_slice r bs = Some m)"

locale message_codec =
  fixes cd :: "'m codec" and ok :: "'m \<Rightarrow> bool"
  assumes enc_dec: "ok m \<Longrightarrow> cd_encode cd m = Ok bs \<Longrightarrow> cd_decode cd bs = Ok m"
    and enc_total: "ok m \<Longrightarrow> \<exists>bs. cd_encode cd m = Ok bs"
    and enc_into: "ok m \<Longrightarrow> cd_encode cd m = Ok bs \<Longrightarrow> cd_encode_into cd m buf = (buf @ bs, Ok (length bs))"
    and into_appends: "\<exists>w. fst (cd_encode_into cd m buf) = buf @ w"
begin

lemma decode_encode: "ok m \<Longrightarrow> \<exists>bs. cd_encode cd m = Ok bs \<and> cd_decode cd bs = Ok m"
  using enc_total enc_dec by blast

lemma decode_encode_into:
  assumes "ok m" "cd_encode_into cd m buf = (buf', Ok n)"
  shows "\<exists>bs. buf' = buf @ bs \<and> n = length bs \<and> cd_decode cd bs = Ok m"
  using decode_encode [OF assms(1)] enc_into [OF assms(1)] assms(2) by fastforce

end

interpretation msgp: message_codec "msgp_codec r" "rmp_supports r" for r
  by unfold_locales
     (auto simp: rmp_supports_def msgp_codec_def msgp_encode_def msgp_encode_into_def msgp_decode_def
       Let_def split: option.splits prod.splits)

end
