(* ===== verification/Rpc_Client_Task.thy ===== *)
theory Rpc_Client_Task
  imports Rpc_Task
begin

text \<open>
  \<open>APIClientReq\<close> of \<open>src/client/task.rs\<close>, the task behind every call of a generated client: its request is
  encoded before it enters the transport, and its response is decoded by the caller.
\<close>

section \<open>APIClientReq\<close>

text \<open>\<open>noti\<close> is the channel the finished task is sent back on, named by a number here.\<close>

record api_client_req =
  ar_common :: client_task_common
  ar_req_msg :: "bytes option"
  ar_action :: rust_str
  ar_resp :: "bytes option"
  ar_res :: "(unit, encoded_err) result option"
  ar_noti :: "nat option"

definition api_encode_req :: "'c \<Rightarrow> api_client_req \<Rightarrow> bytes \<Rightarrow> bytes \<times> (nat, unit) result" where
  "api_encode_req codec t buf =
     (case ar_req_msg t of
        Some msg \<Rightarrow> (buf @ msg, Ok (length msg))
      | None \<Rightarrow> (buf, Ok 0))"

definition api_decode_resp ::
  "'c \<Rightarrow> api_client_req \<Rightarrow> bytes \<Rightarrow> api_client_req \<times> (unit, unit) result" where
  "api_decode_resp codec t buf =
     (if 0 < length buf then (t\<lparr>ar_resp := Some buf\<rparr>, Ok ()) else (t, Ok ()))"

definition api_set_custom_error :: "'c \<Rightarrow> encoded_err \<Rightarrow> api_client_req \<Rightarrow> api_client_req" where
  "api_set_custom_error codec e t = t\<lparr>ar_res := Some (Err e)\<rparr>"

definition api_set_rpc_error :: "rpc_int_err \<Rightarrow> api_client_req \<Rightarrow> api_client_req" where
  "api_set_rpc_error e t = t\<lparr>ar_res := Some (Err (encoded_err_from_int e))\<rparr>"

definition api_set_ok :: "api_client_req \<Rightarrow> api_client_req" where
  "api_set_ok t = t\<lparr>ar_res := Some (Ok ())\<rparr>"

text \<open>\<open>done\<close> takes the channel out of the task (a panic when it is gone) and sends the task on it.\<close>

definition api_done :: "api_client_req \<Rightarrow> (nat \<times> api_client_req) outcome" where
  "api_done t =
     (case ar_noti t of
        None \<Rightarrow> Panic
      | Some tx \<Rightarrow> Return (tx, t\<lparr>ar_noti := None\<rparr>))"

definition api_ops :: "('c, api_client_req) client_task_ops" where
  "api_ops =
     \<lparr>ct_common = ar_common,
      ct_common_mut = (\<lambda>f t. t\<lparr>ar_common := f (ar_common t)\<rparr>),
      ct_get_action = (\<lambda>t. Act_Str (ar_action t)),
      ct_encode_req = api_encode_req,
      ct_get_req_blob = (\<lambda>t. None),
      ct_decode_resp = api_decode_resp,
      ct_reserve_resp_blob = (\<lambda>t size. (t, None)),
      ct_fill_resp_blob = (\<lambda>bs t. t),
      ct_set_custom_error = api_set_custom_error,
      ct_set_rpc_error = api_set_rpc_error,
      ct_set_ok = api_set_ok\<rparr>"

definition api_msg :: "'c \<Rightarrow> api_client_req \<Rightarrow> bytes" where
  "api_msg codec t = (case ar_req_msg t of Some m \<Rightarrow> m | None \<Rightarrow> [])"

lemmas api_defs = api_ops_def api_encode_req_def api_decode_resp_def api_set_custom_error_def
  api_set_rpc_error_def api_set_ok_def api_msg_def

interpretation api: client_task api_ops api_msg
  by unfold_locales (auto simp: api_defs split: option.splits if_splits)

text \<open>A task with a given sequence number, for concrete instances.\<close>

definition sample_task :: "u64 \<Rightarrow> api_client_req" where
  "sample_task s = \<lparr>ar_common = \<lparr>cm_seq = s\<rparr>, ar_req_msg = Some [1, 2, 3], ar_action = str ''Svc.add'',
     ar_resp = None, ar_res = None, ar_noti = Some 0\<rparr>"

abbreviation uapi_ops :: "(unit, api_client_req) client_task_ops" where
  "uapi_ops \<equiv> api_ops"

lemma sample_task_seq [simp]: "ct_seq api_ops (sample_task s) = s"
  by (simp add: ct_seq_def api_defs common_seq_def sample_task_def)

end
