(* ===== verification/Rpc_Proto.thy ===== *)
theory Rpc_Proto
  imports Rpc_Client_Task
begin

text \<open>
  The wire protocol, \<open>stream/src/proto.rs\<close>: the packed little-endian headers of requests and
  responses, their encoders into the reused send buffer, and their decoders. The order of the
  fields is that of the structs.
\<close>

unbundle bit_operations_syntax

section \<open>Constants\<close>

definition PING_ACTION :: u32 where "PING_ACTION = 0"
definition RPC_MAGIC :: u16 where "RPC_MAGIC = 19749"
definition U32_HIGH_MASK :: u32 where "U32_HIGH_MASK = push_bit 31 1"
definition RESP_FLAG_HAS_ERRNO :: u8 where "RESP_FLAG_HAS_ERRNO = 1"
definition RESP_FLAG_HAS_ERR_STRING :: u8 where "RESP_FLAG_HAS_ERR_STRING = 2"
definition RPC_VERSION_1 :: u8 where "RPC_VERSION_1 = 1"

abbreviation u32_MAX :: nat where "u32_MAX \<equiv> 4294967295"
abbreviation i32_MAX :: nat where "i32_MAX \<equiv> 2147483647"

section \<open>Layouts\<close>

record req_head =
  rq_magic :: u16
  rq_ver :: u8
  rq_format :: u8
  rq_action :: u32
  rq_seq :: u64
  rq_client_id :: u64
  rq_msg_len :: u32
  rq_blob_len :: u32

definition RPC_REQ_HEADER_LEN :: nat where
  "RPC_REQ_HEADER_LEN = 2 + 1 + 1 + 4 + 8 + 8 + 4 + 4"

definition req_head_bytes :: "req_head \<Rightarrow> bytes" where
  "req_head_bytes h =
     le_bytes 2 (rq_magic h) @ [rq_ver h] @ [rq_format h] @ le_bytes 4 (rq_action h) @
     le_bytes 8 (rq_seq h) @ le_bytes 8 (rq_client_id h) @ le_bytes 4 (rq_msg_len h) @
     le_bytes 4 (rq_blob_len h)"

text \<open>A field of \<open>n\<close> bytes at offset \<open>i\<close>; \<open>ref_from_bytes\<close> fails when the size is wrong.\<close>

definition field :: "nat \<Rightarrow> nat \<Rightarrow> bytes \<Rightarrow> bytes" where
  "field i n bs = take n (drop i bs)"

definition req_head_ref :: "bytes \<Rightarrow> req_head option" where
  "req_head_ref bs =
     (if length bs = RPC_REQ_HEADER_LEN then
        Some \<lparr>rq_magic = le_word (field 0 2 bs), rq_ver = bs ! 2, rq_format = bs ! 3,
              rq_action = le_word (field 4 4 bs), rq_seq = le_word (field 8 8 bs),
              rq_client_id = le_word (field 16 8 bs), rq_msg_len = le_word (field 24 4 bs),
              rq_blob_len = le_word (field 28 4 bs)\<rparr>
      else None)"

record resp_head =
  rp_magic :: u16
  rp_ver :: u8
  rp_flag :: u8
  rp_msg_len :: u32
  rp_seq :: u64
  rp_blob_len :: i32

definition RPC_RESP_HEADER_LEN :: nat where
  "RPC_RESP_HEADER_LEN = 2 + 1 + 1 + 4 + 8 + 4"

definition resp_head_bytes :: "resp_head \<Rightarrow> bytes" where
  "resp_head_bytes h =
     le_bytes 2 (rp_magic h) @ [rp_ver h] @ [rp_flag h] @ le_bytes 4 (rp_msg_len h) @
     le_bytes 8 (rp_seq h) @ le_bytes 4 (rp_blob_len h)"

definition resp_head_ref :: "bytes \<Rightarrow> resp_head option" where
  "resp_head_ref bs =
     (if length bs = RPC_RESP_HEADER_LEN then
        Some \<lparr>rp_magic = le_word (field 0 2 bs), rp_ver = bs ! 2, rp_flag = bs ! 3,
              rp_msg_len = le_word (field 4 4 bs), rp_seq = le_word (field 8 8 bs),
              rp_blob_len = le_word (field 16 4 bs)\<rparr>
      else None)"

section \<open>Requests\<close>

text \<open>
  \<open>buf.set_len(n)\<close> on the reused buffer: the first bytes are what the buffer held before; bytes
  never written are shown as zero (the header is written over all of them).
\<close>

definition vec_set_len :: "nat \<Rightarrow> bytes \<Rightarrow> bytes" where
  "vec_set_len n buf = take n (buf @ replicate n 0)"

definition req_write_head ::
  "bytes \<Rightarrow> u64 \<Rightarrow> u32 \<Rightarrow> u64 \<Rightarrow> u32 \<Rightarrow> i32 \<Rightarrow> bytes" where
  "req_write_head buf client_id action seq msg_len blob_len =
     req_head_bytes
       \<lparr>rq_magic = RPC_MAGIC, rq_ver = RPC_VERSION_1, rq_format = 0, rq_action = action,
        rq_seq = seq, rq_client_id = client_id, rq_msg_len = msg_len, rq_blob_len = blob_len\<rparr>
     @ drop RPC_REQ_HEADER_LEN buf"

definition req_encode_ping :: "bytes \<Rightarrow> u64 \<Rightarrow> u64 \<Rightarrow> bytes" where
  "req_encode_ping buf client_id seq =
     req_write_head (vec_set_len RPC_REQ_HEADER_LEN buf) client_id PING_ACTION seq 0 0"

text \<open>The encoder returns the buffer together with its result, the blob to send after it.\<close>

definition req_encode ::
  "('c, 't) client_task_ops \<Rightarrow> 'c \<Rightarrow> bytes \<Rightarrow> u64 \<Rightarrow> 't \<Rightarrow> bytes \<times> (bytes option, unit) result" where
  "req_encode ct codec buf client_id task =
     (let buf = vec_set_len RPC_REQ_HEADER_LEN buf in
      case (case ct_get_action ct task of
              Act_Num num \<Rightarrow> (num, buf)
            | Act_Str s \<Rightarrow> (of_nat (length s) OR U32_HIGH_MASK, buf @ s)) of
        (action_flag, buf) \<Rightarrow>
          (case ct_encode_req ct codec task buf of
             (buf, Inl _) \<Rightarrow> (buf, Err ())
           | (buf, Inr msg_len) \<Rightarrow>
               (if u32_MAX < msg_len then (buf, Err ())
                else
                  (let blob = ct_get_req_blob ct task;
                       blob_len = (case blob of Some b \<Rightarrow> length b | None \<Rightarrow> 0) in
                   if i32_MAX < blob_len then (buf, Err ())
                   else (req_write_head buf client_id action_flag (ct_seq ct task) (of_nat msg_len)
                           (of_nat blob_len), Ok blob)))))"

definition req_decode_head :: "bytes \<Rightarrow> (req_head, rpc_int_err) result outcome" where
  "req_decode_head head_buf =
     (case req_head_ref head_buf of
        None \<Rightarrow> Panic
      | Some head \<Rightarrow>
          Return
            (if rq_magic head \<noteq> RPC_MAGIC then Err IO
             else if rq_ver head \<noteq> RPC_VERSION_1 then Err Version
             else Ok head))"

definition req_get_action :: "req_head \<Rightarrow> (i32, i32) result" where
  "req_get_action h =
     (if rq_action h AND U32_HIGH_MASK = 0 then Ok (rq_action h)
      else Err (rq_action h XOR U32_HIGH_MASK))"

section \<open>Responses\<close>

definition resp_write_head :: "bytes \<Rightarrow> u8 \<Rightarrow> u64 \<Rightarrow> u32 \<Rightarrow> i32 \<Rightarrow> bytes" where
  "resp_write_head buf flag seq msg_len blob_len =
     resp_head_bytes
       \<lparr>rp_magic = RPC_MAGIC, rp_ver = RPC_VERSION_1, rp_flag = flag, rp_msg_len = msg_len,
        rp_seq = seq, rp_blob_len = blob_len\<rparr>
     @ drop RPC_RESP_HEADER_LEN buf"

definition resp_write_err :: "bytes \<Rightarrow> u64 \<Rightarrow> bytes \<Rightarrow> bytes" where
  "resp_write_err buf seq s =
     resp_write_head buf RESP_FLAG_HAS_ERR_STRING seq 0 (of_nat (length s)) @ s"

fun resp_encode_error :: "bytes \<Rightarrow> u64 \<Rightarrow> encoded_err \<Rightarrow> bytes" where
  "resp_encode_error buf seq (Enc_Num n) = resp_write_head buf RESP_FLAG_HAS_ERRNO seq n 0"
| "resp_encode_error buf seq (Enc_Rpc s) = resp_write_err buf seq (int_err_as_bytes s)"
| "resp_encode_error buf seq (Enc_Buf s) = resp_write_err buf seq s"
| "resp_encode_error buf seq (Enc_Static s) = resp_write_err buf seq s"

definition resp_encode ::
  "('c, 'r) server_encode \<Rightarrow> 'c \<Rightarrow> bytes \<Rightarrow> 'r \<Rightarrow> (bytes \<times> 'r \<times> u64 \<times> bytes option) outcome" where
  "resp_encode enc codec buf task =
     (case enc codec task (vec_set_len RPC_RESP_HEADER_LEN buf) of
        Panic \<Rightarrow> Panic
      | Return (buf, task, seq, r) \<Rightarrow>
          Return
            (case r of
               Inr (msg_len, None) \<Rightarrow>
                 (if u32_MAX < msg_len then
                    (resp_encode_error buf seq (Enc_Rpc Encode), task, seq, None)
                  else (resp_write_head buf 0 seq (of_nat msg_len) 0, task, seq, None))
             | Inr (msg_len, Some blob) \<Rightarrow>
                 (if u32_MAX < msg_len then
                    (resp_encode_error buf seq (Enc_Rpc Encode), task, seq, None)
                  else if i32_MAX < length blob then
                    (resp_encode_error buf seq (Enc_Rpc Encode), task, seq, None)
                  else
                    (resp_write_head buf 0 seq (of_nat msg_len) (of_nat (length blob)), task, seq,
                     Some blob))
             | Inl e \<Rightarrow> (resp_encode_error buf seq e, task, seq, None)))"

definition resp_encode_internal :: "bytes \<Rightarrow> u64 \<Rightarrow> rpc_int_err option \<Rightarrow> bytes \<times> u64" where
  "resp_encode_internal buf seq err =
     (let buf = vec_set_len RPC_RESP_HEADER_LEN buf in
      case err of
        Some e \<Rightarrow> (resp_encode_error buf seq (encoded_err_from_int e), seq)
      | None \<Rightarrow> (resp_write_head buf 0 seq 0 0, seq))"

definition resp_decode_head :: "bytes \<Rightarrow> (resp_head, rpc_int_err) result outcome" where
  "resp_decode_head head_buf =
     (case resp_head_ref head_buf of
        None \<Rightarrow> Panic
      | Some head \<Rightarrow>
          Return
            (if rp_magic head \<noteq> RPC_MAGIC then Err IO
             else if rp_ver head \<noteq> RPC_VERSION_1 then Err Version
             else Ok head))"

section \<open>The headers round-trip\<close>

lemma req_header_len [simp]: "RPC_REQ_HEADER_LEN = 32"
  by (simp add: RPC_REQ_HEADER_LEN_def)

lemma resp_header_len [simp]: "RPC_RESP_HEADER_LEN = 20"
  by (simp add: RPC_RESP_HEADER_LEN_def)

lemma length_req_head_bytes [simp]: "length (req_head_bytes h) = 32"
  by (simp add: req_head_bytes_def)

lemma length_resp_head_bytes [simp]: "length (resp_head_bytes h) = 20"
  by (simp add: resp_head_bytes_def)

lemma length_vec_set_len [simp]: "length (vec_set_len n buf) = n"
  by (simp add: vec_set_len_def)

lemma field_skip: "length a \<le> i \<Longrightarrow> field i n (a @ b) = field (i - length a) n b"
  by (simp add: field_def)

lemma field_here: "n = length a \<Longrightarrow> field 0 n (a @ b) = a"
  by (simp add: field_def)

lemma field_whole: "n = length a \<Longrightarrow> field 0 n a = a"
  by (simp add: field_def)

lemma field_Cons: "0 < i \<Longrightarrow> field i n (x # b) = field (i - 1) n b"
  by (cases i) (simp_all add: field_def)

lemma req_head_ref_bytes [simp]: "req_head_ref (req_head_bytes h) = Some h"
  by (simp add: req_head_ref_def)
     (simp add: req_head_bytes_def field_skip field_here field_whole field_Cons nth_append)

lemma resp_head_ref_bytes [simp]: "resp_head_ref (resp_head_bytes h) = Some h"
  by (simp add: resp_head_ref_def)
     (simp add: resp_head_bytes_def field_skip field_here field_whole field_Cons nth_append)

text \<open>Every 20 or 32 bytes are the image of the header they are read as.\<close>

lemma field_chain: "i + n \<le> length bs \<Longrightarrow> field i n bs @ drop (i + n) bs = drop i bs"
  by (metis add.commute append_take_drop_id drop_drop field_def)

lemma field_first: "field 0 n bs @ drop n bs = bs"
  by (simp add: field_def)

lemma length_field: "i + n \<le> length bs \<Longrightarrow> length (field i n bs) = n"
  by (simp add: field_def)

lemma nth_chain: "i < length bs \<Longrightarrow> bs ! i # drop (Suc i) bs = drop i bs"
  by (rule Cons_nth_drop_Suc)

lemma req_head_bytes_ref:
  assumes "req_head_ref bs = Some h"
  shows "req_head_bytes h = bs"
proof -
  have len: "length bs = 32" using assms by (simp add: req_head_ref_def split: if_splits)
  note chain = field_first [of 2 bs] nth_chain [of 2 bs] nth_chain [of 3 bs] field_chain [of 4 4 bs]
    field_chain [of 8 8 bs] field_chain [of 16 8 bs] field_chain [of 24 4 bs] field_chain [of 28 4 bs]
  show ?thesis
    using assms len chain by (auto simp: req_head_ref_def req_head_bytes_def le_bytes_le_word length_field)
qed

lemma resp_head_bytes_ref:
  assumes "resp_head_ref bs = Some h"
  shows "resp_head_bytes h = bs"
proof -
  have len: "length bs = 20" using assms by (simp add: resp_head_ref_def split: if_splits)
  note chain = field_first [of 2 bs] nth_chain [of 2 bs] nth_chain [of 3 bs] field_chain [of 4 4 bs]
    field_chain [of 8 8 bs] field_chain [of 16 4 bs]
  show ?thesis
    using assms len chain by (auto simp: resp_head_ref_def resp_head_bytes_def le_bytes_le_word length_field)
qed

section \<open>The action field\<close>

definition action_flag :: "rpc_action \<Rightarrow> u32" where
  "action_flag a = (case a of Act_Num n \<Rightarrow> n | Act_Str s \<Rightarrow> of_nat (length s) OR U32_HIGH_MASK)"

fun action_bytes :: "rpc_action \<Rightarrow> bytes" where
  "action_bytes (Act_Num n) = []"
| "action_bytes (Act_Str s) = s"

text \<open>The actions the wire format can carry.\<close>

fun action_ok :: "rpc_action \<Rightarrow> bool" where
  "action_ok (Act_Num n) \<longleftrightarrow> \<not> bit n 31"
| "action_ok (Act_Str s) \<longleftrightarrow> length s < 2 ^ 31"

lemma high_mask_bit: "bit U32_HIGH_MASK n \<longleftrightarrow> n = 31"
  by (auto simp only: U32_HIGH_MASK_def bit_push_bit_iff bit_1_iff) auto

lemma high_mask_nonzero [simp]: "U32_HIGH_MASK \<noteq> 0"
  using high_mask_bit [of 31] by auto

lemma and_high_mask: "w AND U32_HIGH_MASK = 0 \<longleftrightarrow> \<not> bit w 31" for w :: u32
proof
  assume "w AND U32_HIGH_MASK = 0"
  then have "\<not> bit (w AND U32_HIGH_MASK) 31" by simp
  then show "\<not> bit w 31" by (simp add: bit_simps high_mask_bit)
next
  assume "\<not> bit w 31"
  then show "w AND U32_HIGH_MASK = 0" by (intro bit_word_eqI) (auto simp: bit_simps high_mask_bit)
qed

lemma or_xor_high_mask: "\<not> bit w 31 \<Longrightarrow> (w OR U32_HIGH_MASK) XOR U32_HIGH_MASK = w" for w :: u32
  by (rule bit_word_eqI) (auto simp: bit_simps high_mask_bit)

lemma small_no_high_bit: "n < 2 ^ 31 \<Longrightarrow> \<not> bit (of_nat n :: u32) 31"
proof -
  assume "n < 2 ^ 31"
  then have "\<not> bit n 31" by (simp add: bit_iff_odd)
  then show ?thesis by (simp add: bit_of_nat_iff)
qed

lemma get_action_flag:
  "action_ok a \<Longrightarrow> req_get_action (h\<lparr>rq_action := action_flag a\<rparr>) =
     (case a of Act_Num n \<Rightarrow> Ok n | Act_Str s \<Rightarrow> Err (of_nat (length s)))"
  by (cases a)
     (simp_all add: req_get_action_def action_flag_def and_high_mask or_xor_high_mask small_no_high_bit
       bit_or_iff high_mask_bit)

section \<open>What the encoders produce\<close>

definition req_head_for :: "u64 \<Rightarrow> rpc_action \<Rightarrow> u64 \<Rightarrow> bytes \<Rightarrow> bytes option \<Rightarrow> req_head" where
  "req_head_for client_id a seq m blob =
     \<lparr>rq_magic = RPC_MAGIC, rq_ver = RPC_VERSION_1, rq_format = 0, rq_action = action_flag a,
      rq_seq = seq, rq_client_id = client_id, rq_msg_len = of_nat (length m),
      rq_blob_len = of_nat (case blob of Some b \<Rightarrow> length b | None \<Rightarrow> 0)\<rparr>"

lemma req_encode_ping_eq:
  "req_encode_ping buf cid seq = req_head_bytes (req_head_for cid (Act_Num 0) seq [] None)"
  by (simp add: req_encode_ping_def req_write_head_def req_head_for_def action_flag_def PING_ACTION_def)

lemma req_decode_head_bytes:
  "req_decode_head (req_head_bytes h) =
     Return (if rq_magic h \<noteq> RPC_MAGIC then Err IO
             else if rq_ver h \<noteq> RPC_VERSION_1 then Err Version else Ok h)"
  by (simp add: req_decode_head_def)

lemma resp_decode_head_bytes:
  "resp_decode_head (resp_head_bytes h) =
     Return (if rp_magic h \<noteq> RPC_MAGIC then Err IO
             else if rp_ver h \<noteq> RPC_VERSION_1 then Err Version else Ok h)"
  by (simp add: resp_decode_head_def)

context client_task
begin

text \<open>A successful encoding: header, action, message, with the blob to follow.\<close>

lemma req_encode_Ok:
  assumes "req_encode ct c buf cid t = (wire, Ok blob)"
  shows "wire = req_head_bytes (req_head_for cid (ct_get_action ct t) (ct_seq ct t) (msg c t) blob) @
      action_bytes (ct_get_action ct t) @ msg c t \<and>
    blob = ct_get_req_blob ct t \<and> length (msg c t) \<le> u32_MAX \<and>
    (\<forall>b. blob = Some b \<longrightarrow> length b \<le> i32_MAX)"
proof -
  let ?room = "vec_set_len RPC_REQ_HEADER_LEN buf @ action_bytes (ct_get_action ct t)"
  have room: "(case ct_get_action ct t of
        Act_Num num \<Rightarrow> (num, vec_set_len RPC_REQ_HEADER_LEN buf)
      | Act_Str s \<Rightarrow> (of_nat (length s) OR U32_HIGH_MASK, vec_set_len RPC_REQ_HEADER_LEN buf @ s)) =
      (action_flag (ct_get_action ct t), ?room)"
    by (cases "ct_get_action ct t") (simp_all add: action_flag_def)
  obtain buf' r where e': "ct_encode_req ct c t ?room = (buf', r)" by fastforce
  with assms obtain n where r: "r = Ok n" 
    by (cases r) (auto simp: req_encode_def Let_def room simp del: req_header_len)
  note e = e' [unfolded r]
  have w: "wire = req_write_head buf' cid (action_flag (ct_get_action ct t)) (ct_seq ct t) (of_nat n)
      (of_nat (case blob of Some b \<Rightarrow> length b | None \<Rightarrow> 0))" "blob = ct_get_req_blob ct t"
      "n \<le> u32_MAX" "\<forall>b. blob = Some b \<longrightarrow> length b \<le> i32_MAX"
    using assms e by (auto simp: req_encode_def Let_def room simp del: req_header_len split: if_splits)
  from encode_req [OF e] w show ?thesis
    by (simp add: req_write_head_def req_head_for_def)
qed

end

text \<open>The header and the bytes after it that a response consists of.\<close>

definition resp_head_for :: "u8 \<Rightarrow> u64 \<Rightarrow> u32 \<Rightarrow> nat \<Rightarrow> resp_head" where
  "resp_head_for flag seq msg_len blob_len =
     \<lparr>rp_magic = RPC_MAGIC, rp_ver = RPC_VERSION_1, rp_flag = flag, rp_msg_len = msg_len,
      rp_seq = seq, rp_blob_len = of_nat blob_len\<rparr>"

fun err_head :: "u64 \<Rightarrow> encoded_err \<Rightarrow> resp_head" where
  "err_head seq (Enc_Num n) = resp_head_for RESP_FLAG_HAS_ERRNO seq n 0"
| "err_head seq e = resp_head_for RESP_FLAG_HAS_ERR_STRING seq 0
     (case err_wire_of e of Inl s \<Rightarrow> length s | Inr _ \<Rightarrow> 0)"

definition err_body :: "encoded_err \<Rightarrow> bytes" where
  "err_body e = (case err_wire_of e of Inl s \<Rightarrow> s | Inr _ \<Rightarrow> [])"

lemma resp_encode_error_eq:
  "length room = 20 \<Longrightarrow>
   resp_encode_error (room @ w) seq e = resp_head_bytes (err_head seq e) @ w @ err_body e"
  by (cases e) (simp_all add: resp_write_head_def resp_write_err_def resp_head_for_def err_body_def)

lemma resp_encode_internal_eq:
  "resp_encode_internal buf seq err =
     (case err of
        Some e \<Rightarrow> (resp_head_bytes (err_head seq (Enc_Rpc e)) @ int_err_as_bytes e, seq)
      | None \<Rightarrow> (resp_head_bytes (resp_head_for 0 seq 0 0), seq))"
  by (simp add: resp_encode_internal_def encoded_err_from_int_def resp_write_head_def resp_write_err_def
      resp_head_for_def split: option.split)

lemma resp_encode_Ok:
  assumes "enc c t (vec_set_len RPC_RESP_HEADER_LEN buf) =
      Return (vec_set_len RPC_RESP_HEADER_LEN buf @ m, t', seq, Ok (length m, blob))"
    and "length m \<le> u32_MAX" and "\<forall>b. blob = Some b \<longrightarrow> length b \<le> i32_MAX"
  shows "resp_encode enc c buf t =
     Return (resp_head_bytes (resp_head_for 0 seq (of_nat (length m))
               (case blob of Some b \<Rightarrow> length b | None \<Rightarrow> 0)) @ m, t', seq, blob)"
  using assms
  by (cases blob) (simp_all add: resp_encode_def resp_write_head_def resp_head_for_def)

lemma resp_encode_Err:
  assumes "enc c t (vec_set_len RPC_RESP_HEADER_LEN buf) =
      Return (vec_set_len RPC_RESP_HEADER_LEN buf @ w, t', seq, Err e)"
  shows "resp_encode enc c buf t =
     Return (resp_head_bytes (err_head seq e) @ w @ err_body e, t', seq, None)"
  using assms by (simp add: resp_encode_def resp_encode_error_eq)

lemma head_for_fields [simp]:
  "rp_magic (resp_head_for f s m k) = RPC_MAGIC" "rp_ver (resp_head_for f s m k) = RPC_VERSION_1"
  "rp_flag (resp_head_for f s m k) = f" "rp_seq (resp_head_for f s m k) = s"
  "rp_msg_len (resp_head_for f s m k) = m" "rp_blob_len (resp_head_for f s m k) = of_nat k"
  "rq_magic (req_head_for cid a s d b) = RPC_MAGIC" "rq_ver (req_head_for cid a s d b) = RPC_VERSION_1"
  "rq_seq (req_head_for cid a s d b) = s" "rq_action (req_head_for cid a s d b) = action_flag a"
  by (simp_all add: resp_head_for_def req_head_for_def)

lemma err_head_ok [simp]:
  "rp_magic (err_head s e) = RPC_MAGIC" "rp_ver (err_head s e) = RPC_VERSION_1" "rp_seq (err_head s e) = s"
  by (cases e; simp)+

lemma unat_of_nat_u32: "n \<le> u32_MAX \<Longrightarrow> unat (of_nat n :: u32) = n"
  by (simp add: unat_of_nat take_bit_nat_eq_self)

lemma req_head_for_lens:
  "length m \<le> u32_MAX \<Longrightarrow> unat (rq_msg_len (req_head_for cid a s m b)) = length m"
  "\<forall>x. b = Some x \<longrightarrow> length x \<le> i32_MAX \<Longrightarrow>
   unat (rq_blob_len (req_head_for cid a s m b)) = (case b of Some x \<Rightarrow> length x | None \<Rightarrow> 0)"
  by (auto simp: req_head_for_def unat_of_nat_u32 split: option.split)

lemma get_action_for:
  "action_ok a \<Longrightarrow> req_get_action (req_head_for cid a s m b) =
     (case a of Act_Num n \<Rightarrow> Ok n | Act_Str x \<Rightarrow> Err (of_nat (length x)))"
proof -
  have "(req_head_for cid a s m b)\<lparr>rq_action := action_flag a\<rparr> = req_head_for cid a s m b"
    by (simp add: req_head_for_def)
  then show "action_ok a \<Longrightarrow> ?thesis" using get_action_flag [of a "req_head_for cid a s m b"] by metis
qed

section \<open>Whole requests and responses\<close>

text \<open>A request and a response as they travel, and the ones whose lengths the headers can announce.\<close>

datatype response = Resp_Ok bytes "bytes option" | Resp_Err encoded_err

definition blob_bytes :: "bytes option \<Rightarrow> bytes" where
  "blob_bytes b = (case b of Some x \<Rightarrow> x | None \<Rightarrow> [])"

definition req_wire :: "u64 \<Rightarrow> u64 \<Rightarrow> rpc_action \<Rightarrow> bytes \<Rightarrow> bytes option \<Rightarrow> bytes" where
  "req_wire client_id seq a m b =
     req_head_bytes (req_head_for client_id a seq m b) @ action_bytes a @ m @ blob_bytes b"

definition req_fits :: "rpc_action \<Rightarrow> bytes \<Rightarrow> bytes option \<Rightarrow> bool" where
  "req_fits a m b \<longleftrightarrow> action_ok a \<and> length m \<le> u32_MAX \<and> length (blob_bytes b) \<le> i32_MAX"

fun resp_wire :: "u64 \<Rightarrow> response \<Rightarrow> bytes" where
  "resp_wire seq (Resp_Ok m b) =
     resp_head_bytes (resp_head_for 0 seq (of_nat (length m)) (length (blob_bytes b))) @ m @ blob_bytes b"
| "resp_wire seq (Resp_Err e) = resp_head_bytes (err_head seq e) @ err_body e"

fun resp_fits :: "response \<Rightarrow> bool" where
  "resp_fits (Resp_Ok m b) \<longleftrightarrow> length m \<le> u32_MAX \<and> length (blob_bytes b) \<le> i32_MAX"
| "resp_fits (Resp_Err e) \<longleftrightarrow> length (err_body e) \<le> i32_MAX"

lemma req_head_for_blob:
  "length (blob_bytes b) \<le> i32_MAX \<Longrightarrow>
   rq_blob_len (req_head_for cid a s m b) = of_nat (length (blob_bytes b))"
  by (simp add: req_head_for_def blob_bytes_def split: option.split)

context client_task
begin

lemma req_encode_wire:
  assumes "req_encode ct c buf cid t = (wire, Ok blob)"
  shows "wire @ blob_bytes blob = req_wire cid (ct_seq ct t) (ct_get_action ct t) (msg c t) blob"
  using req_encode_Ok [OF assms] by (simp add: req_wire_def)

end

text \<open>
  The contract of a response task: it says what its response is, with its number, appending the
  message to the buffer. No response is promised when the task has no result, or when encoding
  the message fails half-way.
\<close>

locale server_task =
  fixes enc :: "('c, 'r) server_encode" and codec :: 'c and seq_of :: "'r \<Rightarrow> u64"
    and answer :: "'r \<Rightarrow> response option"
  assumes answer_ok: "answer t = Some (Resp_Ok m b) \<Longrightarrow>
      \<exists>t'. enc codec t buf = Return (buf @ m, t', seq_of t, Ok (length m, b))"
    and answer_err: "answer t = Some (Resp_Err e) \<Longrightarrow>
      \<exists>t'. enc codec t buf = Return (buf, t', seq_of t, Err e)"
begin

lemma resp_encode_answer:
  assumes "answer t = Some r" "resp_fits r"
  shows "\<exists>wire t' blob. resp_encode enc codec buf t = Return (wire, t', seq_of t, blob) \<and>
    wire @ blob_bytes blob = resp_wire (seq_of t) r"
proof (cases r)
  case (Resp_Ok m b)
  with assms have fits: "length m \<le> u32_MAX" "\<forall>x. b = Some x \<longrightarrow> length x \<le> i32_MAX"
    by (auto simp: blob_bytes_def)
  from answer_ok assms(1) Resp_Ok obtain t' where
    "enc codec t (vec_set_len RPC_RESP_HEADER_LEN buf) =
      Return (vec_set_len RPC_RESP_HEADER_LEN buf @ m, t', seq_of t, Ok (length m, b))" by blast
  from resp_encode_Ok [of enc, OF this fits] Resp_Ok show ?thesis
    by (cases b) (simp_all add: blob_bytes_def)
next
  case (Resp_Err e)
  from answer_err assms(1) Resp_Err obtain t' where
    "enc codec t (vec_set_len RPC_RESP_HEADER_LEN buf) =
      Return (vec_set_len RPC_RESP_HEADER_LEN buf @ [], t', seq_of t, Err e)" by force
  from resp_encode_Err [of enc, OF this] Resp_Err show ?thesis by (simp add: blob_bytes_def)
qed

end

section \<open>Properties\<close>

text \<open>
  C24: the packed headers are a bijection between the well-versioned header values and the byte
  blocks the decoders accept: a block is accepted as a header exactly when it is that header's
  encoding and carries the magic number and version 1.
\<close>

theorem head_bijection:
  "(req_decode_head bs = Return (Ok h) \<longleftrightarrow>
      bs = req_head_bytes h \<and> rq_magic h = RPC_MAGIC \<and> rq_ver h = RPC_VERSION_1) \<and>
   (resp_decode_head cs = Return (Ok k) \<longleftrightarrow>
      cs = resp_head_bytes k \<and> rp_magic k = RPC_MAGIC \<and> rp_ver k = RPC_VERSION_1)"
  using req_head_bytes_ref [of bs] resp_head_bytes_ref [of cs]
  by (auto simp: req_decode_head_def resp_decode_head_def split: option.splits if_splits)

text \<open>
  What \<open>ReqHead::encode\<close> puts on the wire parses back: the first 32 bytes decode to a header
  whose action, sequence number, message length and blob length are the task's, and the rest is
  the action string followed by the message, whatever the reused buffer held before.
\<close>

theorem req_encode_parses:
  assumes "client_task ct msg" and "req_encode ct c buf cid t = (wire, Ok blob)"
    and "action_ok (ct_get_action ct t)"
  shows "\<exists>h. req_decode_head (take RPC_REQ_HEADER_LEN wire) = Return (Ok h) \<and>
    rq_seq h = ct_seq ct t \<and> rq_client_id h = cid \<and>
    req_get_action h =
      (case ct_get_action ct t of Act_Num n \<Rightarrow> Ok n | Act_Str s \<Rightarrow> Err (of_nat (length s))) \<and>
    unat (rq_msg_len h) = length (msg c t) \<and>
    unat (rq_blob_len h) = (case blob of Some b \<Rightarrow> length b | None \<Rightarrow> 0) \<and>
    drop RPC_REQ_HEADER_LEN wire = action_bytes (ct_get_action ct t) @ msg c t"
proof -
  note w = client_task.req_encode_Ok [OF assms(1,2)]
  then show ?thesis
    using assms(3) req_head_for_lens(1) [where m = "msg c t"] req_head_for_lens(2) [where b = blob]
    by (intro exI [of _ "req_head_for cid (ct_get_action ct t) (ct_seq ct t) (msg c t) blob"])
       (simp add: req_decode_head_bytes get_action_for, simp add: req_head_for_def)
qed

theorem req_encode_parses_witness:
  "\<exists>wire h. req_encode api_ops () [9, 9] 5 (sample_task 7) = (wire, Ok None) \<and>
     req_decode_head (take 32 wire) = Return (Ok h) \<and> rq_seq h = 7 \<and>
     drop 32 wire = str ''Svc.add'' @ [1, 2, 3]"
proof -
  obtain wire where w: "req_encode api_ops () [9, 9] 5 (sample_task 7) = (wire, Ok None)"
    by (simp add: req_encode_def api_defs sample_task_def Let_def)
  have "action_ok (ct_get_action api_ops (sample_task 7))"
    by (simp add: api_defs sample_task_def str_def)
  from req_encode_parses [OF api.client_task_axioms w this] w show ?thesis
    by (auto simp: api_defs sample_task_def ct_seq_def common_seq_def)
qed

text \<open>
  A numeric action is a 32-bit signed number for the client, but the top bit of the field
  marks a string action: a negative action is decoded by the server as the length of an action
  string, so the request is not the one that was sent.
\<close>

theorem negative_action_misread:
  assumes "bit n 31"
  shows "req_get_action (req_head_for cid (Act_Num n) s m b) = Err (n XOR U32_HIGH_MASK)"
  using assms by (simp add: req_get_action_def and_high_mask action_flag_def)

theorem negative_action_misread_witness:
  "req_get_action (req_head_for 0 (Act_Num (- 1)) 1 [] None) = Err 0x7FFFFFFF"
  using negative_action_misread [of "- 1"] by (simp add: U32_HIGH_MASK_def)

text \<open>
  When encoding a response fails after part of the message was written, the error string is
  appended behind that part, while the header announces the error string alone. What the client
  reads as the error is the start of the abandoned message, and as many bytes as were written
  stay in the stream and are taken for the next header.
\<close>

theorem resp_error_misframed:
  assumes "enc c t (vec_set_len RPC_RESP_HEADER_LEN buf) =
      Return (vec_set_len RPC_RESP_HEADER_LEN buf @ w, t', seq, Err (Enc_Rpc e))"
  shows "\<exists>wire h. resp_encode enc c buf t = Return (wire, t', seq, None) \<and>
    resp_decode_head (take RPC_RESP_HEADER_LEN wire) = Return (Ok h) \<and>
    rp_flag h = RESP_FLAG_HAS_ERR_STRING \<and> unat (rp_blob_len h) = length (int_err_as_bytes e) \<and>
    length wire = RPC_RESP_HEADER_LEN + unat (rp_blob_len h) + length w \<and>
    drop RPC_RESP_HEADER_LEN wire = w @ int_err_as_bytes e"
  using resp_encode_Err [of enc, OF assms] int_err_as_bytes_short [of e]
  by (simp add: resp_decode_head_bytes err_body_def unat_of_nat_u32)

definition failing_encode :: "(unit, unit) server_encode" where
  "failing_encode c t buf = Return (buf @ [0x81], t, 3, Err (Enc_Rpc Encode))"

theorem resp_error_misframed_witness:
  "\<exists>wire h. resp_encode failing_encode () [] () = Return (wire, (), 3, None) \<and>
    resp_decode_head (take 20 wire) = Return (Ok h) \<and> unat (rp_blob_len h) = 10 \<and> length wire = 31"
  using resp_error_misframed [of failing_encode "()" "()" "[]" "[0x81]" "()" 3 Encode]
  by (auto simp: failing_encode_def int_err_as_bytes_def str_def)

end
