(* ===== verification/Rpc_Async.thy ===== *)
theory Rpc_Async
  imports Rpc_Buf_Io Rpc_Proto
begin

text \<open>
  What the two sides of the TCP transport share: the outcome of a suspended or panicking call, reading
  and writing a buffered connection under a timeout, and the resizing of their reused buffers.
\<close>

section \<open>Running asynchronous code\<close>

text \<open>
  A call finishes, stays suspended (it waits for something that has not happened, or never
  returns), or panics.
\<close>

datatype 'a async = Fin 'a | Suspend | Crash

fun async_of :: "'a option \<Rightarrow> 'a async" where
  "async_of (Some x) = Fin x"
| "async_of None = Suspend"

definition async_bind :: "'a async \<Rightarrow> ('a \<Rightarrow> 'b async) \<Rightarrow> 'b async" where
  "async_bind a f = (case a of Fin x \<Rightarrow> f x | Suspend \<Rightarrow> Suspend | Crash \<Rightarrow> Crash)"

lemma async_bind_simps [simp]:
  "async_bind (Fin x) f = f x" "async_bind Suspend f = Suspend" "async_bind Crash f = Crash"
  by (simp_all add: async_bind_def)

lemma async_bind_Fin: "async_bind a f = Fin y \<longleftrightarrow> (\<exists>x. a = Fin x \<and> f x = Fin y)"
  by (cases a) simp_all

text \<open>What holds of the result if the call finishes.\<close>

definition async_post :: "('a \<Rightarrow> bool) \<Rightarrow> 'a async \<Rightarrow> bool" where
  "async_post P a \<longleftrightarrow> (\<forall>x. a = Fin x \<longrightarrow> P x)"

lemma async_post_simps [simp]: "async_post P (Fin x) \<longleftrightarrow> P x" "async_post P Suspend" "async_post P Crash"
  by (simp_all add: async_post_def)

lemma async_postD: "async_post P a \<Longrightarrow> a = Fin x \<Longrightarrow> P x"
  by (simp add: async_post_def)

lemma async_post_any: "(\<And>x. async_post P (f x)) \<Longrightarrow> async_post P (async_bind a f)"
  by (cases a) simp_all

lemma async_post_bind:
  "async_post Q a \<Longrightarrow> (\<And>x. Q x \<Longrightarrow> async_post P (f x)) \<Longrightarrow> async_post P (async_bind a f)"
  by (cases a) simp_all

section \<open>Reading from a healthy connection\<close>

text \<open>\<open>rx s bs\<close>: the stream will deliver \<open>bs\<close>, without failure or silence.\<close>

definition rx :: "buf_stream \<Rightarrow> bytes \<Rightarrow> bool" where
  "rx s bs \<longleftrightarrow> stream_inv s \<and> all_data (bs_in s) \<and> stream_rest s = bs"

lemma rx_read_exact:
  assumes "rx s (a @ b)" "n = length a"
  shows "\<exists>s'. read_exact stream_read p s n [] = Some (s', Ready (Ok a)) \<and> rx s' b"
  using buffered.read_exact_good [of s n p "[]"] assms by (auto simp: rx_def)

lemma io_with_timeout_Ready:
  "\<forall>p. \<exists>s'. f p = Some (s', Ready r) \<and> Q s' \<Longrightarrow> \<exists>s'. io_with_timeout d f = Some (s', r) \<and> Q s'"
proof -
  assume *: "\<forall>p. \<exists>s'. f p = Some (s', Ready r) \<and> Q s'"
  obtain s1 where "f True = Some (s1, Ready r)" "Q s1" using * by blast
  moreover obtain s2 where "f False = Some (s2, Ready r)" "Q s2" using * by blast
  ultimately show ?thesis by (simp add: io_with_timeout_def)
qed

lemma timed_read_exact:
  assumes "rx s (a @ b)" "n = length a"
  shows "\<exists>s'. io_with_timeout d (\<lambda>p. read_exact stream_read p s n []) = Some (s', Ok a) \<and> rx s' b"
  by (rule io_with_timeout_Ready) (use rx_read_exact [OF assms] in blast)

section \<open>Reading from any connection\<close>

text \<open>Reading leaves the write side alone, whatever the peer does.\<close>

definition keeps_out :: "buf_stream \<Rightarrow> buf_stream \<Rightarrow> bool" where
  "keeps_out s s' \<longleftrightarrow> stream_inv s' \<and> bs_write s' = bs_write s \<and> bs_out s' = bs_out s"

interpretation buffered_keep: byte_source stream_read stream_rest "\<lambda>s. length (bs_in s)" "keeps_out s0" for s0
proof
  fix s s' :: buf_stream and n :: nat and r and bs and e
  assume k: "keeps_out s0 s"
  then have i: "stream_inv s" by (simp add: keeps_out_def)
  show "keeps_out s0 s' \<and> length (bs_in s') \<le> length (bs_in s)" if "stream_read s n = (s', r)"
    using buffered.rd_inv [OF i that] that k by (auto simp: keeps_out_def stream_read_eq)
  show "length bs \<le> n \<and> stream_rest s = bs @ stream_rest s'" if "stream_read s n = (s', Ready (Ok bs))"
    using buffered.rd_data [OF i that] .
  show "length (bs_in s') < length (bs_in s) \<and> stream_rest s' = stream_rest s"
    if "stream_read s n = (s', Pending)" using buffered.rd_wait [OF i that] .
  show "length (bs_in s') < length (bs_in s) \<and> stream_rest s' = stream_rest s"
    if "stream_read s n = (s', Ready (Err e))" using buffered.rd_err [OF i that] .
qed

lemma keeps_out_refl: "stream_inv s \<Longrightarrow> keeps_out s s"
  by (simp add: keeps_out_def)

lemma read_exact_keeps:
  assumes "keeps_out s0 s"
  shows "\<exists>s' r. read_exact stream_read p s n [] = Some (s', r) \<and> keeps_out s0 s' \<and> (p \<longrightarrow> r \<noteq> Pending)"
  using buffered_keep.read_exact_returns [OF assms, of p n "[]"] by (auto simp: buffered_keep.read_post_def)

lemma timed_read_keeps:
  assumes "keeps_out s0 s"
  shows "\<exists>s' r. io_with_timeout d (\<lambda>p. read_exact stream_read p s n []) = Some (s', r) \<and> keeps_out s0 s'"
proof -
  obtain s1 r1 where 1: "read_exact stream_read True s n [] = Some (s1, Ready r1)" "keeps_out s0 s1"
    using read_exact_keeps [OF assms] by (metis poll.exhaust)
  obtain s2 r2 where 2: "read_exact stream_read False s n [] = Some (s2, r2)" "keeps_out s0 s2"
    using read_exact_keeps [OF assms] by blast
  from 1 2 show ?thesis by (cases r2) (simp_all add: io_with_timeout_def)
qed

lemma keeps_out_stream_out: "keeps_out s s' \<Longrightarrow> stream_out s' = stream_out s"
  by (simp add: keeps_out_def stream_out_def)

section \<open>Writing to a connection\<close>

lemma io_with_timeout_Ok:
  assumes "\<forall>p. \<exists>s' r. f p = Some (s', r) \<and> (p \<longrightarrow> r \<noteq> Pending) \<and> P s' r"
    and "\<And>s' r. P s' r \<Longrightarrow> Q s'" and "\<And>s'. P s' (Ready (Ok ())) \<Longrightarrow> R s'"
  shows "\<exists>s' r. io_with_timeout d f = Some (s', r) \<and> Q s' \<and> (r = Ok () \<longrightarrow> R s')"
proof -
  obtain s1 r1 where 1: "f True = Some (s1, Ready r1)" "P s1 (Ready r1)"
    using assms(1) by (metis poll.exhaust)
  obtain s2 r2 where 2: "f False = Some (s2, r2)" "P s2 r2" using assms(1) by blast
  show ?thesis
    using 1 2 assms(2,3) by (cases r2) (auto simp: io_with_timeout_def)
qed

lemma timed_write_all:
  assumes "stream_inv s"
  shows "\<exists>s' r. io_with_timeout d (\<lambda>p. write_all (stream_write p) p s bs) = Some (s', r) \<and>
    stream_inv s' \<and> (r = Ok () \<longrightarrow> stream_out s' = stream_out s @ bs)"
proof -
  let ?P = "\<lambda>s' r. stream_inv s' \<and> (r = Ready (Ok ()) \<longrightarrow> stream_out s' = stream_out s @ bs)"
  have "\<forall>p. \<exists>s' r. write_all (stream_write p) p s bs = Some (s', r) \<and> (p \<longrightarrow> r \<noteq> Pending) \<and> ?P s' r"
    using bufferedout.write_all_returns [OF assms] unfolding bufferedout.write_post_def by blast
  then show ?thesis by (rule io_with_timeout_Ok) simp_all
qed

lemma timed_flush:
  assumes "stream_inv s"
  shows "\<exists>s' r. io_with_timeout d (\<lambda>p. stream_flush p s) = Some (s', r) \<and> stream_inv s' \<and>
    (r = Ok () \<longrightarrow> stream_out s' = stream_out s \<and> sk_out (bs_out s') = stream_out s)"
proof -
  let ?P = "\<lambda>s' r. stream_inv s' \<and>
    (r = Ready (Ok ()) \<longrightarrow> stream_out s' = stream_out s \<and> sk_out (bs_out s') = stream_out s)"
  have "\<forall>p. \<exists>s' r. stream_flush p s = Some (s', r) \<and> (p \<longrightarrow> r \<noteq> Pending) \<and> ?P s' r"
    using stream_flush_returns [OF assms] by blast
  then show ?thesis by (rule io_with_timeout_Ok) simp_all
qed

text \<open>Writing leaves the read side alone.\<close>

definition keeps_in :: "buf_stream \<Rightarrow> buf_stream \<Rightarrow> bool" where
  "keeps_in s s' \<longleftrightarrow> stream_inv s' \<and> bs_read s' = bs_read s \<and> bs_in s' = bs_in s"

interpretation bufferedout_keep: byte_sink "stream_write p" stream_out "\<lambda>s. length (sk_script (bs_out s))"
  "keeps_in s0" p for s0 p
proof
  fix s s' :: buf_stream and bs r k
  assume i: "keeps_in s0 s"
  then have inv: "stream_inv s" by (simp add: keeps_in_def)
  show "bs \<noteq> [] \<Longrightarrow> stream_write p s bs \<noteq> None" using bufferedout.wr_total [OF inv] .
  show "keeps_in s0 s' \<and> length (sk_script (bs_out s')) \<le> length (sk_script (bs_out s))" if "stream_write p s bs = Some (s', r)"
    using bufferedout.wr_inv [OF inv that] that i by (auto simp: keeps_in_def stream_write_eq)
  show "k \<le> length bs \<and> stream_out s' = stream_out s @ take k bs \<and>
      (k = 0 \<and> bs \<noteq> [] \<longrightarrow> length (sk_script (bs_out s')) < length (sk_script (bs_out s)))"
    if "stream_write p s bs = Some (s', Ready (Ok k))" using bufferedout.wr_data [OF inv that] .
  show "length (sk_script (bs_out s')) < length (sk_script (bs_out s))"
    if "stream_write p s bs = Some (s', r)" "\<nexists>k. r = Ready (Ok k)" using bufferedout.wr_wait [OF inv that] .
  show "stream_out s' = stream_out s"
    if "stream_write p s bs = Some (s', r)" "r = Pending \<and> p \<or> r = Ready (Err Interrupted)"
    using bufferedout.wr_retry [OF inv that] .
qed

lemma keeps_in_refl: "stream_inv s \<Longrightarrow> keeps_in s s"
  by (simp add: keeps_in_def)

lemma keeps_in_rx: "rx s bs \<Longrightarrow> keeps_in s s' \<Longrightarrow> rx s' bs"
  by (simp add: rx_def keeps_in_def stream_rest_def)

lemma timed_write_keeps:
  assumes "keeps_in s0 s"
  shows "\<exists>s' r. io_with_timeout d (\<lambda>p. write_all (stream_write p) p s bs) = Some (s', r) \<and> keeps_in s0 s'"
proof -
  have "\<forall>p. \<exists>s' r. write_all (stream_write p) p s bs = Some (s', r) \<and> (p \<longrightarrow> r \<noteq> Pending) \<and> keeps_in s0 s'"
    using bufferedout_keep.write_all_returns [OF assms] unfolding bufferedout_keep.write_post_def by blast
  from io_with_timeout_Ok [OF this, of "keeps_in s0" "\<lambda>_. True"] show ?thesis by blast
qed

lemma timed_flush_keeps:
  assumes "keeps_in s0 s"
  shows "\<exists>s' r. io_with_timeout d (\<lambda>p. stream_flush p s) = Some (s', r) \<and> keeps_in s0 s'"
proof -
  have "stream_inv s" using assms by (simp add: keeps_in_def)
  then have "\<forall>p. \<exists>s' r. stream_flush p s = Some (s', r) \<and> (p \<longrightarrow> r \<noteq> Pending) \<and> keeps_in s0 s'"
    using stream_flush_returns [of s] assms by (fastforce simp: keeps_in_def stream_flush_def split: option.splits)
  from io_with_timeout_Ok [OF this, of "keeps_in s0" "\<lambda>_. True"] show ?thesis by blast
qed

text \<open>A connection whose socket accepts everything: nothing else can happen to a write.\<close>

definition willing :: "buf_stream \<Rightarrow> bool" where
  "willing s \<longleftrightarrow> stream_inv s \<and> sk_script (bs_out s) = []"

lemma timed_write_all_willing:
  assumes "willing s"
  shows "\<exists>s'. io_with_timeout d (\<lambda>p. write_all (stream_write p) p s bs) = Some (s', Ok ()) \<and>
    willing s' \<and> stream_out s' = stream_out s @ bs"
proof (rule io_with_timeout_Ready, rule allI)
  fix p
  obtain s' r where "write_all (stream_write p) p s bs = Some (s', r)" "bufferedout.write_post p s bs s' r"
    using bufferedout.write_all_returns assms unfolding willing_def by blast
  then show "\<exists>s'. write_all (stream_write p) p s bs = Some (s', Ready (Ok ())) \<and>
      willing s' \<and> stream_out s' = stream_out s @ bs"
    using assms by (auto simp: bufferedout.write_post_def willing_def)
qed

lemma timed_flush_willing:
  assumes "willing s"
  shows "\<exists>s'. io_with_timeout d (\<lambda>p. stream_flush p s) = Some (s', Ok ()) \<and>
    willing s' \<and> stream_out s' = stream_out s \<and> sk_out (bs_out s') = stream_out s"
proof (rule io_with_timeout_Ready, rule allI)
  fix p
  show "\<exists>s'. stream_flush p s = Some (s', Ready (Ok ())) \<and>
      willing s' \<and> stream_out s' = stream_out s \<and> sk_out (bs_out s') = stream_out s"
    using buf_flush_returns [of "bs_write s" p "bs_out s"] assms
    by (fastforce simp: stream_flush_def willing_def stream_inv_def stream_out_def buf_out_def)
qed

section \<open>Buffers\<close>

definition vec_resize :: "nat \<Rightarrow> bytes \<Rightarrow> bytes" where
  "vec_resize n b = take n b @ replicate (n - length b) 0"

definition isize_MAX :: nat where
  "isize_MAX = 2 ^ 63 - 1"

lemma length_vec_resize [simp]: "length (vec_resize n b) = n"
  by (simp add: vec_resize_def)

lemma sint_of_nat_small: "k \<le> i32_MAX \<Longrightarrow> sint (of_nat k :: i32) = int k"
  by (simp add: signed_of_nat signed_take_bit_int_eq_self)

lemma blob_len_pos: "k \<le> i32_MAX \<Longrightarrow> 0 <s (of_nat k :: i32) \<longleftrightarrow> 0 < k"
  by (simp add: word_sless_alt sint_of_nat_small)

lemma i32_as_usize_small: "k \<le> i32_MAX \<Longrightarrow> i32_as_usize (of_nat k) = k"
  by (simp add: i32_as_usize_def scast_eq sint_of_nat_small unat_of_nat take_bit_nat_eq_self)

lemma msg_len_pos: "length m \<le> u32_MAX \<Longrightarrow> 0 < (of_nat (length m) :: u32) \<longleftrightarrow> m \<noteq> []"
  using unat_of_nat_u32 by (metis length_greater_0_conv unat_gt_0 word_neq_0_conv)

text \<open>
  What is documented of the allocator of \<open>io_buffer\<close>: a buffer of the requested size, for a positive
  size, when memory is there.
\<close>

definition alloc_ok :: "(i32 \<Rightarrow> nat option) \<Rightarrow> bool" where
  "alloc_ok alloc \<longleftrightarrow> (\<forall>k. 0 < k \<and> k \<le> i32_MAX \<longrightarrow> alloc (of_nat k) = Some k)"

lemma alloc_ok_unat: "alloc_ok (\<lambda>n. Some (unat n))"
  by (simp add: alloc_ok_def unat_of_nat_u32)

text \<open>A connection with 4-byte buffers on which a peer has sent \<open>bs\<close>, for concrete instances.\<close>

definition fresh_stream :: "bytes \<Rightarrow> buf_stream" where
  "fresh_stream bs =
     \<lparr>bs_read = \<lparr>br_buf = [0, 0, 0, 0], br_pos = 0, br_cap = 0\<rparr>, bs_write = \<lparr>bw_buf = [0, 0, 0, 0], bw_pos = 0\<rparr>,
      bs_in = [Data bs], bs_out = \<lparr>sk_out = [], sk_script = []\<rparr>\<rparr>"

lemma rx_fresh: "bs \<noteq> [] \<Longrightarrow> rx (fresh_stream bs) bs"
  by (simp add: rx_def fresh_stream_def stream_inv_def stream_rest_def buf_read_inv_def buf_write_inv_def
      buf_read_rest_def)

end
