(* ===== verification/Rpc_Server_Task.thy ===== *)
theory Rpc_Server_Task
  imports Rpc_Proto
begin

text \<open>
  The server's tasks: the request and the pre-encoded response of \<open>stream/src/server/mod.rs\<close>, and of
  \<open>stream/src/server/task.rs\<close> the two containers \<open>ServerTaskVariant\<close> and \<open>ServerTaskVariantFull\<close>
  with their decoding, completion and encoding, and the channel \<open>RespNoti\<close> on which finished
  tasks return to the connection's writer.
\<close>

section \<open>RpcSvrReq and RpcSvrResp\<close>

record rpc_svr_req =
  sq_seq :: u64
  sq_action :: rpc_action
  sq_msg :: bytes
  sq_blob :: "bytes option"

record rpc_svr_resp =
  sr_seq :: u64
  sr_msg :: "bytes option"
  sr_blob :: "bytes option"
  sr_res :: "(unit, encoded_err) result option"

definition svr_resp_encode :: "('c, rpc_svr_resp) server_encode" where
  "svr_resp_encode codec t buf =
     (case sr_res t of
        None \<Rightarrow> Panic
      | Some res \<Rightarrow>
          (let t = t\<lparr>sr_res := None\<rparr> in
           Return
             (case res of
                Inr _ \<Rightarrow>
                  (case sr_msg t of
                     Some msg \<Rightarrow> (buf @ msg, t, sr_seq t, Ok (length msg, sr_blob t))
                   | None \<Rightarrow> (buf, t, sr_seq t, Ok (0, sr_blob t)))
              | Inl e \<Rightarrow> (buf, t, sr_seq t, Err e))))"

definition svr_resp_answer :: "rpc_svr_resp \<Rightarrow> response option" where
  "svr_resp_answer t =
     (case sr_res t of
        None \<Rightarrow> None
      | Some (Inr _) \<Rightarrow> Some (Resp_Ok (blob_bytes (sr_msg t)) (sr_blob t))
      | Some (Inl e) \<Rightarrow> Some (Resp_Err e))"

interpretation svr_resp: server_task svr_resp_encode codec sr_seq svr_resp_answer for codec
  by unfold_locales
     (auto simp: svr_resp_encode_def svr_resp_answer_def blob_bytes_def Let_def split: sum.splits option.splits)

section \<open>RespNoti\<close>

text \<open>
  The unbounded channel behind \<open>RespNoti\<close>: finished tasks, or a number with an optional error for a
  response without a task. Sending fails when the writer, its only receiver, is gone. A handle on
  the channel is named by the number of its connection.
\<close>

type_synonym 'r done_item = "('r, u64 \<times> rpc_int_err option) result"

record 'r done_chan =
  dc_queue :: "'r done_item list"
  dc_open :: bool

definition noti_done :: "'r \<Rightarrow> 'r done_chan \<Rightarrow> 'r done_chan" where
  "noti_done task ch = (if dc_open ch then ch\<lparr>dc_queue := dc_queue ch @ [Ok task]\<rparr> else ch)"

definition noti_send_err ::
  "u64 \<Rightarrow> rpc_int_err option \<Rightarrow> 'r done_chan \<Rightarrow> 'r done_chan \<times> (unit, unit) result" where
  "noti_send_err seq err ch =
     (if dc_open ch then (ch\<lparr>dc_queue := dc_queue ch @ [Err (seq, err)]\<rparr>, Ok ()) else (ch, Err ()))"

section \<open>ServerTaskVariant\<close>

record ('m, 'e) server_task_variant =
  sv_seq :: u64
  sv_action :: rpc_action
  sv_msg :: 'm
  sv_blob :: "bytes option"
  sv_res :: "(unit, 'e) result option"
  sv_noti :: "nat option"

definition variant_decode_req ::
  "'m codec \<Rightarrow> rpc_action \<Rightarrow> u64 \<Rightarrow> bytes \<Rightarrow> bytes option \<Rightarrow> nat \<Rightarrow> (('m, 'e) server_task_variant, unit) result" where
  "variant_decode_req codec action seq msg blob noti =
     (case cd_decode codec msg of
        Inl _ \<Rightarrow> Err ()
      | Inr req \<Rightarrow>
          Ok \<lparr>sv_seq = seq, sv_action = action_to_owned action, sv_msg = req, sv_blob = blob,
              sv_res = None, sv_noti = Some noti\<rparr>)"

definition variant_get_action :: "('m, 'e) server_task_variant \<Rightarrow> rpc_action" where
  "variant_get_action t = owned_to_action (sv_action t)"

text \<open>\<open>_set_result\<close> stores the result and takes the channel out, a panic when it was taken before.\<close>

definition variant_set_result ::
  "(unit, 'e) result \<Rightarrow> ('m, 'e) server_task_variant \<Rightarrow> (('m, 'e) server_task_variant \<times> nat) outcome" where
  "variant_set_result res t =
     (case sv_noti t of
        None \<Rightarrow> Panic
      | Some noti \<Rightarrow> Return (t\<lparr>sv_res := Some res, sv_noti := None\<rparr>, noti))"

definition variant_encode_resp ::
  "'e rpc_err_codec \<Rightarrow> ('m codec, ('m, 'e) server_task_variant) server_encode" where
  "variant_encode_resp ec codec t buf =
     (case sv_res t of
        Some res \<Rightarrow>
          Return
            (case res of
               Inr _ \<Rightarrow>
                 (case cd_encode_into codec (sv_msg t) buf of
                    (buf, Inl _) \<Rightarrow> (buf, t, sv_seq t, Err (encoded_err_from_int Encode))
                  | (buf, Inr msg_len) \<Rightarrow> (buf, t, sv_seq t, Ok (msg_len, sv_blob t)))
             | Inl e \<Rightarrow> (buf, t, sv_seq t, Err (err_encode ec e)))
      | None \<Rightarrow> Panic)"

section \<open>ServerTaskVariantFull\<close>

record ('q, 'p, 'e) server_task_full =
  sf_seq :: u64
  sf_action :: rpc_action
  sf_req :: 'q
  sf_req_blob :: "bytes option"
  sf_resp :: "'p option"
  sf_resp_blob :: "bytes option"
  sf_res :: "(unit, 'e) result option"
  sf_noti :: "nat option"

definition full_decode_req ::
  "'q codec \<Rightarrow> rpc_action \<Rightarrow> u64 \<Rightarrow> bytes \<Rightarrow> bytes option \<Rightarrow> nat \<Rightarrow> (('q, 'p, 'e) server_task_full, unit) result" where
  "full_decode_req codec action seq msg blob noti =
     (case cd_decode codec msg of
        Inl _ \<Rightarrow> Err ()
      | Inr req \<Rightarrow>
          Ok \<lparr>sf_seq = seq, sf_action = action_to_owned action, sf_req = req, sf_req_blob = blob,
              sf_resp = None, sf_resp_blob = None, sf_res = None, sf_noti = Some noti\<rparr>)"

definition full_get_action :: "('q, 'p, 'e) server_task_full \<Rightarrow> rpc_action" where
  "full_get_action t = owned_to_action (sf_action t)"

definition full_set_result ::
  "(unit, 'e) result \<Rightarrow> ('q, 'p, 'e) server_task_full \<Rightarrow> (('q, 'p, 'e) server_task_full \<times> nat) outcome" where
  "full_set_result res t =
     (case sf_noti t of
        None \<Rightarrow> Panic
      | Some noti \<Rightarrow> Return (t\<lparr>sf_res := Some res, sf_noti := None\<rparr>, noti))"

definition full_encode_resp ::
  "'e rpc_err_codec \<Rightarrow> ('p codec, ('q, 'p, 'e) server_task_full) server_encode" where
  "full_encode_resp ec codec t buf =
     (case sf_res t of
        Some res \<Rightarrow>
          Return
            (case res of
               Inr _ \<Rightarrow>
                 (case sf_resp t of
                    Some resp \<Rightarrow>
                      (case cd_encode_into codec resp buf of
                         (buf, Inl _) \<Rightarrow> (buf, t, sf_seq t, Err (encoded_err_from_int Encode))
                       | (buf, Inr msg_len) \<Rightarrow> (buf, t, sf_seq t, Ok (msg_len, sf_resp_blob t)))
                  | None \<Rightarrow> (buf, t, sf_seq t, Ok (0, sf_resp_blob t)))
             | Inl e \<Rightarrow> (buf, t, sf_seq t, Err (err_encode ec e)))
      | None \<Rightarrow> Panic)"

text \<open>
  \<open>ServerTaskDone::set_result\<close>, the provided method: complete the task (\<open>complete\<close> is \<open>_set_result\<close>),
  convert it into the response type of the connection (\<open>into\<close>) and send it.
\<close>

definition set_result ::
  "((unit, 'e) result \<Rightarrow> 't \<Rightarrow> ('t \<times> nat) outcome) \<Rightarrow> ('t \<Rightarrow> 'r) \<Rightarrow> (unit, 'e) result \<Rightarrow> 't \<Rightarrow>
   (nat \<Rightarrow> 'r done_chan) \<Rightarrow> (nat \<Rightarrow> 'r done_chan) outcome" where
  "set_result complete into res t chans =
     (case complete res t of
        Panic \<Rightarrow> Panic
      | Return (t, noti) \<Rightarrow> Return (chans(noti := noti_done (into t) (chans noti))))"

section \<open>What the containers answer\<close>

text \<open>The answer for a message that \<open>rmp_serde\<close> writes, or fails to write without output.\<close>

definition msg_answer :: "'m rmp \<Rightarrow> 'm \<Rightarrow> bytes option \<Rightarrow> response option" where
  "msg_answer r m blob =
     (case write_named r m of
        (w, True) \<Rightarrow> Some (Resp_Ok w blob)
      | (w, False) \<Rightarrow> if w = [] then Some (Resp_Err (Enc_Rpc Encode)) else None)"

definition variant_answer ::
  "'e rpc_err_codec \<Rightarrow> 'm rmp \<Rightarrow> ('m, 'e) server_task_variant \<Rightarrow> response option" where
  "variant_answer ec r t =
     (case sv_res t of
        None \<Rightarrow> None
      | Some (Inr _) \<Rightarrow> msg_answer r (sv_msg t) (sv_blob t)
      | Some (Inl e) \<Rightarrow> Some (Resp_Err (err_encode ec e)))"

definition full_answer ::
  "'e rpc_err_codec \<Rightarrow> 'p rmp \<Rightarrow> ('q, 'p, 'e) server_task_full \<Rightarrow> response option" where
  "full_answer ec r t =
     (case sf_res t of
        None \<Rightarrow> None
      | Some (Inr _) \<Rightarrow>
          (case sf_resp t of
             Some resp \<Rightarrow> msg_answer r resp (sf_resp_blob t)
           | None \<Rightarrow> Some (Resp_Ok [] (sf_resp_blob t)))
      | Some (Inl e) \<Rightarrow> Some (Resp_Err (err_encode ec e)))"

lemmas answer_defs = msg_answer_def msgp_codec_def msgp_encode_into_def encoded_err_from_int_def

interpretation variant: server_task "variant_encode_resp ec" "msgp_codec r" sv_seq "variant_answer ec r"
  for ec r
  by unfold_locales
     (auto simp: variant_encode_resp_def variant_answer_def answer_defs Let_def
       split: option.splits sum.splits prod.splits bool.splits if_splits)

interpretation full: server_task "full_encode_resp ec" "msgp_codec r" sf_seq "full_answer ec r"
  for ec r
  by unfold_locales
     (auto simp: full_encode_resp_def full_answer_def answer_defs Let_def
       split: option.splits sum.splits prod.splits bool.splits if_splits)

section \<open>Properties\<close>

text \<open>
  A request that decodes becomes a task that, completed once with a result, is sent exactly once
  to its own connection with the number of the request; the response is the error, or the message
  the user stored, which the peer decodes to the same value. Completing it again panics.
\<close>

theorem full_task_answers:
  fixes t :: "('q, 'p, 'e) server_task_full"
  assumes "full_decode_req (msgp_codec rq) action seq msg blob noti = Ok t"
    and "dc_open (chans noti)" and "rmp_supports rp resp"
    and "u = t\<lparr>sf_resp := Some resp, sf_resp_blob := rblob\<rparr>"
  shows "full_get_action t = action \<and> sf_req_blob t = blob \<and> from_slice rq msg = Some (sf_req t) \<and>
    (\<exists>v. full_set_result res u = Return (v, noti) \<and>
      set_result full_set_result id res u chans =
        Return (chans(noti := (chans noti)\<lparr>dc_queue := dc_queue (chans noti) @ [Ok v]\<rparr>)) \<and>
      full_set_result res' v = Panic \<and> sf_seq v = seq \<and>
      (case res of
         Inl e \<Rightarrow> full_answer ec rp v = Some (Resp_Err (err_encode ec e))
       | Inr _ \<Rightarrow> (\<exists>w. full_answer ec rp v = Some (Resp_Ok w rblob) \<and> from_slice rp w = Some resp)))"
  using assms
  by (cases "from_slice rq msg"; cases res)
     (auto simp: full_decode_req_def msgp_codec_def msgp_decode_def full_get_action_def full_set_result_def
       set_result_def noti_done_def full_answer_def msg_answer_def rmp_supports_def)

definition byte_rmp :: "byte rmp" where
  "byte_rmp = \<lparr>to_vec_named = (\<lambda>b. Some [b]), write_named = (\<lambda>b. ([b], True)),
     from_slice = (\<lambda>bs. case bs of [b] \<Rightarrow> Some b | _ \<Rightarrow> None)\<rparr>"

lemma byte_rmp_supports [simp]: "rmp_supports byte_rmp b"
  by (simp add: rmp_supports_def byte_rmp_def)

theorem full_task_answers_witness:
  "\<exists>t v. full_decode_req (msgp_codec byte_rmp) (Act_Num 4) 9 [5] None 0 = Ok t \<and>
     full_set_result (Ok ()) (t\<lparr>sf_resp := Some 6, sf_resp_blob := Some [1]\<rparr>) = Return (v, 0) \<and>
     sf_seq v = 9 \<and> full_answer codec_string byte_rmp v = Some (Resp_Ok [6] (Some [1]))"
proof -
  obtain t :: "(byte, byte, rust_str) server_task_full" where
    t: "full_decode_req (msgp_codec byte_rmp) (Act_Num 4) 9 [5] None 0 = Ok t"
    by (simp add: full_decode_req_def msgp_codec_def msgp_decode_def byte_rmp_def)
  have "dc_open \<lparr>dc_queue = [], dc_open = True\<rparr>" by simp
  from full_task_answers [OF t this byte_rmp_supports refl, where res = "Ok ()" and res' = "Ok ()"
        and resp = 6 and rblob = "Some [1]" and ec = codec_string]
  obtain v where "full_set_result (Ok ()) (t\<lparr>sf_resp := Some 6, sf_resp_blob := Some [1]\<rparr>) = Return (v, 0)"
    "sf_seq v = 9" "\<exists>w. full_answer codec_string byte_rmp v = Some (Resp_Ok w (Some [1])) \<and> from_slice byte_rmp w = Some 6"
    by auto
  moreover have "w = [6]" if "from_slice byte_rmp w = Some 6" for w
    using that by (auto simp: byte_rmp_def split: list.splits)
  ultimately show ?thesis using t by blast
qed

end
