(* ===== verification/Rpc_Tcp_Server.thy ===== *)
theory Rpc_Tcp_Server
  imports Rpc_Async Rpc_Server_Task Rpc_Config
begin

text \<open>
  The server side of the TCP transport, \<open>transport/tcp/src/server.rs\<close>: a connection with its three
  reused buffers, reading a request, writing a task's response or an internal one, flushing and
  closing. Logging is left out.
\<close>

section \<open>TcpServer\<close>

definition SERVER_DEFAULT_BUF_SIZE :: nat where
  "SERVER_DEFAULT_BUF_SIZE = 8 * 1024"

text \<open>\<open>ts_shut\<close> records that the write direction of the socket was shut down.\<close>

record tcp_server =
  ts_stream :: buf_stream
  ts_config :: server_config
  ts_action_buf :: bytes
  ts_msg_buf :: bytes
  ts_encode_buf :: bytes
  ts_shut :: bool

definition tcp_new_conn :: "rd_event list \<Rightarrow> sink \<Rightarrow> server_config \<Rightarrow> tcp_server outcome" where
  "tcp_new_conn i out config =
     (let buf_size = (if sc_stream_buf_size config = 0 then SERVER_DEFAULT_BUF_SIZE
                      else sc_stream_buf_size config) in
      case buf_stream_new i out buf_size of
        Panic \<Rightarrow> Panic
      | Return s \<Rightarrow>
          Return \<lparr>ts_stream = s, ts_config = config, ts_action_buf = [], ts_msg_buf = [],
                  ts_encode_buf = [], ts_shut = False\<rparr>)"

section \<open>Reading a request\<close>

definition srv_read_exact :: "nat \<Rightarrow> tcp_server \<Rightarrow> (tcp_server \<times> bytes io_result) async" where
  "srv_read_exact n c =
     async_bind
       (async_of (io_with_timeout (sc_read_timeout (ts_config c))
          (\<lambda>p. read_exact stream_read p (ts_stream c) n [])))
       (\<lambda>(s, r). Fin (c\<lparr>ts_stream := s\<rparr>, r))"

text \<open>
  The header is read without a timeout of its own, raced against the close notification and the idle
  timer: \<open>cancel\<close> tells whether one of these is there when the reader finds no data. An error of
  the reader and a cancellation end the request.
\<close>

definition srv_read_head :: "bool \<Rightarrow> tcp_server \<Rightarrow> (tcp_server \<times> (bytes, rpc_int_err) result) async" where
  "srv_read_head cancel c =
     async_bind (async_of (read_exact stream_read (\<not> cancel) (ts_stream c) RPC_REQ_HEADER_LEN []))
       (\<lambda>(s, r).
          case cancellable_poll r (if cancel then Ready () else Pending) of
            Ready (Inr (Inl e)) \<Rightarrow> Fin (c\<lparr>ts_stream := s\<rparr>, Err IO)
          | Ready (Inl _) \<Rightarrow> Fin (c\<lparr>ts_stream := s\<rparr>, Err Timeout)
          | Ready (Inr (Inr buf)) \<Rightarrow> Fin (c\<lparr>ts_stream := s\<rparr>, Ok buf)
          | Pending \<Rightarrow> Suspend)"

definition srv_read_action :: "req_head \<Rightarrow> tcp_server \<Rightarrow> (tcp_server \<times> (rpc_action, rpc_int_err) result) async" where
  "srv_read_action h c =
     (case req_get_action h of
        Inr num \<Rightarrow> Fin (c, Ok (Act_Num num))
      | Inl action_len \<Rightarrow>
          (let c = c\<lparr>ts_action_buf := vec_resize (i32_as_usize action_len) (ts_action_buf c)\<rparr> in
           async_bind (srv_read_exact (length (ts_action_buf c)) c) (\<lambda>(c, r).
             case r of
               Inl e \<Rightarrow> Fin (c, Err IO)
             | Inr buf \<Rightarrow>
                 (let c = c\<lparr>ts_action_buf := buf\<rparr> in
                  case from_utf8 buf of
                    Some s \<Rightarrow> Fin (c, Ok (Act_Str s))
                  | None \<Rightarrow> Fin (c, Err Decode)))))"

definition srv_read_msg :: "req_head \<Rightarrow> tcp_server \<Rightarrow> (tcp_server \<times> (unit, rpc_int_err) result) async" where
  "srv_read_msg h c =
     (let c = c\<lparr>ts_msg_buf := vec_resize (unat (rq_msg_len h)) (ts_msg_buf c)\<rparr> in
      if 0 < rq_msg_len h then
        async_bind (srv_read_exact (length (ts_msg_buf c)) c) (\<lambda>(c, r).
          case r of
            Inl e \<Rightarrow> Fin (c, Err IO)
          | Inr buf \<Rightarrow> Fin (c\<lparr>ts_msg_buf := buf\<rparr>, Ok ()))
      else Fin (c, Ok ()))"

definition srv_read_blob ::
  "(i32 \<Rightarrow> nat option) \<Rightarrow> req_head \<Rightarrow> tcp_server \<Rightarrow> (tcp_server \<times> (bytes option, rpc_int_err) result) async" where
  "srv_read_blob alloc h c =
     (if 0 <s rq_blob_len h then
        (case alloc (rq_blob_len h) of
           None \<Rightarrow> Fin (c, Err Decode)
         | Some n \<Rightarrow>
             async_bind (srv_read_exact n c) (\<lambda>(c, r).
               case r of
                 Inl e \<Rightarrow> Fin (c, Err IO)
               | Inr buf \<Rightarrow> Fin (c, Ok (Some buf))))
      else Fin (c, Ok None))"

text \<open>\<open>read_req\<close>; the request it returns refers to the message buffer.\<close>

definition srv_read_req ::
  "(i32 \<Rightarrow> nat option) \<Rightarrow> bool \<Rightarrow> tcp_server \<Rightarrow> (tcp_server \<times> (rpc_svr_req, rpc_int_err) result) async" where
  "srv_read_req alloc cancel c =
     async_bind (srv_read_head cancel c) (\<lambda>(c, r).
       case r of
         Inl e \<Rightarrow> Fin (c, Err e)
       | Inr req_header_buf \<Rightarrow>
           (case req_decode_head req_header_buf of
              Panic \<Rightarrow> Crash
            | Return (Inl e) \<Rightarrow> Fin (c, Err Decode)
            | Return (Inr h) \<Rightarrow>
                async_bind (srv_read_action h c) (\<lambda>(c, r).
                  case r of
                    Inl e \<Rightarrow> Fin (c, Err e)
                  | Inr action \<Rightarrow>
                      async_bind (srv_read_msg h c) (\<lambda>(c, r).
                        case r of
                          Inl e \<Rightarrow> Fin (c, Err e)
                        | Inr _ \<Rightarrow>
                            async_bind (srv_read_blob alloc h c) (\<lambda>(c, r).
                              case r of
                                Inl e \<Rightarrow> Fin (c, Err e)
                              | Inr blob \<Rightarrow>
                                  Fin (c, Ok \<lparr>sq_seq = rq_seq h, sq_action = action,
                                             sq_msg = ts_msg_buf c, sq_blob = blob\<rparr>))))))"

section \<open>Writing a response\<close>

definition srv_write_all :: "bytes \<Rightarrow> tcp_server \<Rightarrow> (tcp_server \<times> unit io_result) async" where
  "srv_write_all bs c =
     async_bind
       (async_of (io_with_timeout (sc_write_timeout (ts_config c))
          (\<lambda>p. write_all (stream_write p) p (ts_stream c) bs)))
       (\<lambda>(s, r). Fin (c\<lparr>ts_stream := s\<rparr>, r))"

definition srv_write_resp ::
  "('c, 'r) server_encode \<Rightarrow> 'c \<Rightarrow> 'r \<Rightarrow> tcp_server \<Rightarrow> (tcp_server \<times> unit io_result) async" where
  "srv_write_resp enc codec task c =
     (case resp_encode enc codec (ts_encode_buf c) task of
        Panic \<Rightarrow> Crash
      | Return (buf, task, seq, blob_buf) \<Rightarrow>
          async_bind (srv_write_all buf (c\<lparr>ts_encode_buf := buf\<rparr>)) (\<lambda>(c, r).
            case r of
              Inl e \<Rightarrow> Fin (c, Err e)
            | Inr _ \<Rightarrow> (case blob_buf of Some blob \<Rightarrow> srv_write_all blob c | None \<Rightarrow> Fin (c, Ok ()))))"

definition srv_write_resp_internal ::
  "u64 \<Rightarrow> rpc_int_err option \<Rightarrow> tcp_server \<Rightarrow> (tcp_server \<times> unit io_result) async" where
  "srv_write_resp_internal seq err c =
     (case resp_encode_internal (ts_encode_buf c) seq err of
        (buf, seq) \<Rightarrow> srv_write_all buf (c\<lparr>ts_encode_buf := buf\<rparr>))"

definition srv_flush_resp :: "tcp_server \<Rightarrow> (tcp_server \<times> unit io_result) async" where
  "srv_flush_resp c =
     async_bind
       (async_of (io_with_timeout (sc_write_timeout (ts_config c)) (\<lambda>p. stream_flush p (ts_stream c))))
       (\<lambda>(s, r). Fin (c\<lparr>ts_stream := s\<rparr>, r))"

definition srv_close_conn :: "tcp_server \<Rightarrow> tcp_server async" where
  "srv_close_conn c =
     async_bind (srv_flush_resp c) (\<lambda>(c, r). Fin (if is_ok r then c\<lparr>ts_shut := True\<rparr> else c))"

section \<open>Reading what a client wrote\<close>

lemma srv_read_exact_rx:
  assumes "rx (ts_stream c) (a @ b)" "n = length a"
  shows "\<exists>s'. srv_read_exact n c = Fin (c\<lparr>ts_stream := s'\<rparr>, Ok a) \<and> rx s' b"
  using timed_read_exact [OF assms, of "sc_read_timeout (ts_config c)"] by (auto simp: srv_read_exact_def)

lemma srv_read_head_rx:
  assumes "rx (ts_stream c) (req_head_bytes h @ b)"
  shows "\<exists>s'. srv_read_head cancel c = Fin (c\<lparr>ts_stream := s'\<rparr>, Ok (req_head_bytes h)) \<and> rx s' b"
proof -
  obtain s' where "read_exact stream_read (\<not> cancel) (ts_stream c) 32 [] =
      Some (s', Ready (Ok (req_head_bytes h)))" "rx s' b"
    using rx_read_exact [OF assms, of 32] by fastforce
  then show ?thesis by (auto simp: srv_read_head_def)
qed

text \<open>The actions the server can read back: a string action must be UTF-8, as every Rust string is.\<close>

fun action_valid :: "rpc_action \<Rightarrow> bool" where
  "action_valid (Act_Num n) \<longleftrightarrow> True"
| "action_valid (Act_Str s) \<longleftrightarrow> utf8_valid s"

lemma srv_read_action_rx:
  assumes "rx (ts_stream c) (action_bytes a @ b)" "action_ok a" "action_valid a"
  shows "\<exists>c'. srv_read_action (req_head_for cid a seq m blob) c = Fin (c', Ok a) \<and> rx (ts_stream c') b"
proof (cases a)
  case (Act_Num n)
  then show ?thesis using assms by (simp add: srv_read_action_def get_action_for)
next
  case (Act_Str s)
  let ?c = "c\<lparr>ts_action_buf := vec_resize (length s) (ts_action_buf c)\<rparr>"
  have len: "i32_as_usize (of_nat (length s)) = length s"
    using assms(2) Act_Str by (intro i32_as_usize_small) simp
  obtain s' where "srv_read_exact (length s) ?c = Fin (?c\<lparr>ts_stream := s'\<rparr>, Ok s)" "rx s' b"
    using srv_read_exact_rx [of ?c s b "length s"] assms(1) Act_Str by auto
  with Act_Str assms(2,3) len show ?thesis
    by (auto simp: srv_read_action_def get_action_for Let_def from_utf8_def)
qed

lemma srv_read_msg_rx:
  assumes "rx (ts_stream c) (m @ b)" "length m \<le> u32_MAX" "rq_msg_len h = of_nat (length m)"
  shows "\<exists>c'. srv_read_msg h c = Fin (c', Ok ()) \<and> rx (ts_stream c') b \<and> ts_msg_buf c' = m"
proof -
  let ?c = "c\<lparr>ts_msg_buf := vec_resize (length m) (ts_msg_buf c)\<rparr>"
  have len: "unat (rq_msg_len h) = length m" using assms(2,3) by (simp add: unat_of_nat_u32)
  obtain s' where "srv_read_exact (length m) ?c = Fin (?c\<lparr>ts_stream := s'\<rparr>, Ok m)" "rx s' b"
    using srv_read_exact_rx [of ?c m b "length m"] assms(1) by auto
  then show ?thesis
    using assms len msg_len_pos [OF assms(2)]
    by (cases "m = []") (auto simp: srv_read_msg_def Let_def vec_resize_def [of 0])
qed

text \<open>An empty blob is not told apart from none.\<close>

definition some_blob :: "bytes \<Rightarrow> bytes option" where
  "some_blob bs = (if bs = [] then None else Some bs)"

lemma srv_read_blob_rx:
  assumes "rx (ts_stream c) (x @ b)" "length x \<le> i32_MAX" "alloc_ok alloc" "rq_blob_len h = of_nat (length x)"
  shows "\<exists>s'. srv_read_blob alloc h c = Fin (c\<lparr>ts_stream := s'\<rparr>, Ok (some_blob x)) \<and> rx s' b"
proof (cases "x = []")
  case True
  then show ?thesis using assms by (auto simp: srv_read_blob_def some_blob_def intro!: exI [of _ "ts_stream c"])
next
  case False
  then have "0 <s (of_nat (length x) :: i32)" "alloc (of_nat (length x)) = Some (length x)"
    using assms(2,3) by (simp_all add: blob_len_pos alloc_ok_def)
  with False assms(4) srv_read_exact_rx [OF assms(1) refl] show ?thesis
    by (auto simp: srv_read_blob_def some_blob_def)
qed

lemma srv_read_req_rx:
  assumes "rx (ts_stream c) (req_wire cid seq a m b @ rest)" "req_fits a m b" "action_valid a" "alloc_ok alloc"
  shows "\<exists>c'. srv_read_req alloc cancel c =
      Fin (c', Ok \<lparr>sq_seq = seq, sq_action = a, sq_msg = m, sq_blob = some_blob (blob_bytes b)\<rparr>) \<and>
    rx (ts_stream c') rest"
proof -
  let ?h = "req_head_for cid a seq m b"
  have fits: "action_ok a" "length m \<le> u32_MAX" "length (blob_bytes b) \<le> i32_MAX"
    using assms(2) by (simp_all add: req_fits_def)
  obtain s1 where 1: "srv_read_head cancel c = Fin (c\<lparr>ts_stream := s1\<rparr>, Ok (req_head_bytes ?h))"
    "rx s1 (action_bytes a @ m @ blob_bytes b @ rest)"
    using srv_read_head_rx [of c ?h] assms(1) by (auto simp: req_wire_def)
  obtain c2 where 2: "srv_read_action ?h (c\<lparr>ts_stream := s1\<rparr>) = Fin (c2, Ok a)"
    "rx (ts_stream c2) (m @ blob_bytes b @ rest)"
    using srv_read_action_rx [of "c\<lparr>ts_stream := s1\<rparr>" a "m @ blob_bytes b @ rest" cid seq m b]
      1(2) fits(1) assms(3) by auto
  obtain c3 where 3: "srv_read_msg ?h c2 = Fin (c3, Ok ())" "rx (ts_stream c3) (blob_bytes b @ rest)"
    "ts_msg_buf c3 = m"
    using srv_read_msg_rx [OF 2(2) fits(2), of ?h] by (auto simp: req_head_for_def)
  obtain s4 where 4: "srv_read_blob alloc ?h c3 = Fin (c3\<lparr>ts_stream := s4\<rparr>, Ok (some_blob (blob_bytes b)))"
    "rx s4 rest"
    using srv_read_blob_rx [OF 3(2) fits(3) assms(4) req_head_for_blob [OF fits(3)]] by blast
  from 1 2 3 4 show ?thesis by (auto simp: srv_read_req_def req_decode_head_bytes)
qed

section \<open>Reading whatever the peer sends\<close>

text \<open>Every stage returns, without a panic, and only consumes input.\<close>

definition returns_keeping :: "buf_stream \<Rightarrow> (tcp_server \<times> 'a) async \<Rightarrow> bool" where
  "returns_keeping s a \<longleftrightarrow> (\<exists>c r. a = Fin (c, r) \<and> keeps_out s (ts_stream c))"

lemma returns_keeping_Fin [simp]: "returns_keeping s (Fin (c, r)) \<longleftrightarrow> keeps_out s (ts_stream c)"
  by (simp add: returns_keeping_def)

lemma returns_keeping_bind:
  assumes "returns_keeping s a" "\<And>c r. keeps_out s (ts_stream c) \<Longrightarrow> returns_keeping s (f (c, r))"
  shows "returns_keeping s (async_bind a f)"
  using assms by (auto simp: returns_keeping_def [of s a])

lemma srv_read_exact_keeps:
  "keeps_out s (ts_stream c) \<Longrightarrow> returns_keeping s (srv_read_exact n c)"
  using timed_read_keeps [of s "ts_stream c" "sc_read_timeout (ts_config c)" n]
  by (auto simp: srv_read_exact_def)

lemma srv_read_head_keeps:
  assumes "keeps_out s (ts_stream c)"
  shows "returns_keeping s (srv_read_head cancel c)"
proof -
  obtain s' r where "read_exact stream_read (\<not> cancel) (ts_stream c) 32 [] = Some (s', r)" "keeps_out s s'"
    "\<not> cancel \<longrightarrow> r \<noteq> Pending"
    using read_exact_keeps [OF assms] by blast
  then show ?thesis
    by (cases r; cases cancel) (auto simp: srv_read_head_def split: sum.split)
qed

text \<open>The header that was read has 32 bytes.\<close>

lemma srv_read_head_length:
  assumes "stream_inv (ts_stream c)" "srv_read_head cancel c = Fin (c', Ok buf)"
  shows "length buf = 32"
proof -
  obtain s' r where e: "read_exact stream_read (\<not> cancel) (ts_stream c) 32 [] = Some (s', r)"
    and post: "buffered.read_post (\<not> cancel) (ts_stream c) 32 [] s' r"
    using buffered.read_exact_returns [OF assms(1)] by blast
  from assms(2) e have "r = Ready (Ok buf)"
    by (cases r; cases cancel) (auto simp: srv_read_head_def split: sum.splits)
  with post show ?thesis by (auto simp: buffered.read_post_def)
qed

lemma srv_read_parts_keep:
  assumes "keeps_out s (ts_stream c)"
  shows "returns_keeping s (srv_read_action h c)" "returns_keeping s (srv_read_msg h c)"
    "returns_keeping s (srv_read_blob alloc h c)"
  using assms
  by (auto simp: srv_read_action_def srv_read_msg_def srv_read_blob_def Let_def
      intro!: returns_keeping_bind srv_read_exact_keeps split: sum.split option.split)

lemma srv_read_req_keeps:
  assumes "stream_inv (ts_stream c)"
  shows "returns_keeping (ts_stream c) (srv_read_req alloc cancel c)"
proof -
  let ?s = "ts_stream c"
  obtain c1 r1 where 1: "srv_read_head cancel c = Fin (c1, r1)" "keeps_out ?s (ts_stream c1)"
    using srv_read_head_keeps [OF keeps_out_refl [OF assms], of cancel] by (auto simp: returns_keeping_def)
  have dec: "req_decode_head buf \<noteq> Panic" if "r1 = Ok buf" for buf
    using srv_read_head_length [OF assms] 1(1) that by (simp add: req_decode_head_def req_head_ref_def)
  show ?thesis
    using 1 dec
    by (auto simp: srv_read_req_def split: sum.split outcome.split
        intro!: returns_keeping_bind srv_read_parts_keep)
qed

text \<open>At the end of the stream there is no request.\<close>

lemma srv_read_req_eof:
  assumes "stream_inv (ts_stream c)" "stream_rest (ts_stream c) = []"
  shows "\<exists>c' e. srv_read_req alloc cancel c = Fin (c', Err e) \<and> keeps_out (ts_stream c) (ts_stream c')"
proof -
  obtain s' r where e: "read_exact stream_read (\<not> cancel) (ts_stream c) 32 [] = Some (s', r)"
    and post: "buffered.read_post (\<not> cancel) (ts_stream c) 32 [] s' r"
    using buffered.read_exact_returns [OF assms(1)] by blast
  have "False" if ok: "r = Ready (Ok bs)" for bs
  proof -
    obtain d where "length d = 32" "stream_rest (ts_stream c) = d @ stream_rest s'"
      using post ok unfolding buffered.read_post_def by blast
    with assms(2) show False by simp
  qed
  moreover have "r = Pending \<Longrightarrow> cancel" using post by (simp add: buffered.read_post_def)
  ultimately consider "r = Pending" "cancel" | err where "r = Ready (Err err)"
    by (metis poll.exhaust sum.exhaust)
  then have "\<exists>c' err. srv_read_head cancel c = Fin (c', Err err)"
    using e by cases (simp_all add: srv_read_head_def)
  then have "\<exists>c' err. srv_read_req alloc cancel c = Fin (c', Err err)" by (auto simp: srv_read_req_def)
  then show ?thesis using srv_read_req_keeps [OF assms(1), of alloc cancel] by auto
qed

section \<open>Writing to the client\<close>

definition srv_tx :: "tcp_server \<Rightarrow> bytes" where
  "srv_tx c = stream_out (ts_stream c)"

lemma srv_write_all_returns:
  assumes "stream_inv (ts_stream c)"
  shows "\<exists>s' r. srv_write_all bs c = Fin (c\<lparr>ts_stream := s'\<rparr>, r) \<and> stream_inv s' \<and>
    (r = Ok () \<longrightarrow> stream_out s' = srv_tx c @ bs)"
  using timed_write_all [OF assms, of "sc_write_timeout (ts_config c)" bs]
  by (auto simp: srv_write_all_def srv_tx_def)

lemma srv_flush_returns:
  assumes "stream_inv (ts_stream c)"
  shows "\<exists>s' r. srv_flush_resp c = Fin (c\<lparr>ts_stream := s'\<rparr>, r) \<and> stream_inv s' \<and>
    (r = Ok () \<longrightarrow> stream_out s' = srv_tx c \<and> sk_out (bs_out s') = srv_tx c)"
  using timed_flush [OF assms, of "sc_write_timeout (ts_config c)"]
  by (auto simp: srv_flush_resp_def srv_tx_def)

lemma srv_write_all_willing:
  assumes "willing (ts_stream c)"
  shows "\<exists>s'. srv_write_all bs c = Fin (c\<lparr>ts_stream := s'\<rparr>, Ok ()) \<and> willing s' \<and>
    stream_out s' = srv_tx c @ bs"
  using timed_write_all_willing [OF assms, of "sc_write_timeout (ts_config c)" bs]
  by (auto simp: srv_write_all_def srv_tx_def)

lemma srv_flush_willing:
  assumes "willing (ts_stream c)"
  shows "\<exists>s'. srv_flush_resp c = Fin (c\<lparr>ts_stream := s'\<rparr>, Ok ()) \<and> willing s' \<and>
    stream_out s' = srv_tx c \<and> sk_out (bs_out s') = srv_tx c"
  using timed_flush_willing [OF assms, of "sc_write_timeout (ts_config c)"]
  by (auto simp: srv_flush_resp_def srv_tx_def)

lemma srv_write_internal_returns:
  assumes "stream_inv (ts_stream c)"
  shows "\<exists>c' r. srv_write_resp_internal seq err c = Fin (c', r) \<and> stream_inv (ts_stream c') \<and>
    (r = Ok () \<longrightarrow> srv_tx c' = srv_tx c @ resp_wire seq
       (case err of None \<Rightarrow> Resp_Ok [] None | Some e \<Rightarrow> Resp_Err (Enc_Rpc e)))"
proof -
  let ?b = "fst (resp_encode_internal (ts_encode_buf c) seq err)"
  have "?b = resp_wire seq (case err of None \<Rightarrow> Resp_Ok [] None | Some e \<Rightarrow> Resp_Err (Enc_Rpc e))"
    by (simp add: resp_encode_internal_eq blob_bytes_def err_body_def split: option.split)
  moreover obtain s' r where "srv_write_all ?b (c\<lparr>ts_encode_buf := ?b\<rparr>) =
      Fin (c\<lparr>ts_encode_buf := ?b, ts_stream := s'\<rparr>, r)" "stream_inv s'"
      "r = Ok () \<longrightarrow> stream_out s' = srv_tx c @ ?b"
    using srv_write_all_returns [of "c\<lparr>ts_encode_buf := ?b\<rparr>" ?b] assms by (auto simp: srv_tx_def)
  ultimately show ?thesis
    by (auto simp: srv_write_resp_internal_def srv_tx_def split: prod.split)
qed

lemma srv_write_internal_willing:
  assumes "willing (ts_stream c)"
  shows "\<exists>c'. srv_write_resp_internal seq err c = Fin (c', Ok ()) \<and> willing (ts_stream c')"
proof -
  obtain buf s where e: "resp_encode_internal (ts_encode_buf c) seq err = (buf, s)" by fastforce
  show ?thesis
    using srv_write_all_willing [of "c\<lparr>ts_encode_buf := buf\<rparr>" buf] assms e
    by (auto simp: srv_write_resp_internal_def)
qed

context server_task
begin

text \<open>Writing the response of a task always returns; when it succeeds the connection has its bytes.\<close>

lemma write_resp_returns:
  assumes "stream_inv (ts_stream c)" "answer t = Some r" "resp_fits r"
  shows "\<exists>c' q. srv_write_resp enc codec t c = Fin (c', q) \<and> stream_inv (ts_stream c') \<and>
    (q = Ok () \<longrightarrow> srv_tx c' = srv_tx c @ resp_wire (seq_of t) r)"
proof -
  obtain wire t' blob where e: "resp_encode enc codec (ts_encode_buf c) t = Return (wire, t', seq_of t, blob)"
    "wire @ blob_bytes blob = resp_wire (seq_of t) r"
    using resp_encode_answer [OF assms(2,3)] by blast
  let ?c = "c\<lparr>ts_encode_buf := wire\<rparr>"
  obtain s1 r1 where 1: "srv_write_all wire ?c = Fin (?c\<lparr>ts_stream := s1\<rparr>, r1)" "stream_inv s1"
    "r1 = Ok () \<longrightarrow> stream_out s1 = srv_tx c @ wire"
    using srv_write_all_returns [of ?c wire] assms(1) by (auto simp: srv_tx_def)
  show ?thesis
  proof (cases blob)
    case None
    with 1 e show ?thesis by (cases r1) (auto simp: srv_write_resp_def srv_tx_def blob_bytes_def)
  next
    case (Some b)
    obtain s2 r2 where "srv_write_all b (?c\<lparr>ts_stream := s1\<rparr>) = Fin (?c\<lparr>ts_stream := s1, ts_stream := s2\<rparr>, r2)"
      "stream_inv s2" "r2 = Ok () \<longrightarrow> stream_out s2 = stream_out s1 @ b"
      using srv_write_all_returns [of "?c\<lparr>ts_stream := s1\<rparr>" b] 1(2) by (auto simp: srv_tx_def)
    with 1 e Some show ?thesis by (cases r1) (auto simp: srv_write_resp_def srv_tx_def blob_bytes_def)
  qed
qed

lemma write_resp_willing:
  assumes "willing (ts_stream c)" "answer t = Some r" "resp_fits r"
  shows "\<exists>c'. srv_write_resp enc codec t c = Fin (c', Ok ()) \<and> willing (ts_stream c') \<and>
    srv_tx c' = srv_tx c @ resp_wire (seq_of t) r"
proof -
  obtain wire t' blob where e: "resp_encode enc codec (ts_encode_buf c) t = Return (wire, t', seq_of t, blob)"
    "wire @ blob_bytes blob = resp_wire (seq_of t) r"
    using resp_encode_answer [OF assms(2,3)] by blast
  let ?c = "c\<lparr>ts_encode_buf := wire\<rparr>"
  obtain s1 where 1: "srv_write_all wire ?c = Fin (?c\<lparr>ts_stream := s1\<rparr>, Ok ())" "willing s1"
    "stream_out s1 = srv_tx c @ wire"
    using srv_write_all_willing [of ?c wire] assms(1) by (auto simp: srv_tx_def)
  show ?thesis
  proof (cases blob)
    case None
    with 1 e show ?thesis by (auto simp: srv_write_resp_def srv_tx_def blob_bytes_def)
  next
    case (Some b)
    obtain s2 where "srv_write_all b (?c\<lparr>ts_stream := s1\<rparr>) = Fin (?c\<lparr>ts_stream := s1, ts_stream := s2\<rparr>, Ok ())"
      "willing s2" "stream_out s2 = stream_out s1 @ b"
      using srv_write_all_willing [of "?c\<lparr>ts_stream := s1\<rparr>" b] 1(2) by (auto simp: srv_tx_def)
    with 1 e Some show ?thesis by (auto simp: srv_write_resp_def srv_tx_def blob_bytes_def)
  qed
qed

end

section \<open>Writing leaves the read side alone\<close>

lemma srv_write_all_keeps:
  "keeps_in s0 (ts_stream c) \<Longrightarrow> async_post (\<lambda>(c', r). keeps_in s0 (ts_stream c')) (srv_write_all bs c)"
  using timed_write_keeps [of s0 "ts_stream c" "sc_write_timeout (ts_config c)" bs] by (auto simp: srv_write_all_def)

lemma srv_flush_keeps:
  "keeps_in s0 (ts_stream c) \<Longrightarrow> async_post (\<lambda>(c', r). keeps_in s0 (ts_stream c')) (srv_flush_resp c)"
  using timed_flush_keeps [of s0 "ts_stream c" "sc_write_timeout (ts_config c)"] by (auto simp: srv_flush_resp_def)

lemma srv_write_resp_keeps:
  assumes "keeps_in s0 (ts_stream c)"
  shows "async_post (\<lambda>(c', r). keeps_in s0 (ts_stream c')) (srv_write_resp enc codec t c)"
proof (cases "resp_encode enc codec (ts_encode_buf c) t")
  case (Return x)
  obtain buf t' seq blob where x: "x = (buf, t', seq, blob)" by (cases x)
  have 1: "async_post (\<lambda>(c', r). keeps_in s0 (ts_stream c')) (srv_write_all buf (c\<lparr>ts_encode_buf := buf\<rparr>))"
    by (rule srv_write_all_keeps) (use assms in simp)
  show ?thesis
    unfolding srv_write_resp_def Return x outcome.case prod.case
    by (rule async_post_bind [OF 1]) (auto split: sum.split option.split intro: srv_write_all_keeps)
qed (simp add: srv_write_resp_def)

lemma new_conn_rx:
  assumes "tcp_new_conn inp out config = Return k" "all_data inp"
  shows "rx (ts_stream k) (script_data inp)"
  using assms buf_stream_new_inv by (fastforce simp: tcp_new_conn_def Let_def rx_def split: outcome.splits)

section \<open>Properties\<close>

text \<open>
  C15: on a connection that delivers an encoded request, the server reads exactly that request: the
  client's sequence number, action, message and blob (an empty blob counts as none), leaving the
  stream at the next request, whatever the reused buffers held before and whether or not the
  connection is being closed.
\<close>

theorem read_req_roundtrip:
  assumes "client_task ct msg" and "req_encode ct codec buf cid t = (wire, Ok blob)"
    and "action_ok (ct_get_action ct t)" and "action_valid (ct_get_action ct t)"
    and "rx (ts_stream c) (wire @ blob_bytes blob @ rest)" and "alloc_ok alloc"
  shows "\<exists>c'. srv_read_req alloc cancel c =
      Fin (c', Ok \<lparr>sq_seq = ct_seq ct t, sq_action = ct_get_action ct t, sq_msg = msg codec t,
                   sq_blob = some_blob (blob_bytes (ct_get_req_blob ct t))\<rparr>) \<and>
    rx (ts_stream c') rest"
proof -
  note w = client_task.req_encode_Ok [OF assms(1,2)]
  have "rx (ts_stream c) (req_wire cid (ct_seq ct t) (ct_get_action ct t) (msg codec t) blob @ rest)"
    using client_task.req_encode_wire [OF assms(1,2)] assms(5) by (metis append.assoc)
  moreover have "req_fits (ct_get_action ct t) (msg codec t) blob"
    using w assms(3) by (auto simp: req_fits_def blob_bytes_def split: option.split)
  ultimately show ?thesis using srv_read_req_rx assms(4,6) w by metis
qed

definition fresh_server :: "bytes \<Rightarrow> tcp_server" where
  "fresh_server bs = \<lparr>ts_stream = fresh_stream bs, ts_config = server_config_default, ts_action_buf = [9, 9],
     ts_msg_buf = [7], ts_encode_buf = [], ts_shut = False\<rparr>"

theorem read_req_roundtrip_witness:
  "\<exists>wire c'. req_encode uapi_ops () [] 5 (sample_task 7) = (wire, Ok None) \<and>
     srv_read_req (\<lambda>n. Some (unat n)) False (fresh_server wire) =
       Fin (c', Ok \<lparr>sq_seq = 7, sq_action = Act_Str (str ''Svc.add''), sq_msg = [1, 2, 3], sq_blob = None\<rparr>)"
proof -
  obtain wire where w: "req_encode uapi_ops () [] 5 (sample_task 7) = (wire, Ok None)"
    by (simp add: req_encode_def api_defs sample_task_def Let_def)
  have ok: "action_ok (ct_get_action uapi_ops (sample_task 7))" "action_valid (ct_get_action uapi_ops (sample_task 7))"
    by (simp_all add: api_defs sample_task_def str_def)
  have "wire \<noteq> []" using api.req_encode_Ok [OF w] by (auto simp: req_head_bytes_def)
  then have "rx (ts_stream (fresh_server wire)) (wire @ blob_bytes None @ [])"
    using rx_fresh by (simp add: fresh_server_def blob_bytes_def)
  from read_req_roundtrip [OF api.client_task_axioms w ok this alloc_ok_unat, of False] w show ?thesis
    by (auto simp: api_defs sample_task_def ct_seq_def common_seq_def some_blob_def blob_bytes_def)
qed

text \<open>
  C25: whatever the peer sends, and however the socket fails or stalls, reading a request returns with
  a request or an error; it never panics, keeps the connection's buffers well-formed and does not
  touch what is being written to the client.
\<close>

theorem read_req_total:
  assumes "stream_inv (ts_stream c)"
  shows "\<exists>c' r. srv_read_req alloc cancel c = Fin (c', r) \<and> stream_inv (ts_stream c') \<and> srv_tx c' = srv_tx c"
  using srv_read_req_keeps [OF assms, of alloc cancel]
  by (auto simp: returns_keeping_def srv_tx_def keeps_out_stream_out) (auto simp: keeps_out_def)

theorem read_req_total_witness:
  "\<exists>c' r. srv_read_req (\<lambda>n. None) True (fresh_server [255, 0, 255]) = Fin (c', r) \<and> srv_tx c' = []"
proof -
  have "stream_inv (ts_stream (fresh_server [255, 0, 255]))"
    using rx_fresh [of "[255, 0, 255]"] by (simp add: fresh_server_def rx_def)
  from read_req_total [OF this, of "\<lambda>n. None" True] show ?thesis
    by (auto simp: srv_tx_def fresh_server_def fresh_stream_def stream_out_def buf_out_def)
qed

end
