(* ===== verification/Rpc_Net.thy ===== *)
theory Rpc_Net
  imports Rpc_Buf_Io
begin

text \<open>
  Addresses and listeners of the TCP transport, \<open>transport/tcp/src/net.rs\<close>. The parsers and the
  resolver of the standard library and the calls into the operating system are parameters: a
  system call is named by its arguments and either succeeds or fails.
\<close>

section \<open>UnifyAddr\<close>

datatype 'addr unify_addr = Addr_Socket 'addr | Addr_Path rust_str

text \<open>
  \<open>parse\<close> is \<open>str::parse::<SocketAddr>\<close>, \<open>resolve\<close> is \<open>to_socket_addrs\<close>. The first byte is read by
  indexing, which panics on the empty string.
\<close>

definition unify_addr_from_str ::
  "(rust_str \<Rightarrow> 'addr option) \<Rightarrow> (rust_str \<Rightarrow> 'addr list option) \<Rightarrow> rust_str \<Rightarrow>
   'addr unify_addr option outcome" where
  "unify_addr_from_str parse resolve s =
     (if s = [] then Panic
      else if s ! 0 = 0x2F then Return (Some (Addr_Path s))
      else
        (case parse s of
           Some a \<Rightarrow> Return (Some (Addr_Socket a))
         | None \<Rightarrow>
             (case resolve s of
                Some (a # _) \<Rightarrow> Return (Some (Addr_Socket a))
              | Some [] \<Rightarrow> Return None
              | None \<Rightarrow> Return None)))"

text \<open>
  Paths are compared by their components: repeated separators, a trailing separator and interior
  dots do not count (\<open>std::path::Path\<close>).
\<close>

fun split_at :: "byte \<Rightarrow> bytes \<Rightarrow> bytes list" where
  "split_at c [] = [[]]"
| "split_at c (b # bs) =
     (if b = c then [] # split_at c bs
      else (case split_at c bs of x # xs \<Rightarrow> (b # x) # xs | [] \<Rightarrow> [[b]]))"

definition path_components :: "rust_str \<Rightarrow> bool \<times> bool \<times> bytes list" where
  "path_components p =
     (p \<noteq> [] \<and> hd p = 0x2F, hd (split_at 0x2F p) = [0x2E],
      filter (\<lambda>c. c \<noteq> [] \<and> c \<noteq> [0x2E]) (split_at 0x2F p))"

text \<open>Comparison with a string: a socket address, or a bare IP address (\<open>parse_ip\<close>, \<open>ip\<close>).\<close>

definition unify_addr_eq_str ::
  "(rust_str \<Rightarrow> 'addr option) \<Rightarrow> (rust_str \<Rightarrow> 'ip option) \<Rightarrow> ('addr \<Rightarrow> 'ip) \<Rightarrow>
   'addr unify_addr \<Rightarrow> rust_str \<Rightarrow> bool" where
  "unify_addr_eq_str parse parse_ip ip a other =
     (case a of
        Addr_Socket s \<Rightarrow>
          (case parse other of
             Some addr \<Rightarrow> s = addr
           | None \<Rightarrow> (case parse_ip other of Some addr \<Rightarrow> ip s = addr | None \<Rightarrow> False))
      | Addr_Path p \<Rightarrow> path_components p = path_components other)"

section \<open>UnifyListener\<close>

text \<open>The system calls of \<open>bind\<close>, and the files that exist.\<close>

datatype 'addr os_call =
  Bind_Tcp 'addr | Remove_File rust_str | Bind_Unix rust_str | Hard_Link rust_str rust_str
| Set_Permissions rust_str nat | Set_Nonblocking | To_Async_Fd

datatype 'addr unify_listener = Listener_Tcp 'addr | Listener_Unix rust_str

type_synonym files = "rust_str list"

definition listener_from_raw ::
  "('addr os_call \<Rightarrow> bool) \<Rightarrow> 'addr unify_listener \<Rightarrow> 'addr unify_listener option" where
  "listener_from_raw os l = (if os Set_Nonblocking \<and> os To_Async_Fd then Some l else None)"

text \<open>\<open>if path.exists() { fs::remove_file(path)? }\<close>\<close>

definition remove_if_exists :: "('addr os_call \<Rightarrow> bool) \<Rightarrow> rust_str \<Rightarrow> files \<Rightarrow> files option" where
  "remove_if_exists os p fs =
     (if p \<in> set fs then (if os (Remove_File p) then Some (removeAll p fs) else None) else Some fs)"

definition dup_path :: "rust_str \<Rightarrow> rust_str" where
  "dup_path p = p @ str ''_dup''"

definition bind_unix ::
  "('addr os_call \<Rightarrow> bool) \<Rightarrow> rust_str \<Rightarrow> files \<Rightarrow> files \<times> 'addr unify_listener option" where
  "bind_unix os path fs =
     (case remove_if_exists os path fs of
        None \<Rightarrow> (fs, None)
      | Some fs \<Rightarrow>
          (case remove_if_exists os (dup_path path) fs of
             None \<Rightarrow> (fs, None)
           | Some fs \<Rightarrow>
               (if os (Bind_Unix (dup_path path)) then
                  (let fs = dup_path path # fs in
                   if \<not> os (Hard_Link (dup_path path) path) then (fs, None)
                   else
                     (let fs = path # fs in
                      if \<not> os (Set_Permissions path 438) then (fs, None)
                      else (fs, listener_from_raw os (Listener_Unix (dup_path path)))))
                else (fs, None))))"

definition listener_bind ::
  "(rust_str \<Rightarrow> 'addr option) \<Rightarrow> (rust_str \<Rightarrow> 'addr list option) \<Rightarrow> ('addr os_call \<Rightarrow> bool) \<Rightarrow>
   rust_str \<Rightarrow> files \<Rightarrow> (files \<times> 'addr unify_listener option) outcome" where
  "listener_bind parse resolve os addr fs =
     (case unify_addr_from_str parse resolve addr of
        Panic \<Rightarrow> Panic
      | Return None \<Rightarrow> Return (fs, None)
      | Return (Some (Addr_Socket a)) \<Rightarrow>
          Return (fs, if os (Bind_Tcp a) then listener_from_raw os (Listener_Tcp a) else None)
      | Return (Some (Addr_Path p)) \<Rightarrow> Return (bind_unix os p fs))"

text \<open>\<open>try_from_raw_fd\<close>: the address decides the kind of the listener that wraps the descriptor.\<close>

definition try_from_raw_fd ::
  "(rust_str \<Rightarrow> 'addr option) \<Rightarrow> (rust_str \<Rightarrow> 'addr list option) \<Rightarrow> ('addr os_call \<Rightarrow> bool) \<Rightarrow>
   rust_str \<Rightarrow> 'addr unify_listener option outcome" where
  "try_from_raw_fd parse resolve os addr =
     (case unify_addr_from_str parse resolve addr of
        Panic \<Rightarrow> Panic
      | Return None \<Rightarrow> Return None
      | Return (Some (Addr_Socket a)) \<Rightarrow> Return (listener_from_raw os (Listener_Tcp a))
      | Return (Some (Addr_Path p)) \<Rightarrow> Return (listener_from_raw os (Listener_Unix p)))"

text \<open>
  The name of a socket (\<open>getsockname\<close>): an address, or a path, which an unnamed Unix socket does not
  have and whose absence is unwrapped. \<open>show\<close> is the formatting of a socket address.
\<close>

definition listener_local_addr ::
  "('addr \<Rightarrow> rust_str) \<Rightarrow> 'addr io_result \<Rightarrow> rust_str option io_result \<Rightarrow> 'addr unify_listener \<Rightarrow>
   rust_str io_result outcome" where
  "listener_local_addr show inet_name unix_name l =
     (case l of
        Listener_Tcp _ \<Rightarrow> (case inet_name of Inl e \<Rightarrow> Return (Err e) | Inr a \<Rightarrow> Return (Ok (show a)))
      | Listener_Unix _ \<Rightarrow>
          (case unix_name of
             Inl e \<Rightarrow> Return (Err e)
           | Inr (Some p) \<Rightarrow> Return (Ok p)
           | Inr None \<Rightarrow> Panic))"

definition listener_debug ::
  "('addr \<Rightarrow> rust_str) \<Rightarrow> 'addr io_result \<Rightarrow> rust_str option io_result \<Rightarrow> 'addr unify_listener \<Rightarrow> rust_str outcome" where
  "listener_debug show inet_name unix_name l =
     (case l of
        Listener_Tcp _ \<Rightarrow>
          (case inet_name of
             Inr a \<Rightarrow> Return (str ''listener '' @ show a)
           | Inl _ \<Rightarrow> Return (str ''tcp listener unknown''))
      | Listener_Unix _ \<Rightarrow>
          (case unix_name of
             Inr (Some p) \<Rightarrow> Return (str ''listener '' @ p)
           | Inr None \<Rightarrow> Panic
           | Inl _ \<Rightarrow> Return (str ''unix listener unknown'')))"

section \<open>UnifyStream\<close>

text \<open>A connected socket of either kind; \<open>'fd\<close> is the runtime's \<open>AsyncFd\<close>.\<close>

datatype 'fd unify_stream = Stream_Tcp 'fd | Stream_Unix 'fd

primrec stream_fd :: "'fd unify_stream \<Rightarrow> 'fd" where
  "stream_fd (Stream_Tcp fd) = fd"
| "stream_fd (Stream_Unix fd) = fd"

text \<open>
  \<open>accept\<close>: \<open>accepted\<close> is what the system call gives; a socket that cannot be made non-blocking is a
  panic (\<open>expect\<close>), one that the runtime does not take an error.
\<close>

definition listener_accept ::
  "'raw io_result \<Rightarrow> ('raw \<Rightarrow> bool) \<Rightarrow> ('raw \<Rightarrow> 'fd io_result) \<Rightarrow> 'addr unify_listener \<Rightarrow>
   'fd unify_stream io_result outcome" where
  "listener_accept accepted set_nonblocking to_async_fd_rw l =
     (case accepted of
        Inl e \<Rightarrow> Return (Err e)
      | Inr raw \<Rightarrow>
          (if \<not> set_nonblocking raw then Panic
           else
             (case to_async_fd_rw raw of
                Inl e \<Rightarrow> Return (Err e)
              | Inr fd \<Rightarrow>
                  Return (Ok (case l of Listener_Tcp _ \<Rightarrow> Stream_Tcp fd | Listener_Unix _ \<Rightarrow> Stream_Unix fd)))))"

text \<open>Reading, writing and shutting down are the same calls for both kinds.\<close>

definition unify_read :: "('fd \<Rightarrow> nat \<Rightarrow> 'a) \<Rightarrow> 'fd unify_stream \<Rightarrow> nat \<Rightarrow> 'a" where
  "unify_read async_read s len =
     (case s of Stream_Tcp fd \<Rightarrow> async_read fd len | Stream_Unix fd \<Rightarrow> async_read fd len)"

definition unify_write :: "('fd \<Rightarrow> bytes \<Rightarrow> 'a) \<Rightarrow> 'fd unify_stream \<Rightarrow> bytes \<Rightarrow> 'a" where
  "unify_write async_write s buf =
     (case s of Stream_Tcp fd \<Rightarrow> async_write fd buf | Stream_Unix fd \<Rightarrow> async_write fd buf)"

definition shutdown_write :: "('fd \<Rightarrow> unit io_result) \<Rightarrow> 'fd unify_stream \<Rightarrow> unit io_result" where
  "shutdown_write shutdown s = (case s of Stream_Tcp fd \<Rightarrow> shutdown fd | Stream_Unix fd \<Rightarrow> shutdown fd)"

definition peer_addr :: "('fd \<Rightarrow> 'addr io_result) \<Rightarrow> 'fd unify_stream \<Rightarrow> 'addr io_result" where
  "peer_addr peer s = (case s of Stream_Tcp fd \<Rightarrow> peer fd | Stream_Unix _ \<Rightarrow> Err AddrNotAvailable)"

definition unify_stream_debug ::
  "('addr \<Rightarrow> rust_str) \<Rightarrow> ('fd \<Rightarrow> 'addr io_result) \<Rightarrow> ('fd \<Rightarrow> 'addr io_result) \<Rightarrow> ('fd \<Rightarrow> rust_str option io_result) \<Rightarrow>
   'fd unify_stream \<Rightarrow> rust_str outcome" where
  "unify_stream_debug show name peer path s =
     (case s of
        Stream_Tcp fd \<Rightarrow>
          (case name fd of
             Inr a \<Rightarrow>
               (case peer fd of
                  Inr b \<Rightarrow> Return (show a @ str ''->'' @ show b)
                | Inl _ \<Rightarrow> Return (show a))
           | Inl _ \<Rightarrow> Return (str ''tcp addr unknown''))
      | Stream_Unix fd \<Rightarrow>
          (case path fd of
             Inr (Some p) \<Rightarrow> Return p
           | Inr None \<Rightarrow> Panic
           | Inl _ \<Rightarrow> Return (str ''unixsocket addr unknown'')))"

text \<open>\<open>Display\<close> and \<open>Debug\<close> of an address.\<close>

definition unify_addr_display :: "('addr \<Rightarrow> rust_str) \<Rightarrow> 'addr unify_addr \<Rightarrow> rust_str" where
  "unify_addr_display show a = (case a of Addr_Socket s \<Rightarrow> show s | Addr_Path p \<Rightarrow> p)"

section \<open>Properties\<close>

text \<open>
  Printing an address and parsing it again gives the same address, when the standard library's
  printing and parsing of socket addresses agree and no printed socket address starts with a slash.
\<close>

lemma unify_addr_roundtrip:
  assumes "\<forall>s. parse (show s) = Some s \<and> show s \<noteq> [] \<and> hd (show s) \<noteq> 0x2F"
    and "case a of Addr_Path p \<Rightarrow> p \<noteq> [] \<and> hd p = 0x2F | _ \<Rightarrow> True"
  shows "unify_addr_from_str parse resolve (unify_addr_display show a) = Return (Some a)"
proof (cases a)
  case (Addr_Socket s)
  then have "show s ! 0 \<noteq> 0x2F" using assms(1) by (metis hd_conv_nth)
  with Addr_Socket assms(1) show ?thesis by (simp add: unify_addr_from_str_def unify_addr_display_def)
next
  case (Addr_Path p)
  then have "p ! 0 = 0x2F" "p \<noteq> []" using assms(2) by (simp_all flip: hd_conv_nth)
  with Addr_Path show ?thesis by (simp add: unify_addr_from_str_def unify_addr_display_def)
qed

lemma remove_if_exists_Some:
  "remove_if_exists os p fs = Some fs' \<Longrightarrow> set fs' = set fs - {p}"
  by (auto simp: remove_if_exists_def split: if_splits)

text \<open>
  Parsing an address panics exactly on the empty string, gives a path exactly for strings that
  start with a slash, and otherwise the parsed or the first resolved socket address.
\<close>

theorem unify_addr_from_str_cases:
  "(unify_addr_from_str parse resolve s = Panic \<longleftrightarrow> s = []) \<and>
   ((\<exists>p. unify_addr_from_str parse resolve s = Return (Some (Addr_Path p))) \<longleftrightarrow>
      (\<exists>r. s = 0x2F # r)) \<and>
   (unify_addr_from_str parse resolve s = Return (Some (Addr_Socket a)) \<longleftrightarrow>
      s \<noteq> [] \<and> hd s \<noteq> 0x2F \<and>
      (parse s = Some a \<or> parse s = None \<and> (\<exists>r. resolve s = Some (a # r))))"
  by (cases s) (auto simp: unify_addr_from_str_def split: option.splits list.splits)

text \<open>
  Binding a Unix path that succeeds listens on the duplicate name and leaves the path and its
  duplicate as the only names it added; stale files of both names are replaced and no other file
  is touched, also when it fails half-way.
\<close>

theorem bind_unix_files:
  "(case bind_unix os p fs of
      (fs', Some l) \<Rightarrow> l = Listener_Unix (dup_path p) \<and> set fs' = set fs \<union> {p, dup_path p}
    | (fs', None) \<Rightarrow> set fs' - {p, dup_path p} = set fs - {p, dup_path p})"
proof -
  have "p \<noteq> dup_path p" by (simp add: dup_path_def str_def)
  then show ?thesis
    by (auto simp: bind_unix_def Let_def listener_from_raw_def dest!: remove_if_exists_Some
        split: option.splits if_splits)
qed

end
