(* ===== verification/Rpc_Server.thy ===== *)
theory Rpc_Server
  imports Rpc_Tcp_Server Rpc_Net
begin

text \<open>
  The server, \<open>stream/src/server/server.rs\<close> and \<open>stream/src/server/dispatch.rs\<close>: the reader and the
  writer of a connection as a step relation, and the dispatcher between them. The listeners and the
  close of a server are in \<open>Rpc_Listen\<close>, the server with all its connections in \<open>Rpc_Shutdown\<close>.
\<close>

section \<open>Dispatch\<close>

text \<open>
  What a dispatcher does with a request: the tasks it hands to the user (each holding a handle of the
  response channel), the responses it sends before it returns, and its result, unless it panics.
\<close>

type_synonym ('t, 'r) dispatched = "('t list \<times> 'r list \<times> (unit, unit) result) outcome"

type_synonym ('c, 't, 'r) dispatch = "'c \<Rightarrow> rpc_svr_req \<Rightarrow> ('t, 'r) dispatched"

text \<open>
  \<open>DispatchClosure::dispatch_req\<close>: \<open>decode\<close> is the task type's \<open>decode_req\<close>, \<open>handle\<close> the user's closure,
  which keeps the task, answers it, or refuses it.
\<close>

definition closure_dispatch ::
  "('c \<Rightarrow> rpc_action \<Rightarrow> u64 \<Rightarrow> bytes \<Rightarrow> bytes option \<Rightarrow> nat \<Rightarrow> ('t, unit) result) \<Rightarrow>
   ('t \<Rightarrow> ('t, 'r) dispatched) \<Rightarrow> nat \<Rightarrow> ('c, 't, 'r) dispatch" where
  "closure_dispatch decode handle noti codec req =
     (case decode codec (sq_action req) (sq_seq req) (sq_msg req) (sq_blob req) noti of
        Inl _ \<Rightarrow> Return ([], [], Err ())
      | Inr task \<Rightarrow>
          (case handle task of
             Panic \<Rightarrow> Panic
           | Return (ts, rs, Inl _) \<Rightarrow> Return (ts, rs, Err ())
           | Return (ts, rs, Inr _) \<Rightarrow> Return (ts, rs, Ok ())))"

text \<open>A dispatcher holds the closure; every connection gets a clone of it.\<close>

record 'h dispatch_closure =
  dk_task_handle :: 'h

definition dispatch_closure_new :: "'h \<Rightarrow> 'h dispatch_closure" where
  "dispatch_closure_new task_handle = \<lparr>dk_task_handle = task_handle\<rparr>"

definition dispatch_closure_clone :: "'h dispatch_closure \<Rightarrow> 'h dispatch_closure" where
  "dispatch_closure_clone d = dispatch_closure_new (dk_task_handle d)"

section \<open>The reader\<close>

definition send_quick_resp ::
  "u64 \<Rightarrow> rpc_int_err option \<Rightarrow> 'r done_chan \<Rightarrow> 'r done_chan \<times> (unit, unit) result" where
  "send_quick_resp seq err ch = noti_send_err seq err ch"

text \<open>
  What \<open>Reader::run\<close> does with a request: a ping is answered at once, anything else is dispatched, and
  a refused one is answered with a decode error. The last component tells whether the reader goes
  on.
\<close>

definition serve_req ::
  "('c, 't, 'r) dispatch \<Rightarrow> 'c \<Rightarrow> rpc_svr_req \<Rightarrow> 'r done_chan \<Rightarrow> ('t list \<times> 'r done_chan \<times> bool) outcome" where
  "serve_req disp codec req ch =
     (if sq_action req = Act_Num 0 \<and> length (sq_msg req) = 0 then
        (case send_quick_resp (sq_seq req) None ch of (ch, r) \<Rightarrow> Return ([], ch, is_ok r))
      else
        (case disp codec req of
           Panic \<Rightarrow> Panic
         | Return (ts, rs, r) \<Rightarrow>
             (let ch = fold noti_done rs ch in
              case r of
                Inl _ \<Rightarrow>
                  (case send_quick_resp (sq_seq req) (Some Decode) ch of (ch, q) \<Rightarrow> Return (ts, ch, is_ok q))
              | Inr _ \<Rightarrow> Return (ts, ch, True))))"

section \<open>The writer\<close>

definition write_item ::
  "('c, 'r) server_encode \<Rightarrow> 'c \<Rightarrow> 'r done_item \<Rightarrow> tcp_server \<Rightarrow> (tcp_server \<times> unit io_result) async" where
  "write_item enc codec it c =
     (case it of
        Inr task \<Rightarrow> srv_write_resp enc codec task c
      | Inl (seq, err) \<Rightarrow> srv_write_resp_internal seq err c)"

text \<open>
  The suspension points of \<open>Writer::run\<close>: waiting for a response, after a response with the channel to be
  emptied before the flush, and the two exits.
\<close>

datatype writer = W_Wait | W_Batch | W_Closed | W_Failed

section \<open>A connection\<close>

record ('t, 'r) server_conn =
  sn_conn :: tcp_server
  sn_chan :: "'r done_chan"
  sn_reader :: bool
  sn_writer :: writer
  sn_tasks :: "'t list"

datatype 'r conn_event = Accepted u64 | Written "'r done_item" | Abandoned u64

text \<open>
  \<open>server_conn\<close> of \<open>server.rs\<close>, one step at a time. The reader and the writer use disjoint halves of the
  connection, so a whole read or write is one step. The user answers a task (with a response that
  carries its number) or drops it; the writer ends when every handle of the channel is gone. The
  receiver of the channel goes with a writer that failed or panicked.
\<close>

inductive server_step ::
  "(i32 \<Rightarrow> nat option) \<Rightarrow> ('c, 't, 'r) dispatch \<Rightarrow> ('c, 'r) server_encode \<Rightarrow> 'c \<Rightarrow> ('t \<Rightarrow> u64) \<Rightarrow> ('r \<Rightarrow> u64) \<Rightarrow>
   ('t, 'r) server_conn \<Rightarrow> 'r conn_event list \<Rightarrow> ('t, 'r) server_conn \<Rightarrow> bool"
  for alloc disp enc codec tseq rseq where
  read: "sn_reader c \<Longrightarrow> srv_read_req alloc cancel (sn_conn c) = Fin (k, Ok req) \<Longrightarrow>
    serve_req disp codec req (sn_chan c) = Return (ts, ch, go) \<Longrightarrow>
    server_step alloc disp enc codec tseq rseq c [Accepted (sq_seq req)]
      (c\<lparr>sn_conn := k, sn_chan := ch, sn_tasks := sn_tasks c @ ts, sn_reader := go\<rparr>)"
| read_panic: "sn_reader c \<Longrightarrow> srv_read_req alloc cancel (sn_conn c) = Fin (k, Ok req) \<Longrightarrow>
    serve_req disp codec req (sn_chan c) = Panic \<Longrightarrow>
    server_step alloc disp enc codec tseq rseq c [Accepted (sq_seq req), Abandoned (sq_seq req)]
      (c\<lparr>sn_conn := k, sn_reader := False\<rparr>)"
| read_end: "sn_reader c \<Longrightarrow> srv_read_req alloc cancel (sn_conn c) = Fin (k, Err e) \<Longrightarrow>
    server_step alloc disp enc codec tseq rseq c [] (c\<lparr>sn_conn := k, sn_reader := False\<rparr>)"
| answer: "sn_tasks c = xs @ t # ys \<Longrightarrow> rseq r = tseq t \<Longrightarrow>
    server_step alloc disp enc codec tseq rseq c []
      (c\<lparr>sn_tasks := xs @ ys, sn_chan := noti_done r (sn_chan c)\<rparr>)"
| abandon: "sn_tasks c = xs @ t # ys \<Longrightarrow>
    server_step alloc disp enc codec tseq rseq c [Abandoned (tseq t)] (c\<lparr>sn_tasks := xs @ ys\<rparr>)"
| respond: "sn_writer c = W_Wait \<or> sn_writer c = W_Batch \<Longrightarrow> dc_queue (sn_chan c) = it # q \<Longrightarrow>
    write_item enc codec it (sn_conn c) = Fin (k, Ok ()) \<Longrightarrow>
    server_step alloc disp enc codec tseq rseq c [Written it]
      (c\<lparr>sn_conn := k, sn_chan := (sn_chan c)\<lparr>dc_queue := q\<rparr>, sn_writer := W_Batch\<rparr>)"
| respond_fail: "sn_writer c = W_Wait \<or> sn_writer c = W_Batch \<Longrightarrow> dc_queue (sn_chan c) = it # q \<Longrightarrow>
    write_item enc codec it (sn_conn c) = Fin (k, Err e) \<or> write_item enc codec it (sn_conn c) = Crash \<and> k = sn_conn c \<Longrightarrow>
    server_step alloc disp enc codec tseq rseq c []
      (c\<lparr>sn_conn := k, sn_chan := \<lparr>dc_queue = [], dc_open = False\<rparr>, sn_writer := W_Failed\<rparr>)"
| flush: "sn_writer c = W_Batch \<Longrightarrow> dc_queue (sn_chan c) = [] \<Longrightarrow>
    srv_flush_resp (sn_conn c) = Fin (k, Ok ()) \<Longrightarrow>
    server_step alloc disp enc codec tseq rseq c [] (c\<lparr>sn_conn := k, sn_writer := W_Wait\<rparr>)"
| flush_fail: "sn_writer c = W_Batch \<Longrightarrow> dc_queue (sn_chan c) = [] \<Longrightarrow>
    srv_flush_resp (sn_conn c) = Fin (k, Err e) \<Longrightarrow>
    server_step alloc disp enc codec tseq rseq c []
      (c\<lparr>sn_conn := k, sn_chan := \<lparr>dc_queue = [], dc_open = False\<rparr>, sn_writer := W_Failed\<rparr>)"
| close: "sn_writer c = W_Wait \<Longrightarrow> dc_queue (sn_chan c) = [] \<Longrightarrow> \<not> sn_reader c \<Longrightarrow> sn_tasks c = [] \<Longrightarrow>
    srv_close_conn (sn_conn c) = Fin k \<Longrightarrow>
    server_step alloc disp enc codec tseq rseq c [] (c\<lparr>sn_conn := k, sn_writer := W_Closed\<rparr>)"

definition conn_start :: "tcp_server \<Rightarrow> ('t, 'r) server_conn" where
  "conn_start k = \<lparr>sn_conn = k, sn_chan = \<lparr>dc_queue = [], dc_open = True\<rparr>, sn_reader = True,
     sn_writer = W_Wait, sn_tasks = []\<rparr>"

inductive server_run ::
  "(i32 \<Rightarrow> nat option) \<Rightarrow> ('c, 't, 'r) dispatch \<Rightarrow> ('c, 'r) server_encode \<Rightarrow> 'c \<Rightarrow> ('t \<Rightarrow> u64) \<Rightarrow> ('r \<Rightarrow> u64) \<Rightarrow>
   tcp_server \<Rightarrow> 'r conn_event list \<Rightarrow> ('t, 'r) server_conn \<Rightarrow> bool"
  for alloc disp enc codec tseq rseq k0 where
  start: "server_run alloc disp enc codec tseq rseq k0 [] (conn_start k0)"
| more: "server_run alloc disp enc codec tseq rseq k0 evs c \<Longrightarrow>
    server_step alloc disp enc codec tseq rseq c evs' c' \<Longrightarrow>
    server_run alloc disp enc codec tseq rseq k0 (evs @ evs') c'"

section \<open>Every request is answered once\<close>

fun item_seq :: "('r \<Rightarrow> u64) \<Rightarrow> 'r done_item \<Rightarrow> u64" where
  "item_seq rseq (Inr t) = rseq t"
| "item_seq rseq (Inl (seq, err)) = seq"

fun accepted :: "'r conn_event list \<Rightarrow> u64 list" where
  "accepted [] = []"
| "accepted (Accepted s # evs) = s # accepted evs"
| "accepted (_ # evs) = accepted evs"

fun written :: "'r conn_event list \<Rightarrow> 'r done_item list" where
  "written [] = []"
| "written (Written it # evs) = it # written evs"
| "written (_ # evs) = written evs"

fun abandoned :: "'r conn_event list \<Rightarrow> u64 list" where
  "abandoned [] = []"
| "abandoned (Abandoned s # evs) = s # abandoned evs"
| "abandoned (_ # evs) = abandoned evs"

lemma accepted_append [simp]: "accepted (a @ b) = accepted a @ accepted b"
  by (induction a rule: accepted.induct) simp_all

lemma written_append [simp]: "written (a @ b) = written a @ written b"
  by (induction a rule: written.induct) simp_all

lemma abandoned_append [simp]: "abandoned (a @ b) = abandoned a @ abandoned b"
  by (induction a rule: abandoned.induct) simp_all

lemma noti_done_fold:
  "dc_open ch \<Longrightarrow> fold noti_done rs ch = ch\<lparr>dc_queue := dc_queue ch @ map Ok rs\<rparr>"
  by (induction rs arbitrary: ch) (simp_all add: noti_done_def)

definition balanced :: "('t \<Rightarrow> u64) \<Rightarrow> ('r \<Rightarrow> u64) \<Rightarrow> 'r conn_event list \<Rightarrow> ('t, 'r) server_conn \<Rightarrow> bool" where
  "balanced tseq rseq evs c \<longleftrightarrow>
     mset (accepted evs) =
       mset (map tseq (sn_tasks c)) + mset (map (item_seq rseq) (dc_queue (sn_chan c))) +
       mset (map (item_seq rseq) (written evs)) + mset (abandoned evs)"

definition conn_ok :: "('t \<Rightarrow> u64) \<Rightarrow> ('r \<Rightarrow> u64) \<Rightarrow> 'r conn_event list \<Rightarrow> ('t, 'r) server_conn \<Rightarrow> bool" where
  "conn_ok tseq rseq evs c \<longleftrightarrow>
     (sn_writer c \<noteq> W_Failed \<longrightarrow> dc_open (sn_chan c) \<and> balanced tseq rseq evs c)"

text \<open>What the framework expects of a dispatcher: one task or one response for a request it accepts, none for one it refuses.\<close>

locale dispatcher =
  fixes disp :: "('c, 't, 'r) dispatch" and codec :: 'c and tseq :: "'t \<Rightarrow> u64" and rseq :: "'r \<Rightarrow> u64"
  assumes accepts: "disp codec req = Return (ts, rs, Ok ()) \<Longrightarrow> map tseq ts @ map rseq rs = [sq_seq req]"
    and refuses: "disp codec req = Return (ts, rs, Err ()) \<Longrightarrow> ts = [] \<and> rs = []"
begin

lemma serve_req_balance:
  assumes "serve_req disp codec req ch = Return (ts, ch', go)" "dc_open ch"
  shows "go \<and> dc_open ch' \<and>
    mset (map tseq ts) + mset (map (item_seq rseq) (dc_queue ch')) =
      add_mset (sq_seq req) (mset (map (item_seq rseq) (dc_queue ch)))"
proof (cases "sq_action req = Act_Num 0 \<and> sq_msg req = []")
  case True
  with assms show ?thesis by (auto simp: serve_req_def send_quick_resp_def noti_send_err_def)
next
  case False
  obtain us rs r where d: "disp codec req = Return (us, rs, r)"
    using False assms(1) by (auto simp: serve_req_def split: outcome.splits)
  have map: "image_mset (item_seq rseq) (image_mset Ok (mset rs)) = image_mset rseq (mset rs)"
    by (simp add: multiset.map_comp comp_def)
  show ?thesis
  proof (cases r)
    case (Inl u)
    with d refuses have "us = []" "rs = []" by auto
    with False Inl d assms show ?thesis
      by (auto simp: serve_req_def send_quick_resp_def noti_send_err_def)
  next
    case (Inr u)
    with d accepts have "map tseq us @ map rseq rs = [sq_seq req]" by auto
    then have "mset (map tseq us) + mset (map rseq rs) = {# sq_seq req #}" by (metis mset_append mset_single_iff_right)
    with False Inr d assms map show ?thesis
      by (auto simp: serve_req_def noti_done_fold add_ac)
  qed
qed

lemma step_conn_ok:
  assumes "server_step alloc disp enc codec tseq rseq c evs' c'" "conn_ok tseq rseq evs c"
  shows "conn_ok tseq rseq (evs @ evs') c'"
  using assms(1)
proof cases
  case (read cancel k req ts ch go)
  then show ?thesis
    using assms(2) serve_req_balance [OF read(5)] by (auto simp: conn_ok_def balanced_def add_ac)
next
  case (read_panic cancel k req)
  then show ?thesis using assms(2) by (auto simp: conn_ok_def balanced_def)
next
  case (answer xs t ys r)
  then show ?thesis using assms(2) by (auto simp: conn_ok_def balanced_def noti_done_def)
qed (use assms(2) in \<open>auto simp: conn_ok_def balanced_def\<close>)

lemma run_conn_ok:
  "server_run alloc disp enc codec tseq rseq k0 evs c \<Longrightarrow> conn_ok tseq rseq evs c"
proof (induction rule: server_run.induct)
  case start
  then show ?case by (simp add: conn_ok_def balanced_def conn_start_def)
next
  case (more evs c evs' c')
  then show ?case using step_conn_ok by blast
qed

end

section \<open>What reaches the client\<close>

fun internal_answer :: "rpc_int_err option \<Rightarrow> response" where
  "internal_answer None = Resp_Ok [] None"
| "internal_answer (Some e) = Resp_Err (Enc_Rpc e)"

text \<open>The responses that can be written, and their bytes.\<close>

fun item_good :: "('r \<Rightarrow> response option) \<Rightarrow> 'r done_item \<Rightarrow> bool" where
  "item_good answer (Inr t) \<longleftrightarrow> (\<exists>r. answer t = Some r \<and> resp_fits r)"
| "item_good answer (Inl p) \<longleftrightarrow> True"

fun item_wire :: "('r \<Rightarrow> u64) \<Rightarrow> ('r \<Rightarrow> response option) \<Rightarrow> 'r done_item \<Rightarrow> bytes" where
  "item_wire rseq answer (Inr t) = (case answer t of Some r \<Rightarrow> resp_wire (rseq t) r | None \<Rightarrow> [])"
| "item_wire rseq answer (Inl (seq, err)) = resp_wire seq (internal_answer err)"

definition flushed :: "tcp_server \<Rightarrow> bool" where
  "flushed k \<longleftrightarrow> sk_out (bs_out (ts_stream k)) = srv_tx k"

definition out_ok ::
  "('r \<Rightarrow> u64) \<Rightarrow> ('r \<Rightarrow> response option) \<Rightarrow> 'r conn_event list \<Rightarrow> ('t, 'r) server_conn \<Rightarrow> bool" where
  "out_ok rseq answer evs c \<longleftrightarrow>
     (sn_writer c = W_Closed \<longrightarrow> \<not> sn_reader c \<and> sn_tasks c = [] \<and> dc_queue (sn_chan c) = []) \<and>
     (sn_writer c \<noteq> W_Failed \<and> (\<forall>it \<in> set (written evs). item_good answer it) \<longrightarrow>
        stream_inv (ts_stream (sn_conn c)) \<and>
        srv_tx (sn_conn c) = concat (map (item_wire rseq answer) (written evs)) \<and>
        (sn_writer c \<noteq> W_Batch \<longrightarrow> flushed (sn_conn c)) \<and>
        (sn_writer c = W_Closed \<longrightarrow> ts_shut (sn_conn c)))"

lemma flush_idle:
  assumes "stream_inv s" "sk_out (bs_out s) = stream_out s"
  shows "stream_flush p s = Some (s, Ready (Ok ()))"
proof -
  have "bw_pos (bs_write s) = 0"
    using assms by (auto simp: stream_out_def buf_out_def stream_inv_def buf_write_inv_def)
  then show ?thesis by (simp add: stream_flush_def buf_flush_def)
qed

lemma close_idle:
  assumes "stream_inv (ts_stream k)" "flushed k"
  shows "srv_close_conn k = Fin (k\<lparr>ts_shut := True\<rparr>)"
  using flush_idle [OF assms(1)] assms(2)
  by (simp add: srv_close_conn_def srv_flush_resp_def flushed_def srv_tx_def io_with_timeout_def)

lemma read_req_out:
  assumes "stream_inv (ts_stream k)" "srv_read_req alloc cancel k = Fin (k', r)"
  shows "stream_inv (ts_stream k') \<and> srv_tx k' = srv_tx k \<and> flushed k' = flushed k"
  using srv_read_req_keeps [OF assms(1), of alloc cancel] assms(2)
  by (auto simp: flushed_def srv_tx_def keeps_out_def stream_out_def)

context server_task
begin

lemma write_item_out:
  assumes "stream_inv (ts_stream k)" "item_good answer it" "write_item enc codec it k = Fin (k', Ok ())"
  shows "stream_inv (ts_stream k') \<and> srv_tx k' = srv_tx k @ item_wire seq_of answer it"
proof (cases it)
  case (Inr t)
  with assms(2) obtain r where "answer t = Some r" "resp_fits r" by auto
  with write_resp_returns [OF assms(1)] assms(3) Inr show ?thesis by (fastforce simp: write_item_def)
next
  case (Inl p)
  obtain seq err where p: "p = (seq, err)" by fastforce
  have "internal_answer err = (case err of None \<Rightarrow> Resp_Ok [] None | Some e \<Rightarrow> Resp_Err (Enc_Rpc e))"
    by (cases err) simp_all
  with srv_write_internal_returns [OF assms(1), of seq err] assms(3) Inl p show ?thesis
    by (auto simp: write_item_def)
qed

lemma step_out_ok:
  assumes "server_step alloc disp enc codec tseq seq_of c evs' c'" "out_ok seq_of answer evs c"
  shows "out_ok seq_of answer (evs @ evs') c'"
  using assms(1)
proof cases
  case (read cancel k req ts ch go)
  then show ?thesis using assms(2) read_req_out by (fastforce simp: out_ok_def)
next
  case (read_panic cancel k req)
  then show ?thesis using assms(2) read_req_out by (fastforce simp: out_ok_def)
next
  case (read_end cancel k e)
  then show ?thesis using assms(2) read_req_out by (fastforce simp: out_ok_def)
next
  case (respond it q k)
  then show ?thesis using assms(2) write_item_out [of "sn_conn c" it k] by (auto simp: out_ok_def)
next
  case (flush k)
  then show ?thesis
    using assms(2) srv_flush_returns [of "sn_conn c"] by (fastforce simp: out_ok_def flushed_def srv_tx_def)
next
  case (close k)
  then show ?thesis
    using assms(2) close_idle [of "sn_conn c"] by (auto simp: out_ok_def flushed_def srv_tx_def)
qed (use assms(2) in \<open>auto simp: out_ok_def\<close>)

lemma run_out_ok:
  assumes "stream_inv (ts_stream k0)" "srv_tx k0 = []" "flushed k0"
  shows "server_run alloc disp enc codec tseq seq_of k0 evs c \<Longrightarrow> out_ok seq_of answer evs c"
proof (induction rule: server_run.induct)
  case start
  then show ?case using assms by (simp add: out_ok_def conn_start_def)
next
  case (more evs c evs' c')
  then show ?case using step_out_ok by blast
qed

end

lemma write_item_keeps:
  "keeps_in s0 (ts_stream c) \<Longrightarrow> async_post (\<lambda>(c', r). keeps_in s0 (ts_stream c')) (write_item enc codec it c)"
  by (auto simp: write_item_def srv_write_resp_internal_def split: sum.split prod.split
      intro: srv_write_resp_keeps srv_write_all_keeps)

section \<open>A connection drains\<close>

lemma close_willing: "willing (ts_stream k) \<Longrightarrow> \<exists>k'. srv_close_conn k = Fin k'"
  using srv_flush_willing [of k] by (auto simp: srv_close_conn_def)

context server_task
begin

lemma write_item_willing:
  assumes "willing (ts_stream k)" "item_good answer it"
  shows "\<exists>k'. write_item enc codec it k = Fin (k', Ok ()) \<and> willing (ts_stream k')"
proof (cases it)
  case (Inr t)
  with assms write_resp_willing [OF assms(1)] show ?thesis by (fastforce simp: write_item_def)
next
  case (Inl p)
  then show ?thesis using srv_write_internal_willing [OF assms(1)] by (cases p) (auto simp: write_item_def)
qed

lemma run_drains:
  assumes "server_run alloc disp enc codec tseq seq_of k0 evs c" "\<not> sn_reader c" "sn_tasks c = []"
    and "sn_writer c = W_Wait \<or> sn_writer c = W_Batch" "willing (ts_stream (sn_conn c))"
    and "\<forall>it \<in> set (dc_queue (sn_chan c)). item_good answer it"
  shows "\<exists>evs' c'. server_run alloc disp enc codec tseq seq_of k0 (evs @ evs') c' \<and> sn_writer c' = W_Closed \<and>
    written evs' = dc_queue (sn_chan c) \<and> accepted evs' = [] \<and> abandoned evs' = []"
  using assms
proof (induction "dc_queue (sn_chan c)" arbitrary: evs c)
  case (Cons it q)
  obtain k where k: "write_item enc codec it (sn_conn c) = Fin (k, Ok ())" "willing (ts_stream k)"
    using write_item_willing [OF Cons.prems(5), of it] Cons.prems(6) Cons.hyps(2) by (metis list.set_intros(1))
  let ?c = "c\<lparr>sn_conn := k, sn_chan := (sn_chan c)\<lparr>dc_queue := q\<rparr>, sn_writer := W_Batch\<rparr>"
  have "server_step alloc disp enc codec tseq seq_of c [Written it] ?c"
    using server_step.respond [OF Cons.prems(4) Cons.hyps(2) [symmetric] k(1)] .
  from server_run.more [OF Cons.prems(1) this]
  have "server_run alloc disp enc codec tseq seq_of k0 (evs @ [Written it]) ?c" .
  moreover have "\<forall>it \<in> set q. item_good answer it" using Cons.prems(6) Cons.hyps(2) by (metis list.set_intros(2))
  ultimately have "\<exists>evs' c'. server_run alloc disp enc codec tseq seq_of k0 ((evs @ [Written it]) @ evs') c' \<and>
      sn_writer c' = W_Closed \<and> written evs' = dc_queue (sn_chan ?c) \<and> accepted evs' = [] \<and> abandoned evs' = []"
    using Cons.prems(2,3) k(2) by (intro Cons.hyps(1)) simp_all
  then obtain evs' c' where "server_run alloc disp enc codec tseq seq_of k0 ((evs @ [Written it]) @ evs') c'"
    "sn_writer c' = W_Closed" "written evs' = q" "accepted evs' = []" "abandoned evs' = []"
    by auto
  then show ?case using Cons.hyps(2) by (intro exI [of _ "Written it # evs'"] exI [of _ c']) auto
next
  case Nil
  obtain c1 where c1: "server_run alloc disp enc codec tseq seq_of k0 evs c1" "sn_writer c1 = W_Wait"
    "dc_queue (sn_chan c1) = []" "\<not> sn_reader c1" "sn_tasks c1 = []" "willing (ts_stream (sn_conn c1))"
  proof (cases "sn_writer c = W_Wait")
    case True
    then show ?thesis using that [of c] Nil by simp
  next
    case False
    obtain s where s: "srv_flush_resp (sn_conn c) = Fin ((sn_conn c)\<lparr>ts_stream := s\<rparr>, Ok ())" "willing s"
      using srv_flush_willing [OF Nil.prems(5)] by blast
    have "sn_writer c = W_Batch" using False Nil.prems(4) by simp
    from server_run.more [OF Nil.prems(1) server_step.flush [OF this Nil.hyps [symmetric] s(1)]] s(2) Nil
    show ?thesis by (intro that [of "c\<lparr>sn_conn := (sn_conn c)\<lparr>ts_stream := s\<rparr>, sn_writer := W_Wait\<rparr>"]) simp_all
  qed
  obtain k where "srv_close_conn (sn_conn c1) = Fin k" using close_willing [OF c1(6)] by blast
  from server_run.more [OF c1(1) server_step.close [OF c1(2-5) this]] Nil.hyps show ?case
    by (intro exI [of _ "[]"] exI [of _ "c1\<lparr>sn_conn := k, sn_writer := W_Closed\<rparr>"]) simp
qed

end

lemma new_conn_out:
  assumes "tcp_new_conn i \<lparr>sk_out = [], sk_script = sc\<rparr> config = Return k"
  shows "stream_inv (ts_stream k) \<and> srv_tx k = [] \<and> flushed k"
  using assms buf_stream_new_inv
  by (fastforce simp: tcp_new_conn_def Let_def srv_tx_def flushed_def split: outcome.splits)

section \<open>Dispatching by a closure\<close>

text \<open>
  The documented use of the closure: it returns an error only for a task it did not take, and
  otherwise keeps the task or answers it once.
\<close>

definition handle_ok :: "('t \<Rightarrow> u64) \<Rightarrow> ('r \<Rightarrow> u64) \<Rightarrow> ('t \<Rightarrow> ('t, 'r) dispatched) \<Rightarrow> bool" where
  "handle_ok tseq rseq handle \<longleftrightarrow>
     (\<forall>t. case handle t of
        Panic \<Rightarrow> True
      | Return (ts, rs, Inr _) \<Rightarrow> map tseq ts @ map rseq rs = [tseq t]
      | Return (ts, rs, Inl _) \<Rightarrow> ts = [] \<and> rs = [])"

lemma closure_dispatcher:
  fixes handle :: "'t \<Rightarrow> ('t, 'r) dispatched"
  assumes "handle_ok tseq rseq handle"
    and "\<And>a s m b n t. decode codec a s m b n = Ok t \<Longrightarrow> tseq t = s"
  shows "dispatcher (closure_dispatch decode handle noti) codec tseq rseq"
proof unfold_locales
  have h: "handle t = Return (ts, rs, Ok ()) \<longrightarrow> map tseq ts @ map rseq rs = [tseq t]"
    "handle t = Return (ts, rs, Err ()) \<longrightarrow> ts = [] \<and> rs = []" for t ts rs
    using assms(1) [unfolded handle_ok_def, THEN spec, of t] by auto
  fix req :: rpc_svr_req and ts :: "'t list" and rs :: "'r list"
  show "map tseq ts @ map rseq rs = [sq_seq req]"
    if "closure_dispatch decode handle noti codec req = Return (ts, rs, Ok ())"
    using that h assms(2) by (auto simp: closure_dispatch_def split: sum.splits prod.splits outcome.splits)
  show "ts = [] \<and> rs = []" if "closure_dispatch decode handle noti codec req = Return (ts, rs, Err ())"
    using that h by (auto simp: closure_dispatch_def split: sum.splits prod.splits outcome.splits)
qed

lemma variant_decode_seq: "variant_decode_req codec a s m b n = Ok t \<Longrightarrow> sv_seq t = s"
  by (auto simp: variant_decode_req_def split: sum.splits)

section \<open>Properties\<close>

text \<open>
  C13: on a connection whose writer has not failed, under every interleaving of reading, answering and
  writing, the numbers of the requests read are exactly those of the tasks in the users' hands, the
  responses queued, the responses written and the tasks the user dropped: no request is answered
  twice, and none is lost by the framework.
\<close>

theorem server_exactly_once:
  assumes "dispatcher disp codec tseq rseq"
    and "server_run alloc disp enc codec tseq rseq k0 evs c" and "sn_writer c \<noteq> W_Failed"
  shows "mset (accepted evs) =
    mset (map tseq (sn_tasks c)) + mset (map (item_seq rseq) (dc_queue (sn_chan c))) +
    mset (map (item_seq rseq) (written evs)) + mset (abandoned evs)"
  using dispatcher.run_conn_ok [OF assms(1,2)] assms(3) by (simp add: conn_ok_def balanced_def)

definition keep_dispatch :: "(byte codec, (byte, rust_str) server_task_variant, (byte, rust_str) server_task_variant) dispatch" where
  "keep_dispatch = closure_dispatch variant_decode_req (\<lambda>t. Return ([t], [], Ok ())) 0"

lemma keep_dispatcher: "dispatcher keep_dispatch (msgp_codec byte_rmp) sv_seq sv_seq"
  unfolding keep_dispatch_def
  by (rule closure_dispatcher) (auto simp: handle_ok_def dest: variant_decode_seq)

lemma keep_run:
  "\<exists>c. server_run (\<lambda>n. Some (unat n)) keep_dispatch (variant_encode_resp codec_string) (msgp_codec byte_rmp) sv_seq sv_seq
     (fresh_server (req_wire 1 7 (Act_Num 4) [5] None)) [Accepted 7] c \<and> sn_writer c = W_Wait"
proof -
  let ?k = "fresh_server (req_wire 1 7 (Act_Num 4) [5] None)"
  have "rx (ts_stream ?k) (req_wire 1 7 (Act_Num 4) [5] None @ [])"
    using rx_fresh [of "req_wire 1 7 (Act_Num 4) [5] None"]
    by (simp add: fresh_server_def req_wire_def req_head_bytes_def)
  then obtain k where k: "srv_read_req (\<lambda>n. Some (unat n)) False ?k =
      Fin (k, Ok \<lparr>sq_seq = 7, sq_action = Act_Num 4, sq_msg = [5], sq_blob = some_blob (blob_bytes None)\<rparr>)"
    using srv_read_req_rx [where cid = 1 and seq = 7 and a = "Act_Num 4" and m = "[5]" and b = None and rest = "[]"
        and alloc = "\<lambda>n. Some (unat n)", of ?k False] alloc_ok_unat by (auto simp: req_fits_def blob_bytes_def)
  obtain ts ch go where s: "serve_req keep_dispatch (msgp_codec byte_rmp)
      \<lparr>sq_seq = 7, sq_action = Act_Num 4, sq_msg = [5], sq_blob = some_blob (blob_bytes None)\<rparr>
      \<lparr>dc_queue = [], dc_open = True\<rparr> = Return (ts, ch, go)"
    by (simp add: serve_req_def keep_dispatch_def closure_dispatch_def variant_decode_req_def msgp_codec_def
        msgp_decode_def byte_rmp_def)
  have "server_step (\<lambda>n. Some (unat n)) keep_dispatch (variant_encode_resp codec_string) (msgp_codec byte_rmp) sv_seq sv_seq
      (conn_start ?k) [Accepted 7]
      ((conn_start ?k)\<lparr>sn_conn := k, sn_chan := ch, sn_tasks := sn_tasks (conn_start ?k) @ ts, sn_reader := go\<rparr>)"
    using server_step.read [of "conn_start ?k"] k s by (fastforce simp: conn_start_def)
  from server_run.more [OF server_run.start this] show ?thesis by (auto simp: conn_start_def)
qed

theorem server_exactly_once_witness:
  "\<exists>c. {# 7 #} = mset (map sv_seq (sn_tasks c)) + mset (map (item_seq sv_seq) (dc_queue (sn_chan c))) \<and>
     server_run (\<lambda>n. Some (unat n)) keep_dispatch (variant_encode_resp codec_string) (msgp_codec byte_rmp) sv_seq sv_seq
       (fresh_server (req_wire 1 7 (Act_Num 4) [5] None)) [Accepted 7] c"
proof -
  obtain c where c: "server_run (\<lambda>n. Some (unat n)) keep_dispatch (variant_encode_resp codec_string) (msgp_codec byte_rmp)
      sv_seq sv_seq (fresh_server (req_wire 1 7 (Act_Num 4) [5] None)) [Accepted 7] c" "sn_writer c = W_Wait"
    using keep_run by blast
  from server_exactly_once [OF keep_dispatcher c(1)] c show ?thesis by auto
qed

text \<open>What a connection whose writer has ended regularly has done.\<close>

lemma closed_complete:
  assumes "dispatcher disp codec tseq rseq" and "server_task enc codec rseq answer"
    and "tcp_new_conn i \<lparr>sk_out = [], sk_script = sc\<rparr> config = Return k0"
    and "server_run alloc disp enc codec tseq rseq k0 evs c" and "sn_writer c = W_Closed"
    and "\<forall>it \<in> set (written evs). item_good answer it"
  shows "mset (accepted evs) = mset (map (item_seq rseq) (written evs)) + mset (abandoned evs) \<and>
    sk_out (bs_out (ts_stream (sn_conn c))) = concat (map (item_wire rseq answer) (written evs)) \<and>
    \<not> sn_reader c \<and> sn_tasks c = [] \<and> ts_shut (sn_conn c)"
proof -
  have "out_ok rseq answer evs c"
    using server_task.run_out_ok [OF assms(2) _ _ _ assms(4)] new_conn_out [OF assms(3)] by blast
  with assms(5,6) have *: "\<not> sn_reader c" "sn_tasks c = []" "dc_queue (sn_chan c) = []" "ts_shut (sn_conn c)"
    "sk_out (bs_out (ts_stream (sn_conn c))) = concat (map (item_wire rseq answer) (written evs))"
    by (simp_all add: out_ok_def flushed_def)
  have "conn_ok tseq rseq evs c" by (rule dispatcher.run_conn_ok [OF assms(1,4)])
  with assms(5) * show ?thesis by (simp add: conn_ok_def balanced_def)
qed

text \<open>
  C14: a connection is closed only when its work is done: if the writer has ended regularly, the reader
  has stopped, no task is left with the user, every request read has been answered (or dropped by
  the user), the socket has received the complete responses in the order they were sent, and
  nothing else, and its write direction is shut down.
\<close>

theorem server_close_complete:
  assumes "dispatcher disp codec tseq rseq" and "server_task enc codec rseq answer"
    and "tcp_new_conn i \<lparr>sk_out = [], sk_script = sc\<rparr> config = Return k0"
    and "server_run alloc disp enc codec tseq rseq k0 evs c" and "sn_writer c = W_Closed"
    and "\<forall>it \<in> set (written evs). item_good answer it"
  shows "mset (accepted evs) = mset (map (item_seq rseq) (written evs)) + mset (abandoned evs) \<and>
    sk_out (bs_out (ts_stream (sn_conn c))) = concat (map (item_wire rseq answer) (written evs)) \<and>
    \<not> sn_reader c \<and> sn_tasks c = [] \<and> ts_shut (sn_conn c)"
  by (rule closed_complete [OF assms])

text \<open>A connection on which a client sends one ping and leaves, for a concrete instance.\<close>

definition ping_conn :: tcp_server where
  "ping_conn = \<lparr>ts_stream = \<lparr>bs_read = \<lparr>br_buf = replicate 64 0, br_pos = 0, br_cap = 0\<rparr>,
        bs_write = \<lparr>bw_buf = replicate 64 0, bw_pos = 0\<rparr>,
        bs_in = [Data (req_wire 1 7 (Act_Num 0) [] None)], bs_out = \<lparr>sk_out = [], sk_script = []\<rparr>\<rparr>,
     ts_config = server_config_default\<lparr>sc_stream_buf_size := 64\<rparr>, ts_action_buf = [], ts_msg_buf = [],
     ts_encode_buf = [], ts_shut = False\<rparr>"

lemma ping_conn_new:
  "tcp_new_conn [Data (req_wire 1 7 (Act_Num 0) [] None)] \<lparr>sk_out = [], sk_script = []\<rparr>
     (server_config_default\<lparr>sc_stream_buf_size := 64\<rparr>) = Return ping_conn"
  by (simp add: tcp_new_conn_def server_config_default_def buf_stream_new_def buf_read_new_def buf_write_new_def
      ping_conn_def)

lemma ping_stopped:
  fixes disp :: "('c, 't, 'r) dispatch"
  shows "\<exists>c. server_run (\<lambda>n. Some (unat n)) disp enc codec tseq rseq ping_conn [Accepted 7] c \<and> \<not> sn_reader c \<and>
    sn_tasks c = [] \<and> sn_writer c = W_Wait \<and> dc_queue (sn_chan c) = [Err (7, None)] \<and> willing (ts_stream (sn_conn c))"
proof -
  let ?step = "server_step (\<lambda>n. Some (unat n)) disp enc codec tseq rseq"
  let ?req = "\<lparr>sq_seq = 7, sq_action = Act_Num 0, sq_msg = [], sq_blob = some_blob (blob_bytes None)\<rparr>"
  let ?c0 = "conn_start ping_conn :: ('t, 'r) server_conn"
  have new: "stream_inv (ts_stream ping_conn)" "sk_script (bs_out (ts_stream ping_conn)) = []"
    using new_conn_out [OF ping_conn_new] by (simp_all add: ping_conn_def)
  then have "rx (ts_stream ping_conn) (req_wire 1 7 (Act_Num 0) [] None @ [])"
    by (simp add: rx_def ping_conn_def stream_rest_def buf_read_rest_def req_wire_def req_head_bytes_def)
  then obtain k1 where k1: "srv_read_req (\<lambda>n. Some (unat n)) False ping_conn = Fin (k1, Ok ?req)" "rx (ts_stream k1) []"
    using srv_read_req_rx [where cid = 1 and seq = 7 and a = "Act_Num 0" and m = "[]" and b = None and rest = "[]"
        and alloc = "\<lambda>n. Some (unat n)", of ping_conn False] alloc_ok_unat by (auto simp: req_fits_def blob_bytes_def)
  obtain k2 e where k2: "srv_read_req (\<lambda>n. Some (unat n)) False k1 = Fin (k2, Err e)" "keeps_out (ts_stream k1) (ts_stream k2)"
    using srv_read_req_eof [of k1] k1(2) by (metis rx_def)
  have "keeps_out (ts_stream ping_conn) (ts_stream k1)"
    using srv_read_req_keeps [OF new(1), of "\<lambda>n. Some (unat n)" False] k1(1) by simp
  with k2(2) new have w2: "willing (ts_stream k2)" by (simp add: willing_def keeps_out_def)
  let ?c1 = "?c0\<lparr>sn_conn := k1, sn_chan := \<lparr>dc_queue = [Err (7, None)], dc_open = True\<rparr>\<rparr>"
  let ?c2 = "?c1\<lparr>sn_conn := k2, sn_reader := False\<rparr>"
  have "?step ?c0 [Accepted 7] ?c1"
    using server_step.read [of ?c0 "\<lambda>n. Some (unat n)" False k1 ?req disp codec "[]" _ True enc tseq rseq] k1(1)
    by (auto simp: conn_start_def serve_req_def send_quick_resp_def noti_send_err_def)
  moreover have "?step ?c1 [] ?c2"
    using server_step.read_end [of ?c1 "\<lambda>n. Some (unat n)" False k2 e disp enc codec tseq rseq] k2(1) by (simp add: conn_start_def)
  ultimately have "server_run (\<lambda>n. Some (unat n)) disp enc codec tseq rseq ping_conn (([] @ [Accepted 7]) @ []) ?c2"
    by (blast intro: server_run.start server_run.more)
  with w2 show ?thesis by (intro exI [of _ ?c2]) (simp add: conn_start_def)
qed

lemma ping_run:
  "\<exists>evs c. server_run (\<lambda>n. Some (unat n)) keep_dispatch (variant_encode_resp codec_string) (msgp_codec byte_rmp) sv_seq sv_seq
     ping_conn ([Accepted 7] @ evs) c \<and> sn_writer c = W_Closed \<and> written evs = [Err (7, None)]"
proof -
  obtain c where "server_run (\<lambda>n. Some (unat n)) keep_dispatch (variant_encode_resp codec_string) (msgp_codec byte_rmp) sv_seq sv_seq
      ping_conn [Accepted 7] c" "\<not> sn_reader c" "sn_tasks c = []" "sn_writer c = W_Wait"
    "dc_queue (sn_chan c) = [Err (7, None)]" "willing (ts_stream (sn_conn c))"
    using ping_stopped [of keep_dispatch "variant_encode_resp codec_string" "msgp_codec byte_rmp" sv_seq sv_seq] by blast
  from variant.run_drains [OF this(1-3) _ this(6)] this show ?thesis by force
qed

theorem server_close_complete_witness:
  "\<exists>evs c. server_run (\<lambda>n. Some (unat n)) keep_dispatch (variant_encode_resp codec_string) (msgp_codec byte_rmp) sv_seq sv_seq
       ping_conn evs c \<and> ts_shut (sn_conn c) \<and>
     sk_out (bs_out (ts_stream (sn_conn c))) = resp_wire 7 (Resp_Ok [] None)"
proof -
  obtain evs c where c: "server_run (\<lambda>n. Some (unat n)) keep_dispatch (variant_encode_resp codec_string) (msgp_codec byte_rmp)
      sv_seq sv_seq ping_conn ([Accepted 7] @ evs) c" "sn_writer c = W_Closed" "written evs = [Err (7, None)]"
    using ping_run by blast
  then have "\<forall>it \<in> set (written ([Accepted 7] @ evs)). item_good (variant_answer codec_string byte_rmp) it" by simp
  from server_close_complete [OF keep_dispatcher variant.server_task_axioms ping_conn_new c(1,2) this] c show ?thesis
    by auto
qed

text \<open>
  C18: a connection whose reader has stopped and whose tasks are all answered drains: as long as its socket
  accepts data, the writer can send every queued response, in order, and close; then every request
  that was ever read has its response.
\<close>

theorem server_drains:
  assumes "dispatcher disp codec tseq rseq" and "server_task enc codec rseq answer"
    and "server_run alloc disp enc codec tseq rseq k0 evs c" and "\<not> sn_reader c" and "sn_tasks c = []"
    and "sn_writer c = W_Wait \<or> sn_writer c = W_Batch" and "willing (ts_stream (sn_conn c))"
    and "\<forall>it \<in> set (dc_queue (sn_chan c)). item_good answer it"
  shows "\<exists>evs' c'. server_run alloc disp enc codec tseq rseq k0 (evs @ evs') c' \<and> sn_writer c' = W_Closed \<and>
    written evs' = dc_queue (sn_chan c) \<and>
    mset (accepted evs) = mset (map (item_seq rseq) (written evs @ written evs')) + mset (abandoned evs)"
proof -
  have "conn_ok tseq rseq evs c" by (rule dispatcher.run_conn_ok [OF assms(1,3)])
  with assms(5,6) have "mset (accepted evs) = mset (map (item_seq rseq) (dc_queue (sn_chan c))) +
      mset (map (item_seq rseq) (written evs)) + mset (abandoned evs)"
    by (auto simp: conn_ok_def balanced_def)
  with server_task.run_drains [OF assms(2-8)] show ?thesis by (fastforce simp: add_ac)
qed

theorem server_drains_witness:
  "\<exists>evs c. server_run (\<lambda>n. Some (unat n)) keep_dispatch (variant_encode_resp codec_string) (msgp_codec byte_rmp) sv_seq sv_seq
     ping_conn ([Accepted 7] @ evs) c \<and> sn_writer c = W_Closed \<and> written evs = [Err (7, None)]"
proof -
  obtain c where c: "server_run (\<lambda>n. Some (unat n)) keep_dispatch (variant_encode_resp codec_string) (msgp_codec byte_rmp) sv_seq sv_seq
      ping_conn [Accepted 7] c" "\<not> sn_reader c" "sn_tasks c = []" "sn_writer c = W_Wait"
    "dc_queue (sn_chan c) = [Err (7, None)]" "willing (ts_stream (sn_conn c))"
    using ping_stopped [of keep_dispatch "variant_encode_resp codec_string" "msgp_codec byte_rmp" sv_seq sv_seq] by blast
  then have "sn_writer c = W_Wait \<or> sn_writer c = W_Batch"
    "\<forall>it \<in> set (dc_queue (sn_chan c)). item_good (variant_answer codec_string byte_rmp) it" by simp_all
  from server_drains [OF keep_dispatcher variant.server_task_axioms c(1-3) this(1) c(6) this(2)] c(5) show ?thesis
    by auto
qed

text \<open>
  A ping of a client is answered without reaching the dispatcher: the server reads it, queues an
  empty success with the ping's number, and writes it.
\<close>

theorem ping_answered:
  assumes "rx (ts_stream k) (req_encode_ping buf cid seq @ rest)" and "dc_open ch" and "alloc_ok alloc"
    and "willing (ts_stream w)"
  shows "\<exists>k' req w'. srv_read_req alloc cancel k = Fin (k', Ok req) \<and> rx (ts_stream k') rest \<and>
    serve_req disp codec req ch = Return ([], ch\<lparr>dc_queue := dc_queue ch @ [Err (seq, None)]\<rparr>, True) \<and>
    write_item enc codec (Err (seq, None)) w = Fin (w', Ok ()) \<and>
    srv_tx w' = srv_tx w @ resp_wire seq (Resp_Ok [] None)"
proof -
  have "rx (ts_stream k) (req_wire cid seq (Act_Num 0) [] None @ rest)"
    using assms(1) by (simp add: req_encode_ping_eq req_wire_def blob_bytes_def)
  then obtain k' where k': "srv_read_req alloc cancel k = Fin (k', Ok \<lparr>sq_seq = seq, sq_action = Act_Num 0,
      sq_msg = [], sq_blob = some_blob (blob_bytes None)\<rparr>)" "rx (ts_stream k') rest"
    using srv_read_req_rx [of k cid seq "Act_Num 0" "[]" None rest alloc cancel] assms(3)
    by (auto simp: req_fits_def blob_bytes_def)
  obtain w' where "srv_write_resp_internal seq None w = Fin (w', Ok ())"
    "srv_tx w' = srv_tx w @ resp_wire seq (Resp_Ok [] None)"
    using srv_write_internal_willing [OF assms(4), of seq None] assms(4)
      srv_write_internal_returns [of w seq None] by (auto simp: willing_def blob_bytes_def)
  with k' assms(2) show ?thesis
    by (auto simp: serve_req_def send_quick_resp_def noti_send_err_def write_item_def)
qed

theorem ping_answered_witness:
  "\<exists>k' req w'. srv_read_req (\<lambda>n. Some (unat n)) False (fresh_server (req_encode_ping [] 1 7)) = Fin (k', Ok req) \<and>
    serve_req keep_dispatch (msgp_codec byte_rmp) req \<lparr>dc_queue = [], dc_open = True\<rparr> =
      Return ([], \<lparr>dc_queue = [Err (7, None)], dc_open = True\<rparr>, True) \<and>
    write_item (variant_encode_resp codec_string) (msgp_codec byte_rmp) (Err (7, None)) ping_conn = Fin (w', Ok ())"
proof -
  let ?ch = "\<lparr>dc_queue = [], dc_open = True\<rparr> :: (byte, rust_str) server_task_variant done_chan"
  have "rx (ts_stream (fresh_server (req_encode_ping [] 1 7))) (req_encode_ping [] 1 7 @ [])"
    using rx_fresh [of "req_encode_ping [] 1 7"] by (simp add: fresh_server_def req_encode_ping_eq req_head_bytes_def)
  moreover have "willing (ts_stream ping_conn)"
    using new_conn_out [OF ping_conn_new] by (simp add: willing_def ping_conn_def)
  ultimately show ?thesis
    using ping_answered [of "fresh_server (req_encode_ping [] 1 7)" "[]" 1 7 "[]" ?ch "\<lambda>n. Some (unat n)" ping_conn False
        keep_dispatch "msgp_codec byte_rmp" "variant_encode_resp codec_string"] alloc_ok_unat by force
qed

end
