(* ===== verification/Rpc_Api.thy ===== *)
theory Rpc_Api
  imports Rpc_Server
begin

text \<open>
  The API layer. On the server: \<open>src/server/task.rs\<close> (\<open>APIServerReq\<close>, \<open>APIServerResp\<close>), the code that
  \<open>#[service]\<close> and \<open>#[service_mux_struct]\<close> generate (\<open>macros/src/service.rs\<close>,
  \<open>macros/src/service_mux_struct.rs\<close>), \<open>ServiceMuxDyn\<close> of \<open>src/server/service.rs\<close> and the dispatchers of
  \<open>src/server/dispatch.rs\<close>. On the client: \<open>make_req\<close> and \<open>process_res\<close> of \<open>src/client/mod.rs\<close>, and the
  action names that \<open>#[endpoint_async]\<close> generates (\<open>macros/src/endpoint_async.rs\<close>).
\<close>

section \<open>APIServerReq and APIServerResp\<close>

text \<open>
  A codec is generic in the message type; the operations that encode or decode take it at the type
  they use it at. \<open>aq_noti\<close> names the channel the response is sent on.
\<close>

record api_server_req =
  aq_seq :: u64
  aq_service :: rust_str
  aq_method :: rust_str
  aq_req :: "bytes option"
  aq_noti :: nat

record api_server_resp =
  ap_seq :: u64
  ap_msg :: "bytes option"
  ap_res :: "(unit, encoded_err) result option"

text \<open>Each of the three completions consumes the request and sends one response on its channel.\<close>

definition aq_set_result :: "'p codec \<Rightarrow> 'p \<Rightarrow> api_server_req \<Rightarrow> nat \<times> api_server_resp" where
  "aq_set_result codec resp t =
     (case cd_encode codec resp of
        Inl _ \<Rightarrow>
          (aq_noti t, \<lparr>ap_seq = aq_seq t, ap_msg = None, ap_res = Some (Err (encoded_err_from_int Encode))\<rparr>)
      | Inr msg \<Rightarrow> (aq_noti t, \<lparr>ap_seq = aq_seq t, ap_msg = Some msg, ap_res = Some (Ok ())\<rparr>))"

definition aq_set_rpc_error :: "rpc_int_err \<Rightarrow> api_server_req \<Rightarrow> nat \<times> api_server_resp" where
  "aq_set_rpc_error e t =
     (aq_noti t, \<lparr>ap_seq = aq_seq t, ap_msg = None, ap_res = Some (Err (encoded_err_from_int e))\<rparr>)"

definition aq_set_error :: "'e rpc_err_codec \<Rightarrow> 'e rpc_error \<Rightarrow> api_server_req \<Rightarrow> nat \<times> api_server_resp" where
  "aq_set_error ec e t =
     (let encoded = (case e of Rpc_Int i \<Rightarrow> encoded_err_from_int i | Rpc_User u \<Rightarrow> err_encode ec u) in
      (aq_noti t, \<lparr>ap_seq = aq_seq t, ap_msg = None, ap_res = Some (Err encoded)\<rparr>))"

definition api_resp_encode :: "('c, api_server_resp) server_encode" where
  "api_resp_encode codec t buf =
     (case ap_res t of
        None \<Rightarrow> Panic
      | Some res \<Rightarrow>
          (let t = t\<lparr>ap_res := None\<rparr> in
           Return
             (case res of
                Inr _ \<Rightarrow>
                  (case ap_msg t of
                     Some msg \<Rightarrow> (buf @ msg, t, ap_seq t, Ok (length msg, None))
                   | None \<Rightarrow> (buf, t, ap_seq t, Ok (0, None)))
              | Inl e \<Rightarrow> (buf, t, ap_seq t, Err e))))"

definition api_answer :: "api_server_resp \<Rightarrow> response option" where
  "api_answer t =
     (case ap_res t of
        None \<Rightarrow> None
      | Some (Inr _) \<Rightarrow> Some (Resp_Ok (blob_bytes (ap_msg t)) None)
      | Some (Inl e) \<Rightarrow> Some (Resp_Err e))"

interpretation api_resp: server_task api_resp_encode codec ap_seq api_answer for codec
  by unfold_locales
     (auto simp: api_resp_encode_def api_answer_def blob_bytes_def Let_def split: sum.splits option.splits)

section \<open>Services\<close>

text \<open>
  What serving a request does: it sends one response, unless the user's method panics. A handler is
  what \<open>#[service]\<close> generates around a method \<open>f\<close> of the user, with the codec at the argument's and
  at the result's type.
\<close>

type_synonym api_handler = "api_server_req \<Rightarrow> (nat \<times> api_server_resp) outcome"

definition handle_method ::
  "'a codec \<Rightarrow> 'p codec \<Rightarrow> 'e rpc_err_codec \<Rightarrow> ('a \<Rightarrow> ('p, 'e rpc_error) result outcome) \<Rightarrow> api_handler" where
  "handle_method arg_codec resp_codec ec f req =
     (case aq_req req of
        None \<Rightarrow> Panic
      | Some buf \<Rightarrow>
          (case cd_decode arg_codec buf of
             Inl _ \<Rightarrow> Return (aq_set_rpc_error Decode req)
           | Inr arg \<Rightarrow>
               (case f arg of
                  Panic \<Rightarrow> Panic
                | Return (Inr resp) \<Rightarrow> Return (aq_set_result resp_codec resp req)
                | Return (Inl e) \<Rightarrow> Return (aq_set_error ec e req))))"

text \<open>The generated \<open>serve\<close>, a match on the method name with one arm per method.\<close>

definition service_serve :: "(rust_str \<times> api_handler) list \<Rightarrow> api_handler" where
  "service_serve arms req =
     (case map_of arms (aq_method req) of
        Some handler \<Rightarrow> handler req
      | None \<Rightarrow> Return (aq_set_rpc_error Method req))"

text \<open>A value of a type that implements \<open>ServiceStatic\<close>: \<open>SERVICE_NAME\<close> and \<open>serve\<close>.\<close>

record service =
  svc_name :: rust_str
  svc_serve :: api_handler

definition mux_struct_serve :: "service list \<Rightarrow> api_handler" where
  "mux_struct_serve fs req =
     (case find (\<lambda>s. svc_name s = aq_service req) fs of
        Some s \<Rightarrow> svc_serve s req
      | None \<Rightarrow> Return (aq_set_rpc_error Service req))"

type_synonym service_mux_dyn = "(rust_str, service) hash_map"

definition mux_dyn_new :: service_mux_dyn where
  "mux_dyn_new = []"

definition mux_dyn_add :: "service \<Rightarrow> service_mux_dyn \<Rightarrow> service_mux_dyn" where
  "mux_dyn_add s m = hm_insert (svc_name s) s m"

definition mux_dyn_serve :: "service_mux_dyn \<Rightarrow> api_handler" where
  "mux_dyn_serve m req =
     (case map_of m (aq_service req) of
        Some s \<Rightarrow> svc_serve s req
      | None \<Rightarrow> Return (aq_set_rpc_error Service req))"

section \<open>Dispatch\<close>

fun split_once :: "byte \<Rightarrow> rust_str \<Rightarrow> (rust_str \<times> rust_str) option" where
  "split_once d [] = None"
| "split_once d (b # bs) =
     (if b = d then Some ([], bs)
      else (case split_once d bs of Some (l, r) \<Rightarrow> Some (b # l, r) | None \<Rightarrow> None))"

definition dot :: byte where
  "dot = 46"

definition api_dispatch_req ::
  "(api_server_req \<Rightarrow> (api_server_req, api_server_resp) dispatched) \<Rightarrow> nat \<Rightarrow>
   ('c, api_server_req, api_server_resp) dispatch" where
  "api_dispatch_req d noti codec req =
     (case sq_action req of
        Act_Str action \<Rightarrow>
          (case split_once dot action of
             Some (service, method) \<Rightarrow>
               d \<lparr>aq_seq = sq_seq req, aq_service = service, aq_method = method, aq_req = Some (sq_msg req),
                  aq_noti = noti\<rparr>
           | None \<Rightarrow> Return ([], [], Err ()))
      | Act_Num _ \<Rightarrow> Return ([], [], Err ()))"

definition inline_dispatch :: "api_handler \<Rightarrow> api_server_req \<Rightarrow> (api_server_req, api_server_resp) dispatched" where
  "inline_dispatch serve req =
     (case serve req of
        Panic \<Rightarrow> Panic
      | Return (noti, resp) \<Rightarrow> Return ([], [resp], Ok ()))"

section \<open>The client\<close>

text \<open>The action of a generated method: \<open>format!("{}.{}", trait_name, method_name)\<close>.\<close>

definition service_method :: "rust_str \<Rightarrow> rust_str \<Rightarrow> rust_str" where
  "service_method trait_name method_name = trait_name @ [dot] @ method_name"

definition make_req :: "'q codec \<Rightarrow> rust_str \<Rightarrow> 'q \<Rightarrow> nat \<Rightarrow> api_client_req outcome" where
  "make_req codec action req done_tx =
     (case cd_encode codec req of
        Inl _ \<Rightarrow> Panic
      | Inr req_buf \<Rightarrow>
          Return \<lparr>ar_common = \<lparr>cm_seq = 0\<rparr>, ar_req_msg = Some req_buf, ar_action = action, ar_resp = None,
                  ar_res = None, ar_noti = Some done_tx\<rparr>)"

text \<open>\<open>dflt\<close> is \<open>Resp::default()\<close>; the argument is what the channel delivered.\<close>

definition process_res ::
  "'p codec \<Rightarrow> 'p \<Rightarrow> 'e rpc_err_codec \<Rightarrow> (api_client_req, unit) result \<Rightarrow> ('p, 'e rpc_error) result outcome" where
  "process_res codec dflt ec task_res =
     (case task_res of
        Inr task \<Rightarrow>
          (case ar_res task of
             None \<Rightarrow> Panic
           | Some (Inr _) \<Rightarrow>
               Return
                 (case ar_resp task of
                    Some resp \<Rightarrow>
                      (case cd_decode codec resp of
                         Inr resp_msg \<Rightarrow> Ok resp_msg
                       | Inl _ \<Rightarrow> Err (rpc_error_from_int Decode))
                  | None \<Rightarrow> Ok dflt)
           | Some (Inl (Enc_Rpc e)) \<Rightarrow> Return (Err (Rpc_Int e))
           | Some (Inl (Enc_Num n)) \<Rightarrow>
               Return (case err_decode ec (Inr n) of
                         Some e \<Rightarrow> Err (Rpc_User e)
                       | None \<Rightarrow> Err (rpc_error_from_int Decode))
           | Some (Inl (Enc_Buf buf)) \<Rightarrow>
               Return (case err_decode ec (Inl buf) of
                         Some e \<Rightarrow> Err (Rpc_User e)
                       | None \<Rightarrow> Err (rpc_error_from_int Decode))
           | Some (Inl (Enc_Static _)) \<Rightarrow> Panic)
      | Inl _ \<Rightarrow> Return (Err (rpc_error_from_int Internal)))"

text \<open>
  \<open>call\<close> of the two endpoints: make the task, send it, wait for it on its own channel; \<open>deliver\<close> is what the
  channel gives after the task was handed to the caller, an error when it was dropped.
\<close>

definition endpoint_call ::
  "'q codec \<Rightarrow> 'p codec \<Rightarrow> 'p \<Rightarrow> 'e rpc_err_codec \<Rightarrow> rust_str \<Rightarrow> 'q \<Rightarrow> nat \<Rightarrow>
   (api_client_req \<Rightarrow> (api_client_req, unit) result) \<Rightarrow> ('p, 'e rpc_error) result outcome" where
  "endpoint_call cq cp dflt ec action req tx deliver =
     (case make_req cq action req tx of
        Panic \<Rightarrow> Panic
      | Return t \<Rightarrow> process_res cp dflt ec (deliver t))"

section \<open>A service answers its request\<close>

definition own_answer :: "api_server_req \<Rightarrow> nat \<times> api_server_resp \<Rightarrow> bool" where
  "own_answer req p \<longleftrightarrow> fst p = aq_noti req \<and> ap_seq (snd p) = aq_seq req"

lemma own_answer_set [simp]:
  "own_answer t (aq_set_result cd p t)" "own_answer t (aq_set_rpc_error i t)" "own_answer t (aq_set_error ec e t)"
  by (simp_all add: own_answer_def aq_set_result_def aq_set_rpc_error_def aq_set_error_def Let_def split: sum.split)

text \<open>What the dispatcher relies on: a service sends the response of its request, on the request's channel.\<close>

locale api_service =
  fixes serve :: api_handler
  assumes serves: "pred_outcome (own_answer req) (serve req)"
begin

lemma serves_Return: "serve req = Return p \<Longrightarrow> own_answer req p"
  using serves [of req] by simp

lemma inline_dispatcher: "dispatcher (api_dispatch_req (inline_dispatch serve) noti) codec aq_seq ap_seq"
  by unfold_locales
     (auto simp: api_dispatch_req_def inline_dispatch_def own_answer_def dest!: serves_Return
       split: rpc_action.splits option.splits outcome.splits)

end

sublocale api_service \<subseteq> inline: dispatcher "api_dispatch_req (inline_dispatch serve) noti" codec aq_seq ap_seq
  for noti codec
  by (rule inline_dispatcher)

interpretation handler: api_service "handle_method arg_codec resp_codec ec f" for arg_codec resp_codec ec f
  by unfold_locales (simp add: handle_method_def split: option.split sum.split outcome.split)

lemma service_serve_ok: "\<forall>h \<in> snd ` set arms. api_service h \<Longrightarrow> api_service (service_serve arms)"
  by unfold_locales
     (force simp: service_serve_def split: option.split dest!: map_of_SomeD intro: api_service.serves)

lemma mux_struct_ok: "\<forall>s \<in> set fs. api_service (svc_serve s) \<Longrightarrow> api_service (mux_struct_serve fs)"
  by unfold_locales
     (auto simp: mux_struct_serve_def find_Some_iff split: option.split intro: api_service.serves)

section \<open>Lookup by name\<close>

lemma find_map_of: "find (\<lambda>s. svc_name s = n) ss = map_of (map (\<lambda>s. (svc_name s, s)) ss) n"
  by (induction ss) auto

lemma mux_dyn_lookup:
  "hm_wf m \<Longrightarrow> map_of (fold mux_dyn_add ss m) = map_of m ++ map_of (rev (map (\<lambda>s. (svc_name s, s)) ss))"
proof (induction ss arbitrary: m)
  case Nil
  then show ?case by simp
next
  case (Cons s ss)
  then have "hm_wf (mux_dyn_add s m)" by (simp add: mux_dyn_add_def)
  from Cons.IH [OF this] Cons.prems show ?case
    by (auto simp: mux_dyn_add_def hm_lookup_insert map_add_def fun_eq_iff split: option.splits)
qed

lemma mux_dyn_ok: "\<forall>s \<in> set ss. api_service (svc_serve s) \<Longrightarrow> api_service (mux_dyn_serve (fold mux_dyn_add ss mux_dyn_new))"
  by unfold_locales
     (auto simp: mux_dyn_serve_def mux_dyn_new_def mux_dyn_lookup split: option.split dest!: map_of_SomeD
       intro: api_service.serves)

lemma mux_dyn_struct:
  assumes "distinct (map svc_name ss)"
  shows "mux_dyn_serve (fold mux_dyn_add ss mux_dyn_new) = mux_struct_serve ss"
proof -
  have "map_of (rev (map (\<lambda>s. (svc_name s, s)) ss)) = map_of (map (\<lambda>s. (svc_name s, s)) ss)"
    using assms by (subst map_of_inject_set) (simp_all add: rev_map [symmetric] comp_def)
  then show ?thesis
    by (simp add: fun_eq_iff mux_dyn_serve_def mux_struct_serve_def mux_dyn_new_def mux_dyn_lookup find_map_of)
qed

lemma split_once_service_method [simp]: "dot \<notin> set sn \<Longrightarrow> split_once dot (service_method sn mn) = Some (sn, mn)"
  by (induction sn) (auto simp: service_method_def)

lemma split_once_None: "split_once d s = None \<longleftrightarrow> d \<notin> set s"
  by (induction s) (auto split: option.split)

lemma split_once_Some: "split_once d s = Some (l, r) \<Longrightarrow> s = l @ d # r \<and> d \<notin> set l"
  by (induction s arbitrary: l) (auto split: if_splits option.splits)

section \<open>What a method answers\<close>

text \<open>The response that carries a method's result, and the response to a message, \<open>None\<close> when the method panics.\<close>

fun result_response :: "'p codec \<Rightarrow> 'e rpc_err_codec \<Rightarrow> ('p, 'e rpc_error) result \<Rightarrow> response" where
  "result_response cp ec (Inl (Rpc_Int i)) = Resp_Err (Enc_Rpc i)"
| "result_response cp ec (Inl (Rpc_User e)) = Resp_Err (err_encode ec e)"
| "result_response cp ec (Inr p) =
     (case cd_encode cp p of Inr w \<Rightarrow> Resp_Ok w None | Inl _ \<Rightarrow> Resp_Err (Enc_Rpc Encode))"

definition method_answer ::
  "'a codec \<Rightarrow> 'p codec \<Rightarrow> 'e rpc_err_codec \<Rightarrow> ('a \<Rightarrow> ('p, 'e rpc_error) result outcome) \<Rightarrow> bytes \<Rightarrow> response option" where
  "method_answer ca cp ec f m =
     (case cd_decode ca m of
        Inl _ \<Rightarrow> Some (Resp_Err (Enc_Rpc Decode))
      | Inr arg \<Rightarrow> (case f arg of Panic \<Rightarrow> None | Return res \<Rightarrow> Some (result_response cp ec res)))"

lemma handle_method_answer:
  assumes "aq_req req = Some m"
  shows "case handle_method ca cp ec f req of
      Panic \<Rightarrow> method_answer ca cp ec f m = None
    | Return p \<Rightarrow> own_answer req p \<and> method_answer ca cp ec f m = api_answer (snd p) \<and> api_answer (snd p) \<noteq> None"
  using assms handler.serves_Return [of ca cp ec f req]
  by (auto simp: handle_method_def method_answer_def api_answer_def aq_set_result_def aq_set_rpc_error_def
      aq_set_error_def encoded_err_from_int_def Let_def blob_bytes_def
      split: outcome.splits sum.splits rpc_error.splits)

text \<open>The request a client's call becomes, and the service of a set that is to answer it.\<close>

definition api_req :: "rpc_svr_req \<Rightarrow> rust_str \<Rightarrow> rust_str \<Rightarrow> nat \<Rightarrow> api_server_req" where
  "api_req req sn mn noti =
     \<lparr>aq_seq = sq_seq req, aq_service = sn, aq_method = mn, aq_req = Some (sq_msg req), aq_noti = noti\<rparr>"

lemma api_req_fields [simp]:
  "aq_seq (api_req req sn mn noti) = sq_seq req" "aq_service (api_req req sn mn noti) = sn"
  "aq_method (api_req req sn mn noti) = mn" "aq_req (api_req req sn mn noti) = Some (sq_msg req)"
  "aq_noti (api_req req sn mn noti) = noti"
  by (simp_all add: api_req_def)

text \<open>The request is answered with \<open>a\<close>: one response with its number enters the channel.\<close>

definition replies ::
  "rpc_svr_req \<Rightarrow> api_server_resp done_chan \<Rightarrow> response \<Rightarrow> ('t list \<times> api_server_resp done_chan \<times> bool) outcome \<Rightarrow> bool" where
  "replies req ch a out \<longleftrightarrow>
     (\<exists>r. out = Return ([], ch\<lparr>dc_queue := dc_queue ch @ [Ok r]\<rparr>, True) \<and> ap_seq r = sq_seq req \<and> api_answer r = Some a)"

lemma serve_req_inline:
  assumes "sq_action req = Act_Str (service_method sn mn)" "dot \<notin> set sn" "dc_open ch"
  shows "serve_req (api_dispatch_req (inline_dispatch serve) noti) codec req ch =
    (case serve (api_req req sn mn noti) of
       Panic \<Rightarrow> Panic
     | Return (n, r) \<Rightarrow> Return ([], ch\<lparr>dc_queue := dc_queue ch @ [Ok r]\<rparr>, True))"
  using assms
  by (simp add: serve_req_def api_dispatch_req_def inline_dispatch_def api_req_def noti_done_def
      split: outcome.split prod.split)

lemma serve_req_method:
  assumes "sq_action req = Act_Str (service_method sn mn)" "dot \<notin> set sn" "dc_open ch"
    and "serve (api_req req sn mn noti) = handle_method ca cp ec f (api_req req sn mn noti)"
  shows "case method_answer ca cp ec f (sq_msg req) of
      None \<Rightarrow> serve_req (api_dispatch_req (inline_dispatch serve) noti) codec req ch = Panic
    | Some a \<Rightarrow> replies req ch a (serve_req (api_dispatch_req (inline_dispatch serve) noti) codec req ch)"
  using handle_method_answer [of "api_req req sn mn noti" "sq_msg req" ca cp ec f]
    serve_req_inline [OF assms(1-3), of serve noti codec] assms(4)
  by (auto simp: own_answer_def replies_def split: outcome.splits option.splits)

lemma serve_req_error:
  assumes "sq_action req = Act_Str (service_method sn mn)" "dot \<notin> set sn" "dc_open ch"
    and "serve (api_req req sn mn noti) = Return (aq_set_rpc_error e (api_req req sn mn noti))"
  shows "replies req ch (Resp_Err (Enc_Rpc e)) (serve_req (api_dispatch_req (inline_dispatch serve) noti) codec req ch)"
  using serve_req_inline [OF assms(1-3), of serve noti codec] assms(4)
  unfolding replies_def
  by (intro exI [of _ "snd (aq_set_rpc_error e (api_req req sn mn noti))"])
     (simp add: aq_set_rpc_error_def api_answer_def encoded_err_from_int_def)

lemma mux_struct_at:
  assumes "distinct (map svc_name ss)" "\<lparr>svc_name = sn, svc_serve = h\<rparr> \<in> set ss" "aq_service req = sn"
  shows "mux_struct_serve ss req = h req"
proof -
  have "map_of (map (\<lambda>s. (svc_name s, s)) ss) sn = Some \<lparr>svc_name = sn, svc_serve = h\<rparr>"
    using assms(1,2) by (intro map_of_is_SomeI) (force simp: comp_def)+
  then show ?thesis using assms(3) by (simp add: mux_struct_serve_def find_map_of)
qed

section \<open>Properties\<close>

text \<open>
  C28: the two ways to combine services agree: a struct of services with pairwise different names serves
  every request exactly as \<open>ServiceMuxDyn\<close> does after the same services were added to it.
\<close>

theorem mux_equivalent:
  assumes "distinct (map svc_name ss)"
  shows "mux_dyn_serve (fold mux_dyn_add ss mux_dyn_new) req = mux_struct_serve ss req"
  by (simp only: mux_dyn_struct [OF assms])

text \<open>A service with one method that adds one to a byte and refuses 255, for concrete instances.\<close>

definition inc :: "byte \<Rightarrow> (byte, rust_str rpc_error) result outcome" where
  "inc b = Return (if b = 255 then Err (Rpc_User (str ''overflow'')) else Ok (b + 1))"

definition inc_arms :: "(rust_str \<times> api_handler) list" where
  "inc_arms = [(str ''inc'', handle_method (msgp_codec byte_rmp) (msgp_codec byte_rmp) codec_string inc)]"

definition calc :: service where
  "calc = \<lparr>svc_name = str ''Calc'', svc_serve = service_serve inc_arms\<rparr>"

definition echo :: service where
  "echo = \<lparr>svc_name = str ''Echo'', svc_serve = service_serve []\<rparr>"

theorem mux_equivalent_witness:
  "mux_dyn_serve (fold mux_dyn_add [calc, echo] mux_dyn_new) = mux_struct_serve [calc, echo]"
proof
  have "distinct (map svc_name [calc, echo])" by (simp add: calc_def echo_def str_def)
  from mux_equivalent [OF this]
  show "mux_dyn_serve (fold mux_dyn_add [calc, echo] mux_dyn_new) req = mux_struct_serve [calc, echo] req" for req .
qed


definition calc_req :: "rust_str \<Rightarrow> rpc_svr_req" where
  "calc_req a = \<lparr>sq_seq = 7, sq_action = Act_Str a, sq_msg = [4], sq_blob = None\<rparr>"


end
