(* ===== verification/Rpc_Timer.thy ===== *)
theory Rpc_Timer
  imports Rpc_Client_Task
begin

text \<open>
  The registry of requests in flight, \<open>ClientTaskTimer\<close> of \<open>stream/src/client/timer.rs\<close>, and the
  throttler of \<open>stream/src/client/throttler.rs\<close>. A registered task travels through a bounded channel
  into the batch of the current second, from there through the batches of the past seconds, and
  leaves by its response, by the timeout, or when the connection is cleaned up.

  An item is its task: \<open>reg_task\<close> builds the item with \<open>Some(task)\<close>, and the option is emptied only
  by code that has removed the item. The guard in an item keeps the throttler's count: it is the
  number of live items, \<open>timer_inflight\<close>.
\<close>

section \<open>ClientTaskTimer\<close>

record 't timer =
  tm_chan :: "'t list"
  tm_chan_cap :: nat
  tm_pending_count :: u64
  tm_sent :: "(u64, 't) hash_map"
  tm_delay :: "(u64, 't) hash_map list"
  tm_min_delay_seq :: u64
  tm_task_timeout :: nat
  tm_processed_seq :: u64
  tm_reg_stopped :: bool

definition timer_new :: "nat \<Rightarrow> nat \<Rightarrow> 't timer" where
  "timer_new task_timeout thresholds =
     (let thresholds = (if thresholds = 0 then 500 else thresholds) in
      \<lparr>tm_chan = [], tm_chan_cap = thresholds * 2, tm_pending_count = 0, tm_sent = [], tm_delay = [],
       tm_min_delay_seq = 0, tm_task_timeout = task_timeout, tm_processed_seq = 0,
       tm_reg_stopped = False\<rparr>)"

definition pending_add :: "'t timer \<Rightarrow> 't timer" where
  "pending_add tm = tm\<lparr>tm_pending_count := tm_pending_count tm + 1\<rparr>"

definition pending_sub :: "'t timer \<Rightarrow> 't timer" where
  "pending_sub tm = tm\<lparr>tm_pending_count := tm_pending_count tm - 1\<rparr>"

definition got_pending_task :: "('c, 't) client_task_ops \<Rightarrow> 't \<Rightarrow> 't timer \<Rightarrow> 't timer" where
  "got_pending_task ct t tm =
     (let tm = pending_sub tm; task_seq = ct_seq ct t in
      tm\<lparr>tm_processed_seq := task_seq, tm_sent := hm_insert task_seq t (tm_sent tm)\<rparr>)"

text \<open>The loop over \<open>try_recv\<close> or \<open>poll_item\<close> until the channel is empty.\<close>

fun recv_loop :: "('c, 't) client_task_ops \<Rightarrow> 't list \<Rightarrow> 't timer \<Rightarrow> 't timer" where
  "recv_loop ct [] tm = tm"
| "recv_loop ct (t # ts) tm = recv_loop ct ts (got_pending_task ct t (tm\<lparr>tm_chan := ts\<rparr>))"

definition drain :: "('c, 't) client_task_ops \<Rightarrow> 't timer \<Rightarrow> 't timer" where
  "drain ct tm = recv_loop ct (tm_chan tm) tm"

definition poll_sent_task :: "('c, 't) client_task_ops \<Rightarrow> 't timer \<Rightarrow> 't timer \<times> bool" where
  "poll_sent_task ct tm = (drain ct tm, tm_chan tm \<noteq> [])"

text \<open>
  The loop of \<open>clean_pending_tasks\<close> over the collected keys of a map; \<open>e\<close> is the error set. The
  \<open>unwrap\<close> of the removal is \<open>the\<close>: every key was collected from the map.
\<close>

fun fail_keys ::
  "('c, 't) client_task_ops \<Rightarrow> rpc_int_err \<Rightarrow> u64 list \<Rightarrow> (u64, 't) hash_map \<Rightarrow>
   (u64, 't) hash_map \<times> 't task_event list" where
  "fail_keys ct e [] m = (m, [])"
| "fail_keys ct e (k # ks) m =
     (let t = the (map_of m k) in
      case fail_keys ct e ks (hm_remove k m) of
        (m', evs) \<Rightarrow> (m', Error_Handle (ct_set_rpc_error ct e t) # evs))"

definition clean_map ::
  "((u64, 't) hash_map \<Rightarrow> (u64, 't) hash_map) \<Rightarrow> ('c, 't) client_task_ops \<Rightarrow> (u64, 't) hash_map \<Rightarrow>
   (u64, 't) hash_map \<times> 't task_event list" where
  "clean_map ord ct m = fail_keys ct IO (map fst (ord m)) m"

fun clean_batches ::
  "((u64, 't) hash_map \<Rightarrow> (u64, 't) hash_map) \<Rightarrow> ('c, 't) client_task_ops \<Rightarrow>
   (u64, 't) hash_map list \<Rightarrow> (u64, 't) hash_map list \<times> 't task_event list" where
  "clean_batches ord ct [] = ([], [])"
| "clean_batches ord ct (b # bs) =
     (case clean_map ord ct b of (b', evs) \<Rightarrow>
        (case clean_batches ord ct bs of (bs', evs') \<Rightarrow> (b' # bs', evs @ evs')))"

definition clean_pending_tasks ::
  "((u64, 't) hash_map \<Rightarrow> (u64, 't) hash_map) \<Rightarrow> ('c, 't) client_task_ops \<Rightarrow> 't timer \<Rightarrow>
   't timer \<times> 't task_event list" where
  "clean_pending_tasks ord ct tm =
     (let tm = drain ct tm in
      case clean_map ord ct (tm_sent tm) of (sent, evs) \<Rightarrow>
        (case clean_batches ord ct (tm_delay tm) of (delay, evs') \<Rightarrow>
           (tm\<lparr>tm_sent := sent, tm_delay := delay\<rparr>, evs @ evs')))"

definition check_pending_tasks_empty :: "('c, 't) client_task_ops \<Rightarrow> 't timer \<Rightarrow> 't timer \<times> bool" where
  "check_pending_tasks_empty ct tm =
     (let tm = drain ct tm in
      (tm, tm_sent tm = [] \<and> list_all (\<lambda>b. b = []) (tm_delay tm)))"

text \<open>\<open>send().await\<close> on the bounded channel waits while the channel is full.\<close>

definition reg_task :: "'t \<Rightarrow> 't timer \<Rightarrow> 't timer \<times> unit poll" where
  "reg_task t tm =
     (if length (tm_chan tm) < tm_chan_cap tm then (tm\<lparr>tm_chan := tm_chan tm @ [t]\<rparr>, Ready ())
      else (tm, Pending))"

definition stop_reg_task :: "'t timer \<Rightarrow> 't timer" where
  "stop_reg_task tm = tm\<lparr>tm_reg_stopped := True\<rparr>"

text \<open>One poll of \<open>WaitRegTaskFuture\<close>.\<close>

definition wait_reg_poll ::
  "('c, 't) client_task_ops \<Rightarrow> u64 \<Rightarrow> 't timer \<Rightarrow> 't timer \<times> (unit, unit) result poll" where
  "wait_reg_poll ct target tm =
     (if target \<le> tm_processed_seq tm then (tm, Ready (Ok ()))
      else if tm_reg_stopped tm then (tm, Ready (Err ()))
      else
        (case poll_sent_task ct tm of (tm', got) \<Rightarrow>
           (if got \<and> target \<le> tm_processed_seq tm' then (tm', Ready (Ok ())) else (tm', Pending))))"

fun take_delayed :: "u64 \<Rightarrow> (u64, 't) hash_map list \<Rightarrow> (u64, 't) hash_map list \<times> 't option" where
  "take_delayed seq [] = ([], None)"
| "take_delayed seq (b # bs) =
     (case map_of b seq of
        Some t \<Rightarrow> (hm_remove seq b # bs, Some t)
      | None \<Rightarrow> (case take_delayed seq bs of (bs', r) \<Rightarrow> (b # bs', r)))"

definition take_registered :: "u64 \<Rightarrow> 't timer \<Rightarrow> 't timer \<times> 't option" where
  "take_registered seq tm =
     (case map_of (tm_sent tm) seq of
        Some t \<Rightarrow> (tm\<lparr>tm_sent := hm_remove seq (tm_sent tm)\<rparr>, Some t)
      | None \<Rightarrow>
          (case take_delayed seq (tm_delay tm) of (d, r) \<Rightarrow> (tm\<lparr>tm_delay := d\<rparr>, r)))"

definition take_task ::
  "('c, 't) client_task_ops \<Rightarrow> u64 \<Rightarrow> 't timer \<Rightarrow> 't timer \<times> 't option poll" where
  "take_task ct seq tm =
     (if seq < tm_min_delay_seq tm then (tm, Ready None)
      else
        (case (if tm_processed_seq tm < seq then wait_reg_poll ct seq tm else (tm, Ready (Ok ()))) of
           (tm', Pending) \<Rightarrow> (tm', Pending)
         | (tm', Ready (Inl _)) \<Rightarrow> (tm', Ready None)
         | (tm', Ready (Inr _)) \<Rightarrow>
             (case take_registered seq tm' of (tm'', r) \<Rightarrow> (tm'', Ready r))))"

text \<open>The loop of \<open>adjust_task_queue\<close> over the entries of the oldest batch.\<close>

fun timeout_loop ::
  "('c, 't) client_task_ops \<Rightarrow> u64 \<Rightarrow> (u64, 't) hash_map \<Rightarrow> u64 \<times> 't task_event list" where
  "timeout_loop ct min_seq [] = (min_seq, [])"
| "timeout_loop ct min_seq ((_, t) # m) =
     (let seq = ct_seq ct t;
          min_seq = (if min_seq = 0 then seq else if seq < min_seq then seq else min_seq) in
      case timeout_loop ct min_seq m of
        (r, evs) \<Rightarrow> (r, Error_Handle (ct_set_rpc_error ct Timeout t) # evs))"

definition adjust_task_queue ::
  "((u64, 't) hash_map \<Rightarrow> (u64, 't) hash_map) \<Rightarrow> ('c, 't) client_task_ops \<Rightarrow> 't timer \<Rightarrow>
   't timer \<times> 't task_event list" where
  "adjust_task_queue ord ct tm =
     (let queue = tm_sent tm # tm_delay tm;
          tm = tm\<lparr>tm_sent := [], tm_delay := queue\<rparr> in
      if tm_task_timeout tm < length queue then
        (let real_timeout = last queue;
             tm = tm\<lparr>tm_delay := butlast queue\<rparr> in
         if real_timeout \<noteq> [] then
           (case timeout_loop ct 0 (ord real_timeout) of
              (min_seq, evs) \<Rightarrow> (tm\<lparr>tm_min_delay_seq := min_seq\<rparr>, evs))
         else (tm, []))
      else (tm, []))"

section \<open>Throttler\<close>

text \<open>The wait group's count is the number of guards alive.\<close>

record throttler =
  th_thresholds :: nat

definition throttler_new :: "nat \<Rightarrow> throttler" where
  "throttler_new n = \<lparr>th_thresholds = n\<rparr>"

definition nearly_full :: "throttler \<Rightarrow> nat \<Rightarrow> bool" where
  "nearly_full th left \<longleftrightarrow> th_thresholds th < left + 1"

definition is_full :: "throttler \<Rightarrow> nat \<Rightarrow> bool" where
  "is_full th left \<longleftrightarrow> th_thresholds th \<le> left"

definition set_thresholds :: "nat \<Rightarrow> throttler \<Rightarrow> throttler" where
  "set_thresholds n th = th\<lparr>th_thresholds := n\<rparr>"

text \<open>
  \<open>wait_to(target)\<close> waits until at most \<open>target\<close> guards are left, and tells whether it waited; this
  is one poll of it. A threshold of zero never waits.
\<close>

definition throttle :: "throttler \<Rightarrow> nat \<Rightarrow> unit poll" where
  "throttle th left =
     (if 0 < th_thresholds th \<and> th_thresholds th < left then Pending else Ready ())"

definition timer_tasks :: "'t timer \<Rightarrow> 't multiset" where
  "timer_tasks tm =
     mset (tm_chan tm) + image_mset snd (mset (tm_sent tm)) +
     image_mset snd (mset (concat (tm_delay tm)))"

definition timer_inflight :: "'t timer \<Rightarrow> nat" where
  "timer_inflight tm = size (timer_tasks tm)"

section \<open>The invariant\<close>

text \<open>
  Tasks are registered in the order of their sequence numbers. So the maps hold what was processed,
  under its own number, newer batches have larger numbers than older ones, what is still in the
  channel comes after all of it, and nothing live is below \<open>min_delay_seq\<close>.
\<close>

definition batch_ok :: "('c, 't) client_task_ops \<Rightarrow> u64 \<Rightarrow> u64 \<Rightarrow> (u64, 't) hash_map \<Rightarrow> bool" where
  "batch_ok ct lo hi b \<longleftrightarrow> hm_wf b \<and> (\<forall>(k, t) \<in> set b. k = ct_seq ct t \<and> lo \<le> k \<and> k \<le> hi)"

definition newer :: "(u64, 't) hash_map \<Rightarrow> (u64, 't) hash_map \<Rightarrow> bool" where
  "newer a b \<longleftrightarrow> (\<forall>x \<in> hm_keys a. \<forall>y \<in> hm_keys b. y < x)"

definition timer_inv :: "('c, 't) client_task_ops \<Rightarrow> 't timer \<Rightarrow> bool" where
  "timer_inv ct tm \<longleftrightarrow>
     list_all (batch_ok ct (tm_min_delay_seq tm) (tm_processed_seq tm)) (tm_sent tm # tm_delay tm) \<and>
     sorted_wrt newer (tm_sent tm # tm_delay tm) \<and>
     sorted_wrt (<) (tm_processed_seq tm # map (ct_seq ct) (tm_chan tm)) \<and>
     tm_min_delay_seq tm \<le> tm_processed_seq tm \<and>
     length (tm_delay tm) \<le> tm_task_timeout tm"

lemma timer_new_inv: "timer_inv ct (timer_new timeout thresholds)"
  by (simp add: timer_inv_def timer_new_def Let_def batch_ok_def newer_def)

lemma newer_append: "newer (a @ a') b \<longleftrightarrow> newer a b \<and> newer a' b"
  by (auto simp: newer_def)

lemma batch_ok_append:
  "batch_ok ct lo hi (a @ [(ct_seq ct t, t)]) \<longleftrightarrow>
   batch_ok ct lo hi a \<and> ct_seq ct t \<notin> hm_keys a \<and> lo \<le> ct_seq ct t \<and> ct_seq ct t \<le> hi"
  by (auto simp: batch_ok_def hm_wf_def)

lemma batch_ok_mono: "batch_ok ct lo hi b \<Longrightarrow> lo' \<le> lo \<Longrightarrow> hi \<le> hi' \<Longrightarrow> batch_ok ct lo' hi' b"
  unfolding batch_ok_def by fastforce

lemma batch_ok_key_le: "batch_ok ct lo hi b \<Longrightarrow> k \<in> hm_keys b \<Longrightarrow> lo \<le> k \<and> k \<le> hi"
  unfolding batch_ok_def by fastforce

lemma newer_of_above: "batch_ok ct lo hi b \<Longrightarrow> hi < k \<Longrightarrow> newer [(k, t)] b"
  unfolding newer_def using batch_ok_key_le by fastforce

text \<open>Receiving the next task of the channel.\<close>

lemma got_pending_fresh:
  assumes "timer_inv ct tm" "tm_chan tm = t # ts"
  shows "got_pending_task ct t (tm\<lparr>tm_chan := ts\<rparr>) =
      tm\<lparr>tm_chan := ts, tm_pending_count := tm_pending_count tm - 1, tm_processed_seq := ct_seq ct t,
         tm_sent := tm_sent tm @ [(ct_seq ct t, t)]\<rparr>" (is "?l = ?r")
    and "timer_inv ct (got_pending_task ct t (tm\<lparr>tm_chan := ts\<rparr>))"
proof -
  let ?s = "ct_seq ct t" and ?lo = "tm_min_delay_seq tm" and ?hi = "tm_processed_seq tm"
  from assms have lt: "?hi < ?s" and ok: "list_all (batch_ok ct ?lo ?hi) (tm_sent tm # tm_delay tm)"
    by (simp_all add: timer_inv_def)
  have fresh: "?s \<notin> hm_keys (tm_sent tm)" using batch_ok_key_le lt ok by fastforce
  then show eq: "?l = ?r"
    by (simp add: got_pending_task_def Let_def pending_sub_def hm_insert_fresh)
  have ok': "list_all (batch_ok ct ?lo ?s) (tm_sent tm # tm_delay tm)"
    using ok batch_ok_mono [of ct ?lo ?hi _ ?lo ?s] lt by (auto simp: list_all_iff)
  moreover have "\<forall>b \<in> set (tm_delay tm). newer [(?s, t)] b"
    using ok lt newer_of_above [of ct ?lo ?hi _ ?s] by (auto simp: list_all_iff)
  ultimately show "timer_inv ct ?l"
    using assms fresh lt unfolding eq by (auto simp: timer_inv_def batch_ok_append newer_append)
qed

lemma drain_loop:
  assumes "timer_inv ct tm" "tm_chan tm = ts"
  shows "timer_inv ct (recv_loop ct ts tm) \<and>
    recv_loop ct ts tm =
      tm\<lparr>tm_chan := [], tm_pending_count := tm_pending_count tm - of_nat (length ts),
         tm_processed_seq := last (tm_processed_seq tm # map (ct_seq ct) ts),
         tm_sent := tm_sent tm @ map (\<lambda>t. (ct_seq ct t, t)) ts\<rparr>"
  using assms
proof (induction ts arbitrary: tm)
  case Nil
  then show ?case by simp
next
  case (Cons t ts)
  note g = got_pending_fresh [OF Cons.prems]
  have "tm_chan (got_pending_task ct t (tm\<lparr>tm_chan := ts\<rparr>)) = ts" by (simp add: g(1))
  from Cons.IH [OF g(2) this] show ?case
    by (auto simp: g(1) algebra_simps)
qed

lemma drain_inv: "timer_inv ct tm \<Longrightarrow> timer_inv ct (drain ct tm)"
  unfolding drain_def using drain_loop by blast

lemma drain_eq:
  "timer_inv ct tm \<Longrightarrow> drain ct tm =
      tm\<lparr>tm_chan := [], tm_pending_count := tm_pending_count tm - of_nat (length (tm_chan tm)),
         tm_processed_seq := last (tm_processed_seq tm # map (ct_seq ct) (tm_chan tm)),
         tm_sent := tm_sent tm @ map (\<lambda>t. (ct_seq ct t, t)) (tm_chan tm)\<rparr>"
  using drain_loop [of ct tm "tm_chan tm"] by (simp add: drain_def)

lemma drain_tasks: "timer_inv ct tm \<Longrightarrow> timer_tasks (drain ct tm) = timer_tasks tm"
  by (simp add: drain_eq timer_tasks_def multiset.map_comp comp_def)

section \<open>Cleaning up and timing out\<close>

lemma fail_keys_all:
  assumes "hm_wf m" "mset xs = mset m"
  shows "fail_keys ct e (map fst xs) m = ([], map (\<lambda>p. Error_Handle (ct_set_rpc_error ct e (snd p))) xs)"
  using assms
proof (induction xs arbitrary: m)
  case Nil
  then show ?case by simp
next
  case (Cons p xs)
  obtain k t where p: "p = (k, t)" by fastforce
  have "p \<in> set m" using Cons.prems(2) by (metis list.set_intros(1) set_mset_mset)
  then have look: "map_of m k = Some t" using Cons.prems(1) p by (simp add: hm_wf_map_of)
  have "mset (hm_remove k m) = mset xs"
    using mset_hm_remove [OF Cons.prems(1) look] Cons.prems(2) p by simp
  then have "fail_keys ct e (map fst xs) (hm_remove k m) =
      ([], map (\<lambda>p. Error_Handle (ct_set_rpc_error ct e (snd p))) xs)"
    using Cons.IH Cons.prems(1) by simp
  then show ?case by (simp add: p look)
qed

text \<open>The tasks that a list of events hands back, with the error that was set on them.\<close>

definition failed_with :: "('c, 't) client_task_ops \<Rightarrow> rpc_int_err \<Rightarrow> 't multiset \<Rightarrow> 't task_event multiset" where
  "failed_with ct e ts = image_mset (\<lambda>t. Error_Handle (ct_set_rpc_error ct e t)) ts"

lemma failed_with_union [simp]: "failed_with ct e (a + b) = failed_with ct e a + failed_with ct e b"
  by (simp add: failed_with_def)

lemma failed_with_empty [simp]: "failed_with ct e {#} = {#}"
  by (simp add: failed_with_def)

lemma clean_map_all:
  assumes "iter_order ord" "hm_wf m"
  shows "\<exists>evs. clean_map ord ct m = ([], evs) \<and> mset evs = failed_with ct IO (image_mset snd (mset m))"
proof -
  have ord: "mset (ord m) = mset m" by (rule iter_orderD [OF assms(1)])
  from fail_keys_all [OF assms(2) ord, of ct IO] show ?thesis
    by (simp add: clean_map_def failed_with_def multiset.map_comp comp_def ord)
qed

lemma clean_batches_all:
  assumes "iter_order ord" "list_all hm_wf bs"
  shows "\<exists>evs. clean_batches ord ct bs = (replicate (length bs) [], evs) \<and>
    mset evs = failed_with ct IO (image_mset snd (mset (concat bs)))"
  using assms(2)
proof (induction bs)
  case Nil
  then show ?case by simp
next
  case (Cons b bs)
  then show ?case using clean_map_all [OF assms(1), of b ct] by fastforce
qed

lemma timer_inv_wf: "timer_inv ct tm \<Longrightarrow> hm_wf (tm_sent tm) \<and> list_all hm_wf (tm_delay tm)"
  by (auto simp: timer_inv_def batch_ok_def list_all_iff)

lemma newer_Nil [simp]: "newer [] b" "newer a []"
  by (simp_all add: newer_def)

lemma batch_ok_Nil [simp]: "batch_ok ct lo hi []"
  by (simp add: batch_ok_def)

lemma concat_replicate_Nil [simp]: "concat (replicate n []) = []"
  by (induction n) simp_all

lemma timer_inv_emptied:
  "timer_inv ct tm \<Longrightarrow> timer_inv ct (tm\<lparr>tm_sent := [], tm_delay := replicate (length (tm_delay tm)) []\<rparr>)"
proof -
  have "sorted_wrt newer (replicate n ([] :: (u64 \<times> 'b) list))" for n
    by (induction n) simp_all
  moreover have "list_all (batch_ok ct lo hi) (replicate n [])" for n lo hi
    by (induction n) simp_all
  ultimately show "timer_inv ct tm \<Longrightarrow> ?thesis" by (simp add: timer_inv_def)
qed

lemma clean_pending_all:
  assumes "iter_order ord" "timer_inv ct tm"
  shows "\<exists>tm' evs. clean_pending_tasks ord ct tm = (tm', evs) \<and> timer_tasks tm' = {#} \<and>
    mset evs = failed_with ct IO (timer_tasks tm) \<and> timer_inv ct tm' \<and> tm_chan tm' = [] \<and>
    tm_pending_count tm' = tm_pending_count tm - of_nat (length (tm_chan tm))"
proof -
  let ?d = "drain ct tm"
  have inv: "timer_inv ct ?d" by (rule drain_inv [OF assms(2)])
  obtain e1 where e1: "clean_map ord ct (tm_sent ?d) = ([], e1)"
    "mset e1 = failed_with ct IO (image_mset snd (mset (tm_sent ?d)))"
    using clean_map_all [OF assms(1)] timer_inv_wf [OF inv] by blast
  obtain e2 where e2: "clean_batches ord ct (tm_delay ?d) = (replicate (length (tm_delay ?d)) [], e2)"
    "mset e2 = failed_with ct IO (image_mset snd (mset (concat (tm_delay ?d))))"
    using clean_batches_all [OF assms(1)] timer_inv_wf [OF inv] by blast
  have chan: "tm_chan ?d = []" "tm_pending_count ?d = tm_pending_count tm - of_nat (length (tm_chan tm))"
    by (simp_all add: drain_eq [OF assms(2)])
  let ?tm' = "?d\<lparr>tm_sent := [], tm_delay := replicate (length (tm_delay ?d)) []\<rparr>"
  have res: "clean_pending_tasks ord ct tm = (?tm', e1 @ e2)"
    using e1(1) e2(1) by (simp add: clean_pending_tasks_def Let_def)
  have "mset (e1 @ e2) = failed_with ct IO (timer_tasks ?d)"
    using e1(2) e2(2) chan(1) by (simp add: timer_tasks_def)
  then have "mset (e1 @ e2) = failed_with ct IO (timer_tasks tm)"
    by (simp only: drain_tasks [OF assms(2)])
  moreover have "timer_tasks ?tm' = {#}" using chan(1) by (simp add: timer_tasks_def)
  moreover have "timer_inv ct ?tm'" by (rule timer_inv_emptied [OF inv])
  ultimately show ?thesis using res chan by auto
qed

text \<open>One tick.\<close>

abbreviation min_step :: "u64 \<Rightarrow> u64 \<Rightarrow> u64" where
  "min_step m s \<equiv> (if m = 0 then s else if s < m then s else m)"

lemma timeout_loop_Cons:
  "timeout_loop ct m (p # xs) =
     (fst (timeout_loop ct (min_step m (ct_seq ct (snd p))) xs),
      Error_Handle (ct_set_rpc_error ct Timeout (snd p)) #
        snd (timeout_loop ct (min_step m (ct_seq ct (snd p))) xs))"
  by (cases p) (simp add: Let_def split_beta)

lemma timeout_loop_events:
  "snd (timeout_loop ct m xs) = map (\<lambda>p. Error_Handle (ct_set_rpc_error ct Timeout (snd p))) xs"
  by (induction xs arbitrary: m) (simp_all add: timeout_loop_Cons)

text \<open>The number remembered is one of the timed-out tasks' numbers.\<close>

lemma timeout_loop_min:
  "xs \<noteq> [] \<or> m \<noteq> 0 \<Longrightarrow>
   fst (timeout_loop ct m xs) \<in> ct_seq ct ` snd ` set xs \<union> (if m = 0 then {} else {m})"
proof (induction xs arbitrary: m)
  case Nil
  then show ?case by simp
next
  case (Cons p xs)
  then show ?case
    using Cons.IH [of "min_step m (ct_seq ct (snd p))"]
    by (cases "xs = []"; cases "m = 0"; cases "ct_seq ct (snd p) = 0")
       (auto simp: timeout_loop_Cons split: if_splits)
qed

text \<open>
  A tick moves every batch one second on. When the queue is longer than the timeout the oldest
  batch leaves, all its tasks failed, and nothing else.
\<close>

definition expired :: "'t timer \<Rightarrow> (u64, 't) hash_map" where
  "expired tm =
     (if length (tm_delay tm) = tm_task_timeout tm then last (tm_sent tm # tm_delay tm) else [])"

lemma adjust_events:
  assumes "iter_order ord" "timer_inv ct tm" "adjust_task_queue ord ct tm = (tm', evs)"
  shows "mset evs = failed_with ct Timeout (image_mset snd (mset (expired tm)))"
    and "timer_tasks tm = timer_tasks tm' + image_mset snd (mset (expired tm))"
proof -
  let ?q = "tm_sent tm # tm_delay tm"
  have ord: "mset (ord m) = mset m" for m by (rule iter_orderD [OF assms(1)])
  have len: "length (tm_delay tm) \<le> tm_task_timeout tm" using assms(2) by (simp add: timer_inv_def)
  show "mset evs = failed_with ct Timeout (image_mset snd (mset (expired tm)))"
    using assms(3) len timeout_loop_events [of ct 0 "ord (last ?q)"] ord [of "last ?q"]
    by (auto simp: adjust_task_queue_def Let_def expired_def failed_with_def multiset.map_comp comp_def
        split: if_splits prod.splits)
  have "mset (concat ?q) = mset (concat (butlast ?q)) + mset (last ?q)"
    by (metis append_butlast_last_id append_Nil2 concat.simps concat_append list.distinct(1) mset_append)
  then have "image_mset snd (mset (concat ?q)) =
      image_mset snd (mset (concat (butlast ?q))) + image_mset snd (mset (last ?q))"
    by (simp only: image_mset_union)
  then show "timer_tasks tm = timer_tasks tm' + image_mset snd (mset (expired tm))"
    using assms(3) len
    by (auto simp: adjust_task_queue_def Let_def expired_def timer_tasks_def
        split: if_splits prod.splits)
qed

lemma adjust_inv:
  assumes "iter_order ord" "timer_inv ct tm" "adjust_task_queue ord ct tm = (tm', evs)"
  shows "timer_inv ct tm'"
proof -
  let ?q = "tm_sent tm # tm_delay tm" and ?lo = "tm_min_delay_seq tm" and ?hi = "tm_processed_seq tm"
  have ok: "list_all (batch_ok ct ?lo ?hi) ?q" and sorted: "sorted_wrt newer ?q"
    and rest: "sorted_wrt (<) (?hi # map (ct_seq ct) (tm_chan tm))" "?lo \<le> ?hi"
      "length (tm_delay tm) \<le> tm_task_timeout tm"
    using assms(2) by (simp_all add: timer_inv_def)
  have q: "?q \<noteq> []" by simp
  have ok': "list_all (batch_ok ct ?lo ?hi) (butlast ?q)" "batch_ok ct ?lo ?hi (last ?q)"
    and sorted': "sorted_wrt newer (butlast ?q)" "\<forall>b \<in> set (butlast ?q). newer b (last ?q)"
    using ok [unfolded list_all_butlast_last [OF q]] sorted [unfolded sorted_wrt_butlast_last [OF q]]
    by blast+
  have raise: "list_all (batch_ok ct m ?hi) (butlast ?q) \<and> m \<le> ?hi" if "m \<in> hm_keys (last ?q)" for m
    using that ok' sorted'(2) batch_ok_key_le [OF ok'(2) that]
    unfolding list_all_iff batch_ok_def newer_def by (fastforce dest: less_imp_le)
  show ?thesis
  proof (cases "tm_task_timeout tm < length ?q")
    case False
    then show ?thesis
      using assms(3) ok sorted rest by (auto simp: adjust_task_queue_def Let_def timer_inv_def)
  next
    case True
    then have len: "length (butlast ?q) \<le> tm_task_timeout tm" using rest(3) by simp
    show ?thesis
    proof (cases "last ?q = []")
      case True
      then show ?thesis
        using assms(3) \<open>tm_task_timeout tm < length ?q\<close> len ok' sorted' rest
        by (auto simp: adjust_task_queue_def Let_def timer_inv_def)
    next
      case False
      let ?m = "fst (timeout_loop ct 0 (ord (last ?q)))"
      have keys: "ct_seq ct ` snd ` set (last ?q) = hm_keys (last ?q)"
        using ok'(2) by (force simp: batch_ok_def image_iff)
      have "ord (last ?q) \<noteq> []"
        using False iter_orderD [OF assms(1), of "last ?q"] by (metis mset_zero_iff)
      then have "?m \<in> hm_keys (last ?q)"
        using timeout_loop_min [of "ord (last ?q)" 0 ct] iter_order_set [OF assms(1), of "last ?q"] keys
        by simp
      from raise [OF this] show ?thesis
        using assms(3) \<open>tm_task_timeout tm < length ?q\<close> False len sorted' rest
        by (auto simp: adjust_task_queue_def Let_def timer_inv_def split: prod.splits)
    qed
  qed
qed

section \<open>Taking a task for its response\<close>

definition registered :: "'t timer \<Rightarrow> (u64, 't) hash_map" where
  "registered tm = concat (tm_sent tm # tm_delay tm)"

lemma timer_tasks_registered: "timer_tasks tm = mset (tm_chan tm) + image_mset snd (mset (registered tm))"
  by (simp add: timer_tasks_def registered_def)

lemma hm_remove_concat: "concat (map (hm_remove s) bs) = hm_remove s (concat bs)"
  by (induction bs) (simp_all add: hm_remove_def)

lemma newer_remove: "newer a b \<Longrightarrow> newer (hm_remove s a) (hm_remove s b)"
  unfolding newer_def hm_keys_remove by blast

lemma newer_unique: "newer a b \<Longrightarrow> s \<in> hm_keys a \<Longrightarrow> s \<notin> hm_keys b"
  unfolding newer_def by blast

lemma hm_wf_concat: "list_all hm_wf bs \<Longrightarrow> sorted_wrt newer bs \<Longrightarrow> hm_wf (concat bs)"
proof (induction bs)
  case Nil
  then show ?case by simp
next
  case (Cons b bs)
  have "hm_keys b \<inter> hm_keys (concat bs) = {}"
    using Cons.prems(2) newer_unique [of b] by simp blast
  with Cons show ?case by (simp add: hm_wf_def)
qed

lemma registered_wf: "timer_inv ct tm \<Longrightarrow> hm_wf (registered tm)"
  unfolding registered_def
  by (rule hm_wf_concat) (auto simp: timer_inv_def batch_ok_def list_all_iff)

lemma registered_seq:
  "timer_inv ct tm \<Longrightarrow> (k, t) \<in> set (registered tm) \<Longrightarrow>
   k = ct_seq ct t \<and> tm_min_delay_seq tm \<le> k \<and> k \<le> tm_processed_seq tm"
  by (fastforce simp: registered_def timer_inv_def batch_ok_def list_all_iff)

lemma chan_seq: "timer_inv ct tm \<Longrightarrow> t \<in> set (tm_chan tm) \<Longrightarrow> tm_processed_seq tm < ct_seq ct t"
  by (simp add: timer_inv_def)

lemma take_delayed_eq:
  "sorted_wrt newer bs \<Longrightarrow> take_delayed s bs = (map (hm_remove s) bs, map_of (concat bs) s)"
proof (induction bs)
  case Nil
  then show ?case by simp
next
  case (Cons b bs)
  show ?case
  proof (cases "map_of b s")
    case None
    then have "s \<notin> hm_keys b" by (simp add: map_of_eq_None_iff)
    with Cons None show ?thesis by (simp add: map_add_def split: option.split)
  next
    case (Some t)
    then have "s \<in> hm_keys b" by (metis domI dom_map_of_conv_image_fst)
    with Cons.prems newer_unique [of b] have "\<forall>x \<in> set bs. s \<notin> hm_keys x" by simp
    then have "map (hm_remove s) bs = bs" "map_of (concat bs) s = None"
      by (simp_all add: map_idI map_of_eq_None_iff) force
    with Some show ?thesis by (simp add: map_add_def)
  qed
qed

lemma take_registered_eq:
  assumes "timer_inv ct tm"
  shows "take_registered s tm =
     (tm\<lparr>tm_sent := hm_remove s (tm_sent tm), tm_delay := map (hm_remove s) (tm_delay tm)\<rparr>,
      map_of (registered tm) s)"
proof -
  have "sorted_wrt newer (tm_sent tm # tm_delay tm)" using assms by (simp add: timer_inv_def)
  from take_delayed_eq [OF this, of s] show ?thesis
    by (auto simp: take_registered_def registered_def split: option.splits prod.splits)
qed

lemma removed_inv:
  assumes "timer_inv ct tm"
  shows "timer_inv ct
    (tm\<lparr>tm_sent := hm_remove s (tm_sent tm), tm_delay := map (hm_remove s) (tm_delay tm)\<rparr>)"
proof -
  have "batch_ok ct lo hi b \<Longrightarrow> batch_ok ct lo hi (hm_remove s b)" for lo hi b
    by (auto simp: batch_ok_def hm_remove_def hm_wf_def distinct_map_filter)
  moreover have "sorted_wrt newer bs \<Longrightarrow> sorted_wrt newer (map (hm_remove s) bs)" for bs :: "(u64, 'b) hash_map list"
    by (simp add: sorted_wrt_map) (erule sorted_wrt_mono_rel [rotated], rule newer_remove)
  ultimately show ?thesis
    using assms newer_remove [of "tm_sent tm" _ s] by (simp add: timer_inv_def list_all_iff)
qed

lemma take_registered_live:
  assumes "timer_inv ct tm" "(ct_seq ct t, t) \<in> set (registered tm)"
  shows "\<exists>tm'. take_registered (ct_seq ct t) tm = (tm', Some t) \<and> timer_inv ct tm' \<and>
    timer_tasks tm = add_mset t (timer_tasks tm')"
proof -
  have look: "map_of (registered tm) (ct_seq ct t) = Some t"
    by (rule hm_wf_map_of [OF registered_wf [OF assms(1)] assms(2)])
  from mset_hm_remove [OF registered_wf [OF assms(1)] look]
  have "mset (registered tm) = add_mset (ct_seq ct t, t) (mset (hm_remove (ct_seq ct t) (registered tm)))" .
  moreover have "hm_remove s (registered tm) = registered
      (tm\<lparr>tm_sent := hm_remove s (tm_sent tm), tm_delay := map (hm_remove s) (tm_delay tm)\<rparr>)" for s
    by (simp add: registered_def hm_remove_concat) (simp add: hm_remove_def)
  ultimately show ?thesis
    using look removed_inv [OF assms(1)]
    by (simp add: take_registered_eq [OF assms(1)] timer_tasks_registered)
qed

lemma drain_registered:
  "timer_inv ct tm \<Longrightarrow> t \<in> set (tm_chan tm) \<Longrightarrow>
   (ct_seq ct t, t) \<in> set (registered (drain ct tm)) \<and> ct_seq ct t \<le> tm_processed_seq (drain ct tm)"
proof -
  assume inv: "timer_inv ct tm" and t: "t \<in> set (tm_chan tm)"
  then have "(ct_seq ct t, t) \<in> set (registered (drain ct tm))"
    by (auto simp: drain_eq registered_def)
  with registered_seq [OF drain_inv [OF inv] this] show ?thesis by simp
qed

text \<open>
  The pending counter runs ahead of the channel by the senders that are between announcing a task
  and registering it; the registry's own operations keep that difference.
\<close>

definition pending_ahead :: "'t timer \<Rightarrow> u64" where
  "pending_ahead tm = tm_pending_count tm - of_nat (length (tm_chan tm))"

lemma drain_ahead: "timer_inv ct tm \<Longrightarrow> pending_ahead (drain ct tm) = pending_ahead tm"
  by (simp add: pending_ahead_def drain_eq)

text \<open>The largest number registered so far.\<close>

definition top_seq :: "('c, 't) client_task_ops \<Rightarrow> 't timer \<Rightarrow> u64" where
  "top_seq ct tm = last (tm_processed_seq tm # map (ct_seq ct) (tm_chan tm))"

text \<open>What an operation keeps that moves and hands back tasks but registers none.\<close>

definition frame :: "('c, 't) client_task_ops \<Rightarrow> 't timer \<Rightarrow> 't timer \<Rightarrow> bool" where
  "frame ct tm tm' \<longleftrightarrow> timer_inv ct tm' \<and> pending_ahead tm' = pending_ahead tm \<and>
     tm_reg_stopped tm' = tm_reg_stopped tm \<and> top_seq ct tm' = top_seq ct tm \<and>
     length (tm_chan tm') \<le> length (tm_chan tm)"

lemma frame_refl: "timer_inv ct tm \<Longrightarrow> frame ct tm tm"
  by (simp add: frame_def)

lemma frame_trans: "frame ct a b \<Longrightarrow> frame ct b c \<Longrightarrow> frame ct a c"
  by (simp add: frame_def)

lemma drain_frame: "timer_inv ct tm \<Longrightarrow> frame ct tm (drain ct tm)"
proof -
  assume inv: "timer_inv ct tm"
  then have "tm_reg_stopped (drain ct tm) = tm_reg_stopped tm" "top_seq ct (drain ct tm) = top_seq ct tm"
    "tm_chan (drain ct tm) = []"
    by (simp_all add: drain_eq top_seq_def)
  with drain_inv [OF inv] drain_ahead [OF inv] show ?thesis by (simp add: frame_def)
qed

lemma take_registered_general:
  assumes "timer_inv ct tm" "take_registered s tm = (tm', r)"
  shows "frame ct tm tm' \<and>
    (case r of None \<Rightarrow> timer_tasks tm' = timer_tasks tm
     | Some t \<Rightarrow> ct_seq ct t = s \<and> timer_tasks tm = add_mset t (timer_tasks tm'))"
proof -
  note eq = take_registered_eq [OF assms(1), of s]
  have keep: "frame ct tm tm'"
    using assms(2) eq removed_inv [OF assms(1), of s] by (auto simp: frame_def pending_ahead_def top_seq_def)
  show ?thesis
  proof (cases r)
    case None
    then have "map_of (registered tm) s = None" using assms(2) eq by simp
    then have "s \<notin> hm_keys (registered tm)" by (simp add: map_of_eq_None_iff)
    then have "s \<notin> hm_keys (tm_sent tm)" "\<forall>b \<in> set (tm_delay tm). s \<notin> hm_keys b"
      by (auto simp: registered_def)
    then have "tm' = tm" using assms(2) eq by (simp add: map_idI)
    with None keep show ?thesis by simp
  next
    case (Some t)
    then have "(s, t) \<in> set (registered tm)" using assms(2) eq by (simp add: map_of_SomeD)
    moreover from registered_seq [OF assms(1) this] have "s = ct_seq ct t" by simp
    ultimately show ?thesis using take_registered_live [OF assms(1), of t] assms(2) Some keep by auto
  qed
qed

lemma take_task_general:
  assumes "timer_inv ct tm" "take_task ct s tm = (tm', Ready r)"
  shows "frame ct tm tm' \<and>
    (case r of None \<Rightarrow> timer_tasks tm' = timer_tasks tm
     | Some t \<Rightarrow> ct_seq ct t = s \<and> timer_tasks tm = add_mset t (timer_tasks tm'))"
proof -
  note d = drain_inv [OF assms(1)] drain_tasks [OF assms(1)] drain_frame [OF assms(1)]
  consider "tm' = tm" "r = None" | "take_registered s tm = (tm', r)"
    | "take_registered s (drain ct tm) = (tm', r)"
    using assms(2)
    by (auto simp: take_task_def wait_reg_poll_def poll_sent_task_def split: if_splits prod.splits)
  then show ?thesis
  proof cases
    case 1
    then show ?thesis using assms(1) by (simp add: frame_refl)
  next
    case 2
    then show ?thesis by (rule take_registered_general [OF assms(1)])
  next
    case 3
    from take_registered_general [OF d(1) this] show ?thesis
      using d(2,3) frame_trans by (auto split: option.splits)
  qed
qed

text \<open>The tasks before are the tasks after and the ones handed back, in the view \<open>f\<close>.\<close>

definition ledger :: "('t \<Rightarrow> 'v) \<Rightarrow> 't timer \<Rightarrow> 't timer \<Rightarrow> 't task_event list \<Rightarrow> bool" where
  "ledger f tm tm' evs \<longleftrightarrow> image_mset f (timer_tasks tm) =
     image_mset f (timer_tasks tm') + image_mset (\<lambda>e. f (event_task e)) (mset evs)"

lemma ledger_trans: "ledger f a b e \<Longrightarrow> ledger f b c e' \<Longrightarrow> ledger f a c (e @ e')"
  by (simp add: ledger_def)

lemma failed_with_view:
  "task_view ct f \<Longrightarrow> image_mset (\<lambda>e. f (event_task e)) (failed_with ct x ts) = image_mset f ts"
  by (simp add: failed_with_def multiset.map_comp comp_def task_viewD(1))

lemma clean_pending_frame:
  assumes "iter_order ord" "timer_inv ct tm" "task_view ct f" "clean_pending_tasks ord ct tm = (tm', evs)"
  shows "frame ct tm tm' \<and> ledger f tm tm' evs \<and> timer_tasks tm' = {#}"
proof -
  have c: "timer_tasks tm' = {#}" "mset evs = failed_with ct IO (timer_tasks tm)" "timer_inv ct tm'"
    "tm_chan tm' = []" "tm_pending_count tm' = tm_pending_count tm - of_nat (length (tm_chan tm))"
    using clean_pending_all [OF assms(1,2)] assms(4) by auto
  have "\<exists>s d. tm' = (drain ct tm)\<lparr>tm_sent := s, tm_delay := d\<rparr>"
    using assms(4) by (auto simp: clean_pending_tasks_def Let_def split: prod.splits)
  then have "top_seq ct tm' = top_seq ct tm" "tm_reg_stopped tm' = tm_reg_stopped tm"
    using drain_frame [OF assms(2)] by (auto simp: frame_def top_seq_def)
  with c failed_with_view [OF assms(3), of IO "timer_tasks tm"] show ?thesis
    by (simp add: frame_def ledger_def pending_ahead_def)
qed

lemma adjust_frame:
  assumes "iter_order ord" "timer_inv ct tm" "task_view ct f" "adjust_task_queue ord ct tm = (tm', evs)"
  shows "frame ct tm tm' \<and> ledger f tm tm' evs"
proof -
  note e = adjust_events [OF assms(1,2,4)] and i = adjust_inv [OF assms(1,2,4)]
  have "tm_chan tm' = tm_chan tm \<and> tm_pending_count tm' = tm_pending_count tm \<and>
      tm_processed_seq tm' = tm_processed_seq tm \<and> tm_reg_stopped tm' = tm_reg_stopped tm"
    using assms(4) by (auto simp: adjust_task_queue_def Let_def split: if_splits prod.splits)
  with e i failed_with_view [OF assms(3), of Timeout "image_mset snd (mset (expired tm))"] show ?thesis
    by (simp add: frame_def ledger_def pending_ahead_def top_seq_def)
qed

section \<open>Successive ticks\<close>

fun ticks ::
  "((u64, 't) hash_map \<Rightarrow> (u64, 't) hash_map) \<Rightarrow> ('c, 't) client_task_ops \<Rightarrow> nat \<Rightarrow> 't timer \<Rightarrow>
   't timer \<times> 't task_event list" where
  "ticks ord ct 0 tm = (tm, [])"
| "ticks ord ct (Suc n) tm =
     (case adjust_task_queue ord ct tm of (tm', evs) \<Rightarrow>
        (case ticks ord ct n tm' of (tm'', evs') \<Rightarrow> (tm'', evs @ evs')))"

lemma adjust_shape:
  assumes "timer_inv ct tm" "adjust_task_queue ord ct tm = (tm', evs)"
  shows "tm_sent tm' = []" "tm_chan tm' = tm_chan tm" "tm_task_timeout tm' = tm_task_timeout tm"
    "tm_pending_count tm' = tm_pending_count tm"
    "tm_delay tm' = take (tm_task_timeout tm) (tm_sent tm # tm_delay tm)"
proof -
  have "length (tm_delay tm) \<le> tm_task_timeout tm" using assms(1) by (simp add: timer_inv_def)
  then show "tm_delay tm' = take (tm_task_timeout tm) (tm_sent tm # tm_delay tm)"
    using assms(2)
    by (cases "length (tm_delay tm) = tm_task_timeout tm")
       (auto simp: adjust_task_queue_def Let_def butlast_conv_take split: if_splits prod.splits)
qed (use assms(2) in \<open>auto simp: adjust_task_queue_def Let_def split: if_splits prod.splits\<close>)

lemma ticks_conserve:
  assumes "iter_order ord" "timer_inv ct tm" "ticks ord ct n tm = (tm', evs)"
  shows "timer_inv ct tm' \<and> tm_chan tm' = tm_chan tm \<and> tm_task_timeout tm' = tm_task_timeout tm \<and>
    (\<exists>ts. timer_tasks tm = timer_tasks tm' + ts \<and> mset evs = failed_with ct Timeout ts)"
  using assms(2,3)
proof (induction n arbitrary: tm evs)
  case 0
  then show ?case by simp
next
  case (Suc n)
  obtain tm1 e1 where a: "adjust_task_queue ord ct tm = (tm1, e1)" by fastforce
  obtain e2 where r: "ticks ord ct n tm1 = (tm', e2)" "evs = e1 @ e2"
    using Suc.prems(2) a by (auto split: prod.splits)
  note ih = Suc.IH [OF adjust_inv [OF assms(1) Suc.prems(1) a] r(1)]
  note ev = adjust_events [OF assms(1) Suc.prems(1) a] and sh = adjust_shape [OF Suc.prems(1) a]
  from ih obtain ts where "timer_tasks tm1 = timer_tasks tm' + ts" "mset e2 = failed_with ct Timeout ts"
    by blast
  then have "timer_tasks tm = timer_tasks tm' + (ts + image_mset snd (mset (expired tm))) \<and>
      mset evs = failed_with ct Timeout (ts + image_mset snd (mset (expired tm)))"
    using ev r(2) by simp
  with ih sh show ?case by auto
qed

text \<open>After \<open>n\<close> ticks the first \<open>n\<close> batches are empty and the batches before have moved on.\<close>

lemma ticks_shift:
  assumes "iter_order ord" "timer_inv ct tm" "ticks ord ct n tm = (tm', evs)"
  shows "tm_sent tm' # tm_delay tm' =
    take (Suc (tm_task_timeout tm)) (replicate n [] @ tm_sent tm # tm_delay tm)"
  using assms(2,3)
proof (induction n arbitrary: tm evs)
  case 0
  then show ?case by (simp add: timer_inv_def)
next
  case (Suc n)
  obtain tm1 e1 where a: "adjust_task_queue ord ct tm = (tm1, e1)" by fastforce
  obtain e2 where r: "ticks ord ct n tm1 = (tm', e2)"
    using Suc.prems(2) a by (auto split: prod.splits)
  note ih = Suc.IH [OF adjust_inv [OF assms(1) Suc.prems(1) a] r]
  let ?k = "tm_task_timeout tm"
  have "replicate (Suc n) [] @ tm_sent tm # tm_delay tm =
      replicate n [] @ [] # tm_sent tm # tm_delay tm"
    by (simp add: replicate_append_same flip: append_Cons append.assoc)
  moreover have "take (Suc ?k) (replicate n [] @ [] # take ?k xs) = take (Suc ?k) (replicate n [] @ [] # xs)"
    for xs :: "(u64, 'a) hash_map list"
    by (cases "n \<le> Suc ?k") (simp_all add: take_Cons' min_def)
  ultimately have "take (Suc ?k) (replicate n [] @ tm_sent tm1 # tm_delay tm1) =
      take (Suc ?k) (replicate (Suc n) [] @ tm_sent tm # tm_delay tm)"
    using adjust_shape [OF Suc.prems(1) a] by metis
  with ih adjust_shape(3) [OF Suc.prems(1) a] show ?case by metis
qed

lemma take_task_live:
  assumes "timer_inv ct tm" and "t \<in># timer_tasks tm"
    and "\<not> tm_reg_stopped tm \<or> t \<notin> set (tm_chan tm)"
  shows "\<exists>tm'. take_task ct (ct_seq ct t) tm = (tm', Ready (Some t)) \<and> timer_inv ct tm' \<and>
    timer_tasks tm = add_mset t (timer_tasks tm')"
proof (cases "t \<in> set (tm_chan tm)")
  case True
  note d = drain_registered [OF assms(1) True] and late = chan_seq [OF assms(1) True]
  have "\<not> ct_seq ct t < tm_min_delay_seq tm" using late assms(1) by (auto simp: timer_inv_def)
  then have "take_task ct (ct_seq ct t) tm =
      (case take_registered (ct_seq ct t) (drain ct tm) of (tm'', r) \<Rightarrow> (tm'', Ready r))"
    using True d late assms(3)
    by (auto simp: take_task_def wait_reg_poll_def poll_sent_task_def)
  with take_registered_live [OF drain_inv [OF assms(1)] conjunct1 [OF d]] drain_tasks [OF assms(1)]
  show ?thesis by auto
next
  case False
  then have "t \<in> snd ` set (registered tm)"
    using assms(2) by (auto simp: timer_tasks_registered)
  then obtain k where "(k, t) \<in> set (registered tm)" by auto
  note r = this registered_seq [OF assms(1) this]
  then have "take_task ct (ct_seq ct t) tm =
      (case take_registered (ct_seq ct t) tm of (tm'', r) \<Rightarrow> (tm'', Ready r))"
    by (auto simp: take_task_def)
  with take_registered_live [OF assms(1), of t] r show ?thesis by auto
qed

section \<open>Properties\<close>


definition sample_timer :: "api_client_req timer" where
  "sample_timer = (timer_new 3 4)\<lparr>tm_chan := [sample_task 1, sample_task 2], tm_pending_count := 2\<rparr>"


text \<open>
  C20: when the connection is given up, cleaning fails every task in flight exactly once with an I/O
  error, and leaves no task behind, whatever the iteration order of the maps.
\<close>

theorem clean_pending_tasks_complete:
  assumes "iter_order ord" and "timer_inv ct tm"
  shows "\<exists>tm' evs. clean_pending_tasks ord ct tm = (tm', evs) \<and> timer_tasks tm' = {#} \<and>
    mset evs = failed_with ct IO (timer_tasks tm) \<and> timer_inv ct tm'"
  using clean_pending_all [OF assms] by blast

lemma sample_timer_inv: "timer_inv uapi_ops sample_timer"
  by (simp add: sample_timer_def timer_new_def Let_def timer_inv_def batch_ok_def)

theorem clean_pending_tasks_complete_witness:
  "\<exists>tm' evs. clean_pending_tasks rev uapi_ops sample_timer = (tm', evs) \<and> length evs = 2"
proof -
  obtain tm' evs where e: "clean_pending_tasks rev uapi_ops sample_timer = (tm', evs)"
    "mset evs = failed_with uapi_ops IO (timer_tasks sample_timer)"
    using clean_pending_tasks_complete [OF iter_order_rev sample_timer_inv] by blast
  have "length evs = size (failed_with uapi_ops IO (timer_tasks sample_timer))"
    by (simp flip: e(2))
  also have "\<dots> = 2"
    by (simp add: failed_with_def timer_tasks_def sample_timer_def timer_new_def Let_def)
  finally show ?thesis using e(1) by blast
qed



text \<open>
  A response whose number is above everything registered, which is what the answer to a ping
  is until a later request is registered, makes \<open>take_task\<close> wait: the reader handles no further
  response although the comment says that ping responses do not get there.
\<close>

theorem take_task_ping_waits:
  assumes "tm_chan tm = []" and "tm_processed_seq tm < seq" and "tm_min_delay_seq tm \<le> seq"
    and "\<not> tm_reg_stopped tm"
  shows "take_task ct seq tm = (tm, Pending)"
  using assms by (auto simp: take_task_def wait_reg_poll_def poll_sent_task_def drain_def)

theorem take_task_ping_waits_witness:
  "take_task uapi_ops 1 (timer_new 3 4) = (timer_new 3 4, Pending)"
  using take_task_ping_waits [of "timer_new 3 4" 1 uapi_ops] by (simp add: timer_new_def Let_def)

text \<open>
  Once registration is stopped a task that sits in the channel is no longer found: its
  response is discarded and the task is later failed, although it was answered.
\<close>

theorem take_task_stopped_misses:
  assumes "timer_inv ct tm" and "t \<in> set (tm_chan tm)" and "tm_reg_stopped tm"
  shows "take_task ct (ct_seq ct t) tm = (tm, Ready None)"
  using chan_seq [OF assms(1,2)] assms(3)
  by (auto simp: take_task_def wait_reg_poll_def)

theorem take_task_stopped_misses_witness:
  "take_task uapi_ops 2 (stop_reg_task sample_timer) = (stop_reg_task sample_timer, Ready None)"
proof -
  have "timer_inv uapi_ops (stop_reg_task sample_timer)"
    using sample_timer_inv by (simp add: timer_inv_def stop_reg_task_def)
  from take_task_stopped_misses [OF this, of "sample_task 2"] show ?thesis
    by (simp add: stop_reg_task_def sample_timer_def)
qed

end
