(* ===== verification/Rpc_Tcp_Client.thy ===== *)
theory Rpc_Tcp_Client
  imports Rpc_Net Rpc_Async Rpc_Timer
begin

text \<open>
  The client side of the TCP transport, \<open>transport/tcp/src/client.rs\<close>: connecting, writing requests,
  and reading a response with its error, message and blob parts for the task the registry holds.
  Logging is left out. Arithmetic on \<open>u32\<close> wraps, as in a release build.
\<close>

section \<open>TcpClient\<close>

definition CLIENT_DEFAULT_BUF_SIZE :: nat where
  "CLIENT_DEFAULT_BUF_SIZE = 8 * 1024"

text \<open>\<open>tc_shut\<close> records that the write direction of the socket was shut down.\<close>

record tcp_client =
  tc_stream :: buf_stream
  tc_resp_buf :: bytes
  tc_read_timeout :: duration
  tc_write_timeout :: duration
  tc_shut :: bool

text \<open>
  \<open>connect\<close>: \<open>dial\<close> is the runtime's \<open>connect_tcp\<close> and \<open>connect_unix\<close>, which give the two directions of
  a socket or fail, or never return.
\<close>

definition tcp_connect ::
  "(rust_str \<Rightarrow> 'addr option) \<Rightarrow> (rust_str \<Rightarrow> 'addr list option) \<Rightarrow>
   ('addr unify_addr \<Rightarrow> duration \<Rightarrow> (rd_event list \<times> sink) io_result option) \<Rightarrow>
   rust_str \<Rightarrow> client_config \<Rightarrow> (tcp_client, rpc_int_err) result async" where
  "tcp_connect parse resolve dial addr config =
     (case unify_addr_from_str parse resolve addr of
        Panic \<Rightarrow> Crash
      | Return None \<Rightarrow> Fin (Err Unreachable)
      | Return (Some a) \<Rightarrow>
          (case dial a (cc_connect_timeout config) of
             None \<Rightarrow> Suspend
           | Some (Inl e) \<Rightarrow> Fin (Err Unreachable)
           | Some (Inr (i, out)) \<Rightarrow>
               (let buf_size = (if cc_stream_buf_size config = 0 then CLIENT_DEFAULT_BUF_SIZE
                                else cc_stream_buf_size config) in
                case buf_stream_new i out buf_size of
                  Panic \<Rightarrow> Crash
                | Return s \<Rightarrow>
                    Fin (Ok \<lparr>tc_stream = s, tc_resp_buf = [], tc_read_timeout = cc_read_timeout config,
                             tc_write_timeout = cc_write_timeout config, tc_shut = False\<rparr>))))"

section \<open>Writing\<close>

definition tcp_flush_req :: "tcp_client \<Rightarrow> (tcp_client \<times> unit io_result) async" where
  "tcp_flush_req c =
     async_bind (async_of (io_with_timeout (tc_write_timeout c) (\<lambda>p. stream_flush p (tc_stream c))))
       (\<lambda>(s, r). Fin (c\<lparr>tc_stream := s\<rparr>, r))"

definition tcp_write_all :: "bytes \<Rightarrow> tcp_client \<Rightarrow> (tcp_client \<times> unit io_result) async" where
  "tcp_write_all bs c =
     async_bind
       (async_of (io_with_timeout (tc_write_timeout c) (\<lambda>p. write_all (stream_write p) p (tc_stream c) bs)))
       (\<lambda>(s, r). Fin (c\<lparr>tc_stream := s\<rparr>, r))"

definition tcp_write_req ::
  "bytes \<Rightarrow> bytes option \<Rightarrow> bool \<Rightarrow> tcp_client \<Rightarrow> (tcp_client \<times> unit io_result) async" where
  "tcp_write_req buf blob need_flush c =
     async_bind (tcp_write_all buf c) (\<lambda>(c, r).
       case r of
         Inl e \<Rightarrow> Fin (c, Err e)
       | Inr _ \<Rightarrow>
           async_bind (case blob of Some b \<Rightarrow> tcp_write_all b c | None \<Rightarrow> Fin (c, Ok ())) (\<lambda>(c, r).
             case r of
               Inl e \<Rightarrow> Fin (c, Err e)
             | Inr _ \<Rightarrow> (if need_flush then tcp_flush_req c else Fin (c, Ok ()))))"

definition tcp_close_conn :: "tcp_client \<Rightarrow> tcp_client async" where
  "tcp_close_conn c =
     async_bind (tcp_flush_req c) (\<lambda>(c, r). Fin (if is_ok r then c\<lparr>tc_shut := True\<rparr> else c))"

section \<open>Reading\<close>

definition tcp_read_exact :: "nat \<Rightarrow> tcp_client \<Rightarrow> (tcp_client \<times> bytes io_result) async" where
  "tcp_read_exact n c =
     async_bind
       (async_of (io_with_timeout (tc_read_timeout c) (\<lambda>p. read_exact stream_read p (tc_stream c) n [])))
       (\<lambda>(s, r). Fin (c\<lparr>tc_stream := s\<rparr>, r))"

text \<open>\<open>get_resp_buf\<close> resizes the buffer; beyond \<open>isize::MAX\<close> bytes the allocation panics.\<close>

definition get_resp_buf :: "nat \<Rightarrow> tcp_client \<Rightarrow> tcp_client async" where
  "get_resp_buf n c =
     (if isize_MAX < n then Crash else Fin (c\<lparr>tc_resp_buf := vec_resize n (tc_resp_buf c)\<rparr>))"

text \<open>
  \<open>_recv_and_dump\<close>; \<open>alloc\<close> is \<open>io_buffer::Buffer::alloc\<close>, the length of the buffer it returns or a
  failure.
\<close>

definition recv_and_dump ::
  "(i32 \<Rightarrow> nat option) \<Rightarrow> nat \<Rightarrow> tcp_client \<Rightarrow> (tcp_client \<times> unit io_result) async" where
  "recv_and_dump alloc l c =
     (case alloc (of_nat l) of
        None \<Rightarrow> Fin (c, Err OutOfMemory)
      | Some n \<Rightarrow>
          async_bind (tcp_read_exact n c) (\<lambda>(c, r).
            case r of Inl e \<Rightarrow> Fin (c, Err e) | Inr _ \<Rightarrow> Fin (c, Ok ())))"

definition recv_error ::
  "('c, 't) client_task_ops \<Rightarrow> 'c \<Rightarrow> resp_head \<Rightarrow> 't \<Rightarrow> tcp_client \<Rightarrow>
   (tcp_client \<times> 't task_event list \<times> unit io_result) async" where
  "recv_error ct codec h task c =
     (if rp_flag h = 1 then
        Fin (c, [Error_Handle (ct_set_custom_error ct codec (Enc_Num (rp_msg_len h)) task)], Ok ())
      else if rp_flag h = 2 then
        async_bind (get_resp_buf (i32_as_usize (rp_blob_len h)) c) (\<lambda>c.
          async_bind (tcp_read_exact (length (tc_resp_buf c)) c) (\<lambda>(c, r).
            case r of
              Inl e \<Rightarrow> Fin (c, [Error_Handle (ct_set_rpc_error ct IO task)], Err e)
            | Inr buf \<Rightarrow>
                (let c = c\<lparr>tc_resp_buf := buf\<rparr>;
                     internal = (if prefix RPC_ERR_PREFIX buf then
                                   (case from_utf8 buf of Some s \<Rightarrow> int_err_from_str s | None \<Rightarrow> None)
                                 else None) in
                 case internal of
                   Some e \<Rightarrow> Fin (c, [Error_Handle (ct_set_rpc_error ct e task)], Ok ())
                 | None \<Rightarrow>
                     Fin (c, [Error_Handle (ct_set_custom_error ct codec (Enc_Buf buf) task)], Ok ()))))
      else Crash)"

text \<open>
  The part of \<open>_recv_resp_body\<close> for a task that was found, in its three stages: the message into the
  response buffer (which was resized to \<open>msg_len\<close>), the blob, then decoding.
\<close>

definition recv_msg :: "resp_head \<Rightarrow> tcp_client \<Rightarrow> (tcp_client \<times> unit io_result) async" where
  "recv_msg h c =
     (if 0 < rp_msg_len h then
        async_bind (tcp_read_exact (length (tc_resp_buf c)) c) (\<lambda>(c, r).
          Fin (case r of Inr buf \<Rightarrow> (c\<lparr>tc_resp_buf := buf\<rparr>, Ok ()) | Inl e \<Rightarrow> (c, Err e)))
      else Fin (c, Ok ()))"

definition recv_blob ::
  "(i32 \<Rightarrow> nat option) \<Rightarrow> ('c, 't) client_task_ops \<Rightarrow> resp_head \<Rightarrow> 't \<Rightarrow> tcp_client \<Rightarrow>
   (tcp_client \<times> ('t task_event list \<times> unit io_result + 't)) async" where
  "recv_blob alloc ct h task c =
     (if 0 <s rp_blob_len h then
        (case ct_reserve_resp_blob ct task (rp_blob_len h) of
           (task, None) \<Rightarrow>
             async_bind (recv_and_dump alloc (i32_as_usize (rp_blob_len h)) c) (\<lambda>(c, r).
               Fin (c, Inl ([Error_Handle (ct_set_rpc_error ct Decode task)], r)))
         | (task, Some n) \<Rightarrow>
             async_bind (tcp_read_exact n c) (\<lambda>(c, r).
               case r of
                 Inl e \<Rightarrow> Fin (c, Inl ([Error_Handle (ct_set_rpc_error ct IO task)], Err e))
               | Inr bs \<Rightarrow> Fin (c, Inr (ct_fill_resp_blob ct bs task))))
      else Fin (c, Inr task))"

definition recv_finish ::
  "('c, 't) client_task_ops \<Rightarrow> 'c \<Rightarrow> resp_head \<Rightarrow> 't \<Rightarrow> tcp_client \<Rightarrow> 't task_event" where
  "recv_finish ct codec h task c =
     (if 0 < rp_msg_len h then
        (case ct_decode_resp ct codec task (tc_resp_buf c) of
           (task, Inl _) \<Rightarrow> Error_Handle (ct_set_rpc_error ct Decode task)
         | (task, Inr _) \<Rightarrow> Done (ct_set_ok ct task))
      else Done (ct_set_ok ct task))"

definition recv_task_body ::
  "(i32 \<Rightarrow> nat option) \<Rightarrow> ('c, 't) client_task_ops \<Rightarrow> 'c \<Rightarrow> resp_head \<Rightarrow> 't \<Rightarrow> tcp_client \<Rightarrow>
   (tcp_client \<times> 't task_event list \<times> unit io_result) async" where
  "recv_task_body alloc ct codec h task c =
     async_bind (recv_msg h c) (\<lambda>(c, r).
       case r of
         Inl e \<Rightarrow> Fin (c, [Error_Handle (ct_set_rpc_error ct IO task)], Err e)
       | Inr _ \<Rightarrow>
           async_bind (recv_blob alloc ct h task c) (\<lambda>(c, q).
             case q of
               Inl (evs, r) \<Rightarrow> Fin (c, evs, r)
             | Inr task \<Rightarrow> Fin (c, [recv_finish ct codec h task c], Ok ())))"

definition recv_resp_body ::
  "(i32 \<Rightarrow> nat option) \<Rightarrow> ('c, 't) client_task_ops \<Rightarrow> 'c \<Rightarrow> resp_head \<Rightarrow> 't timer \<Rightarrow> tcp_client \<Rightarrow>
   (tcp_client \<times> 't timer \<times> 't task_event list \<times> unit io_result) async" where
  "recv_resp_body alloc ct codec h tm c =
     async_bind (get_resp_buf (unat (rp_msg_len h)) c) (\<lambda>c.
       case take_task ct (rp_seq h) tm of
         (tm, Pending) \<Rightarrow> Suspend
       | (tm, Ready (Some task)) \<Rightarrow>
           async_bind
             (if 0 < rp_flag h then recv_error ct codec h task c
              else recv_task_body alloc ct codec h task c)
             (\<lambda>(c, evs, r). Fin (c, tm, evs, r))
       | (tm, Ready None) \<Rightarrow>
           (let data_len =
              (if rp_flag h = 0 then rp_msg_len h + rp_blob_len h
               else if rp_flag h = RESP_FLAG_HAS_ERR_STRING then rp_blob_len h else 0) in
            if 0 < data_len then
              async_bind (recv_and_dump alloc (unat data_len) c) (\<lambda>(c, r). Fin (c, tm, [], r))
            else Fin (c, tm, [], Ok ())))"

text \<open>
  \<open>read_resp\<close>. \<open>close_ch\<close> is \<open>None\<close>, or tells whether the close notification is there when the reader
  finds no data: the reader is polled first, and waits when the notification is not there.
\<close>

definition tcp_read_head ::
  "bool option \<Rightarrow> tcp_client \<Rightarrow> (tcp_client \<times> (bytes io_result, unit) result) async" where
  "tcp_read_head close_ch c =
     (case close_ch of
        Some closed \<Rightarrow>
          async_bind (async_of (read_exact stream_read (\<not> closed) (tc_stream c) RPC_RESP_HEADER_LEN []))
            (\<lambda>(s, r).
               case cancellable_poll r (if closed then Ready () else Pending) of
                 Ready q \<Rightarrow> Fin (c\<lparr>tc_stream := s\<rparr>, q)
               | Pending \<Rightarrow> Suspend)
      | None \<Rightarrow>
          async_bind (tcp_read_exact RPC_RESP_HEADER_LEN c) (\<lambda>(c, r). Fin (c, Ok r)))"

definition tcp_read_resp ::
  "(i32 \<Rightarrow> nat option) \<Rightarrow> ('c, 't) client_task_ops \<Rightarrow> 'c \<Rightarrow> bool option \<Rightarrow> 't timer \<Rightarrow> tcp_client \<Rightarrow>
   (tcp_client \<times> 't timer \<times> 't task_event list \<times> (bool, rpc_int_err) result) async" where
  "tcp_read_resp alloc ct codec close_ch tm c =
     async_bind (tcp_read_head close_ch c) (\<lambda>(c, q).
       case q of
         Inl _ \<Rightarrow> Fin (c, tm, [], Ok False)
       | Inr (Inl e) \<Rightarrow> Fin (c, tm, [], Err (int_err_from_io e))
       | Inr (Inr head_buf) \<Rightarrow>
           (case resp_decode_head head_buf of
              Panic \<Rightarrow> Crash
            | Return (Inl e) \<Rightarrow> Fin (c, tm, [], Err e)
            | Return (Inr head) \<Rightarrow>
                async_bind (recv_resp_body alloc ct codec head tm c) (\<lambda>(c, tm, evs, r).
                  case r of
                    Inl e \<Rightarrow> Fin (c, tm, evs, Err (int_err_from_io e))
                  | Inr _ \<Rightarrow> Fin (c, tm, evs, Ok True))))"

section \<open>Reading from a healthy connection\<close>

lemma tcp_read_exact_rx:
  assumes "rx (tc_stream c) (a @ b)" "n = length a"
  shows "\<exists>s'. tcp_read_exact n c = Fin (c\<lparr>tc_stream := s'\<rparr>, Ok a) \<and> rx s' b"
  using timed_read_exact [OF assms, of "tc_read_timeout c"] by (auto simp: tcp_read_exact_def)

lemma tcp_read_head_rx:
  assumes "rx (tc_stream c) (resp_head_bytes h @ b)"
  shows "\<exists>s'. tcp_read_head cl c = Fin (c\<lparr>tc_stream := s'\<rparr>, Ok (Ok (resp_head_bytes h))) \<and> rx s' b"
proof (cases cl)
  case None
  then show ?thesis
    using tcp_read_exact_rx [OF assms, of 20] by (auto simp: tcp_read_head_def)
next
  case (Some closed)
  obtain s' where "read_exact stream_read (\<not> closed) (tc_stream c) 20 [] =
      Some (s', Ready (Ok (resp_head_bytes h)))" "rx s' b"
    using rx_read_exact [OF assms, of 20] by fastforce
  with Some show ?thesis by (auto simp: tcp_read_head_def)
qed

section \<open>What the client makes of a response\<close>

fun received_err :: "('c, 't) client_task_ops \<Rightarrow> 'c \<Rightarrow> encoded_err \<Rightarrow> 't \<Rightarrow> 't" where
  "received_err ct codec (Enc_Num n) t = ct_set_custom_error ct codec (Enc_Num n) t"
| "received_err ct codec e t =
     (case int_err_from_str (err_body e) of
        Some i \<Rightarrow> ct_set_rpc_error ct i t
      | None \<Rightarrow> ct_set_custom_error ct codec (Enc_Buf (err_body e)) t)"

definition received_msg :: "('c, 't) client_task_ops \<Rightarrow> 'c \<Rightarrow> bytes \<Rightarrow> 't \<Rightarrow> 't task_event" where
  "received_msg ct codec m t =
     (if m = [] then Done (ct_set_ok ct t)
      else (case ct_decode_resp ct codec t m of
              (t, Inr _) \<Rightarrow> Done (ct_set_ok ct t)
            | (t, Inl _) \<Rightarrow> Error_Handle (ct_set_rpc_error ct Decode t)))"

fun received :: "('c, 't) client_task_ops \<Rightarrow> 'c \<Rightarrow> response \<Rightarrow> 't \<Rightarrow> 't task_event" where
  "received ct codec (Resp_Err e) t = Error_Handle (received_err ct codec e t)"
| "received ct codec (Resp_Ok m b) t =
     (if blob_bytes b = [] then received_msg ct codec m t
      else (case ct_reserve_resp_blob ct t (of_nat (length (blob_bytes b))) of
              (t, Some n) \<Rightarrow> received_msg ct codec m (ct_fill_resp_blob ct (blob_bytes b) t)
            | (t, None) \<Rightarrow> Error_Handle (ct_set_rpc_error ct Decode t)))"

text \<open>
  What is assumed of the callees: a buffer of the requested size can be allocated, and a task that
  accepts a blob hands out a slice of the announced length.
\<close>

definition reserve_ok :: "('c, 't) client_task_ops \<Rightarrow> bool" where
  "reserve_ok ct \<longleftrightarrow>
     (\<forall>t k t' n. ct_reserve_resp_blob ct t (of_nat k) = (t', Some n) \<and> k \<le> i32_MAX \<longrightarrow> n = k)"

lemma recv_and_dump_rx:
  assumes "alloc_ok alloc" "rx (tc_stream c) (a @ b)" "0 < length a" "length a \<le> i32_MAX"
  shows "\<exists>s'. recv_and_dump alloc (length a) c = Fin (c\<lparr>tc_stream := s'\<rparr>, Ok ()) \<and> rx s' b"
  using tcp_read_exact_rx [OF assms(2) refl] assms(1,3,4) by (auto simp: recv_and_dump_def alloc_ok_def)

lemma int_err_from_str_prefix:
  "(if prefix RPC_ERR_PREFIX b then (case from_utf8 b of Some s \<Rightarrow> int_err_from_str s | None \<Rightarrow> None)
    else None) = int_err_from_str b"
proof (cases "int_err_from_str b")
  case None
  then show ?thesis by (simp add: from_utf8_def)
next
  case (Some e)
  then have "b = int_err_as_bytes e" by (simp add: int_err_from_str_Some int_err_as_bytes_def)
  with Some show ?thesis using int_err_prefix [of e] int_err_utf8 [of e] by (simp add: from_utf8_def)
qed

lemma recv_error_rx:
  assumes "rx (tc_stream c) (err_body e @ b)" "length (err_body e) \<le> i32_MAX"
  shows "\<exists>c'. recv_error ct codec (err_head seq e) t c =
      Fin (c', [Error_Handle (received_err ct codec e t)], Ok ()) \<and> rx (tc_stream c') b"
proof (cases "\<exists>n. e = Enc_Num n")
  case True
  then show ?thesis using assms
    by (auto simp: recv_error_def RESP_FLAG_HAS_ERRNO_def err_body_def)
next
  case False
  let ?n = "length (err_body e)"
  let ?c = "c\<lparr>tc_resp_buf := vec_resize ?n (tc_resp_buf c)\<rparr>"
  have h: "rp_flag (err_head seq e) = 2" "rp_blob_len (err_head seq e) = of_nat ?n"
    using False by (cases e; simp add: RESP_FLAG_HAS_ERR_STRING_def err_body_def)+
  have r: "received_err ct codec e t =
     (case int_err_from_str (err_body e) of
        Some i \<Rightarrow> ct_set_rpc_error ct i t
      | None \<Rightarrow> ct_set_custom_error ct codec (Enc_Buf (err_body e)) t)"
    using False by (cases e) auto
  obtain s' where s': "tcp_read_exact ?n ?c = Fin (?c\<lparr>tc_stream := s'\<rparr>, Ok (err_body e))" "rx s' b"
    using tcp_read_exact_rx [of ?c "err_body e" b ?n] assms(1) by auto
  have "get_resp_buf (i32_as_usize (of_nat ?n)) c = Fin ?c"
    using assms(2) by (simp add: get_resp_buf_def i32_as_usize_small isize_MAX_def)
  with h s' show ?thesis
    by (auto simp: recv_error_def int_err_from_str_prefix r split: option.split)
qed

text \<open>The message part, the blob part and the decoding part of a successful response.\<close>

lemma recv_msg_rx:
  assumes "rx (tc_stream c) (m @ b)" "length m \<le> u32_MAX" "length (tc_resp_buf c) = length m"
    and "rp_msg_len h = of_nat (length m)"
  shows "\<exists>c'. recv_msg h c = Fin (c', Ok ()) \<and> rx (tc_stream c') b \<and> tc_resp_buf c' = m"
  using assms tcp_read_exact_rx [OF assms(1) refl] msg_len_pos [OF assms(2)]
  by (cases "m = []") (auto simp: recv_msg_def)

lemma recv_blob_rx:
  assumes "rx (tc_stream c) (x @ b)" "length x \<le> i32_MAX" "alloc_ok alloc" "reserve_ok ct"
    and "rp_blob_len h = of_nat (length x)"
  shows "\<exists>c'. recv_blob alloc ct h t c = Fin (c',
       if x = [] then Inr t
       else (case ct_reserve_resp_blob ct t (of_nat (length x)) of
               (t, None) \<Rightarrow> Inl ([Error_Handle (ct_set_rpc_error ct Decode t)], Ok ())
             | (t, Some n) \<Rightarrow> Inr (ct_fill_resp_blob ct x t))) \<and>
      rx (tc_stream c') b \<and> tc_resp_buf c' = tc_resp_buf c"
proof (cases "x = []")
  case True
  then show ?thesis using assms by (simp add: recv_blob_def)
next
  case False
  obtain t' r where r: "ct_reserve_resp_blob ct t (of_nat (length x)) = (t', r)" by fastforce
  have pos: "0 <s rp_blob_len h" using False assms(2,5) by (simp add: blob_len_pos)
  show ?thesis
  proof (cases r)
    case None
    then show ?thesis
      using r pos recv_and_dump_rx [OF assms(3,1)] False assms(2,5)
      by (auto simp: recv_blob_def i32_as_usize_small)
  next
    case (Some n)
    then have "n = length x" using assms(4,2) r unfolding reserve_ok_def by blast
    with Some r pos False assms(5) show ?thesis
      using tcp_read_exact_rx [OF assms(1) refl] by (auto simp: recv_blob_def)
  qed
qed

lemma recv_finish_eq:
  "rp_msg_len h = of_nat (length m) \<Longrightarrow> length m \<le> u32_MAX \<Longrightarrow> tc_resp_buf c = m \<Longrightarrow>
   recv_finish ct codec h t c = received_msg ct codec m t"
  by (auto simp: recv_finish_def received_msg_def msg_len_pos split: prod.split sum.split)

lemma recv_task_body_rx:
  assumes "rx (tc_stream c) (m @ blob_bytes b @ z)" "length m \<le> u32_MAX" "length (blob_bytes b) \<le> i32_MAX"
    and "length (tc_resp_buf c) = length m" "alloc_ok alloc" "reserve_ok ct"
  shows "\<exists>c'. recv_task_body alloc ct codec
        (resp_head_for 0 seq (of_nat (length m)) (length (blob_bytes b))) t c =
      Fin (c', [received ct codec (Resp_Ok m b) t], Ok ()) \<and> rx (tc_stream c') z"
proof -
  let ?x = "blob_bytes b" and ?h = "resp_head_for 0 seq (of_nat (length m)) (length (blob_bytes b))"
  obtain c1 where c1: "recv_msg ?h c = Fin (c1, Ok ())" "rx (tc_stream c1) (?x @ z)" "tc_resp_buf c1 = m"
    using recv_msg_rx [OF assms(1,2,4), of ?h] by auto
  obtain c2 where c2: "recv_blob alloc ct ?h t c1 = Fin (c2,
       if ?x = [] then Inr t
       else (case ct_reserve_resp_blob ct t (of_nat (length ?x)) of
               (t, None) \<Rightarrow> Inl ([Error_Handle (ct_set_rpc_error ct Decode t)], Ok ())
             | (t, Some n) \<Rightarrow> Inr (ct_fill_resp_blob ct ?x t)))"
      "rx (tc_stream c2) z" "tc_resp_buf c2 = m"
    using recv_blob_rx [OF c1(2) assms(3,5,6), of ?h t] c1(3) by auto
  have fin: "recv_finish ct codec ?h u c2 = received_msg ct codec m u" for u
    using c2(3) assms(2) by (simp add: recv_finish_eq)
  show ?thesis
    using c1(1) c2(1,2) fin
    by (cases "ct_reserve_resp_blob ct t (of_nat (length ?x))"; cases "snd (ct_reserve_resp_blob ct t (of_nat (length ?x)))")
       (auto simp: recv_task_body_def)
qed

lemma recv_resp_body_rx:
  assumes "rx (tc_stream c) (drop RPC_RESP_HEADER_LEN (resp_wire (ct_seq ct t) r) @ z)" "resp_fits r"
    and "take_task ct (ct_seq ct t) tm = (tm', Ready (Some t))"
    and "alloc_ok alloc" "reserve_ok ct"
    and "resp_decode_head (take RPC_RESP_HEADER_LEN (resp_wire (ct_seq ct t) r)) = Return (Ok h)"
  shows "\<exists>c'. recv_resp_body alloc ct codec h tm c =
      Fin (c', tm', [received ct codec r t], Ok ()) \<and> rx (tc_stream c') z"
proof (cases r)
  case (Resp_Ok m b)
  let ?c = "c\<lparr>tc_resp_buf := vec_resize (length m) (tc_resp_buf c)\<rparr>"
  have h: "h = resp_head_for 0 (ct_seq ct t) (of_nat (length m)) (length (blob_bytes b))"
    using assms(6) Resp_Ok by (simp add: resp_decode_head_bytes)
  have fits: "length m \<le> u32_MAX" "length (blob_bytes b) \<le> i32_MAX"
    using assms(2) Resp_Ok by simp_all
  have buf: "get_resp_buf (unat (of_nat (length m) :: u32)) c = Fin ?c"
    using fits by (simp add: get_resp_buf_def unat_of_nat_u32 isize_MAX_def)
  obtain c' where "recv_task_body alloc ct codec h t ?c =
      Fin (c', [received ct codec (Resp_Ok m b) t], Ok ())" "rx (tc_stream c') z"
    using recv_task_body_rx [of ?c m b z alloc ct codec] assms(1,4,5) fits Resp_Ok unfolding h by auto
  then show ?thesis using buf h assms(3) Resp_Ok by (auto simp: recv_resp_body_def)
next
  case (Resp_Err e)
  let ?h = "err_head (ct_seq ct t) e"
  let ?c = "c\<lparr>tc_resp_buf := vec_resize (unat (rp_msg_len ?h)) (tc_resp_buf c)\<rparr>"
  have h: "h = ?h" using assms(6) Resp_Err by (simp add: resp_decode_head_bytes)
  have "unat (rp_msg_len ?h) < 2 ^ 32" using unsigned_less [of "rp_msg_len ?h"] by simp
  then have buf: "get_resp_buf (unat (rp_msg_len ?h)) c = Fin ?c"
    by (simp add: get_resp_buf_def isize_MAX_def)
  have flag: "0 < rp_flag ?h"
    by (cases e) (simp_all add: RESP_FLAG_HAS_ERR_STRING_def RESP_FLAG_HAS_ERRNO_def)
  obtain c' where "recv_error ct codec ?h t ?c =
      Fin (c', [Error_Handle (received_err ct codec e t)], Ok ())" "rx (tc_stream c') z"
    using recv_error_rx [of ?c e z ct codec "ct_seq ct t" t] assms(1,2) Resp_Err by auto
  then show ?thesis using buf h flag assms(3) Resp_Err by (auto simp: recv_resp_body_def)
qed

section \<open>Writing to the connection\<close>

text \<open>What the connection has accepted for sending.\<close>

definition tx :: "tcp_client \<Rightarrow> bytes" where
  "tx c = stream_out (tc_stream c)"

lemma tcp_write_all_returns:
  assumes "stream_inv (tc_stream c)"
  shows "\<exists>s' r. tcp_write_all bs c = Fin (c\<lparr>tc_stream := s'\<rparr>, r) \<and> stream_inv s' \<and>
    (r = Ok () \<longrightarrow> stream_out s' = tx c @ bs)"
  using timed_write_all [OF assms, of "tc_write_timeout c" bs] by (auto simp: tcp_write_all_def tx_def)

lemma tcp_flush_returns:
  assumes "stream_inv (tc_stream c)"
  shows "\<exists>s' r. tcp_flush_req c = Fin (c\<lparr>tc_stream := s'\<rparr>, r) \<and> stream_inv s' \<and>
    (r = Ok () \<longrightarrow> stream_out s' = tx c \<and> sk_out (bs_out s') = tx c)"
  using timed_flush [OF assms, of "tc_write_timeout c"] by (auto simp: tcp_flush_req_def tx_def)

lemma tcp_write_req_returns:
  assumes "stream_inv (tc_stream c)"
  shows "\<exists>c' r. tcp_write_req buf blob fl c = Fin (c', r) \<and> stream_inv (tc_stream c') \<and>
    (r = Ok () \<longrightarrow> tx c' = tx c @ buf @ blob_bytes blob \<and>
       (fl \<longrightarrow> sk_out (bs_out (tc_stream c')) = tx c @ buf @ blob_bytes blob))"
proof -
  obtain s1 r1 where 1: "tcp_write_all buf c = Fin (c\<lparr>tc_stream := s1\<rparr>, r1)" "stream_inv s1"
    "r1 = Ok () \<longrightarrow> stream_out s1 = tx c @ buf"
    using tcp_write_all_returns [OF assms] by blast
  let ?c = "c\<lparr>tc_stream := s1\<rparr>"
  obtain s2 r2 where 2: "(case blob of Some b \<Rightarrow> tcp_write_all b ?c | None \<Rightarrow> Fin (?c, Ok ())) =
      Fin (?c\<lparr>tc_stream := s2\<rparr>, r2)" "stream_inv s2" "r2 = Ok () \<longrightarrow> stream_out s2 = tx ?c @ blob_bytes blob"
  proof (cases blob)
    case None
    then show ?thesis using that [of s1 "Ok ()"] 1(2) by (simp add: blob_bytes_def tx_def)
  next
    case (Some b)
    obtain s2 r2 where "tcp_write_all b ?c = Fin (?c\<lparr>tc_stream := s2\<rparr>, r2)" "stream_inv s2"
      "r2 = Ok () \<longrightarrow> stream_out s2 = tx ?c @ b"
      using tcp_write_all_returns [of ?c b] 1(2) by auto
    with Some show ?thesis using that [of s2 r2] by (simp add: blob_bytes_def)
  qed
  let ?d = "?c\<lparr>tc_stream := s2\<rparr>"
  obtain s3 r3 where 3: "(if fl then tcp_flush_req ?d else Fin (?d, Ok ())) = Fin (?d\<lparr>tc_stream := s3\<rparr>, r3)"
    "stream_inv s3" "r3 = Ok () \<longrightarrow> stream_out s3 = tx ?d \<and> (fl \<longrightarrow> sk_out (bs_out s3) = tx ?d)"
  proof (cases fl)
    case False
    then show ?thesis using that [of s2 "Ok ()"] 2(2) by (simp add: tx_def)
  next
    case True
    then show ?thesis using that tcp_flush_returns [of ?d] 2(2) by auto
  qed
  from 1 2 3 show ?thesis
    by (cases r1; cases r2) (auto simp: tcp_write_req_def tx_def)
qed

section \<open>Every response is accounted for\<close>

definition one_event :: "('t \<Rightarrow> 'v) \<Rightarrow> 't \<Rightarrow> 't task_event list \<Rightarrow> bool" where
  "one_event f t evs \<longleftrightarrow> (\<exists>ev. evs = [ev] \<and> f (event_task ev) = f t)"

lemma recv_error_event:
  assumes "task_view ct f"
  shows "async_post (\<lambda>(c, evs, r). one_event f t evs) (recv_error ct codec h t c)"
  using task_viewD [OF assms]
  by (auto simp: recv_error_def Let_def one_event_def intro!: async_post_any split: sum.split option.split)

lemma recv_blob_event:
  assumes "task_view ct f"
  shows "async_post (\<lambda>(c, q). case q of Inl (evs, r) \<Rightarrow> one_event f t evs | Inr u \<Rightarrow> f u = f t)
    (recv_blob alloc ct h t c)"
  using task_viewD [OF assms]
  by (auto simp: recv_blob_def one_event_def intro!: async_post_any split: prod.split option.split sum.split)

lemma recv_finish_event:
  assumes "task_view ct f"
  shows "f (event_task (recv_finish ct codec h t c)) = f t"
  using task_viewD [OF assms] by (auto simp: recv_finish_def split: prod.split sum.split)

lemma recv_task_body_event:
  assumes "task_view ct f"
  shows "async_post (\<lambda>(c, evs, r). one_event f t evs) (recv_task_body alloc ct codec h t c)"
  unfolding recv_task_body_def
  using task_viewD [OF assms] recv_finish_event [OF assms]
  by (intro async_post_any)
     (auto simp: one_event_def [of _ _ "[_]"] split: sum.split
       intro!: async_post_bind [OF recv_blob_event [OF assms]])

lemma tcp_read_resp_conserves:
  assumes "task_view ct f" "timer_inv ct tm"
  shows "async_post (\<lambda>(c', tm', evs, r). frame ct tm tm' \<and>
      (evs = [] \<and> timer_tasks tm' = timer_tasks tm \<or>
       (\<exists>t. one_event f t evs \<and> timer_tasks tm = add_mset t (timer_tasks tm'))))
    (tcp_read_resp alloc ct codec cl tm c)" (is "async_post ?P _")
proof -
  let ?B = "\<lambda>(c' :: tcp_client, tm', evs, r :: unit io_result). ?P (c', tm', evs, Ok True)"
  have body: "async_post ?B (recv_resp_body alloc ct codec h tm d)" for h d
  proof -
    have found: "async_post (\<lambda>(c, evs, r). one_event f u evs)
       (if b then recv_error ct codec h u e else recv_task_body alloc ct codec h u e)" for u e b
      using recv_error_event [OF assms(1)] recv_task_body_event [OF assms(1)] by auto
    obtain tm1 p where t: "take_task ct (rp_seq h) tm = (tm1, p)" by fastforce
    consider "p = Pending" | "p = Ready None" | u where "p = Ready (Some u)"
      by (metis option.exhaust poll.exhaust)
    then show ?thesis
    proof cases
      case 1
      with t show ?thesis unfolding recv_resp_body_def by (intro async_post_any) simp
    next
      case 2
      with take_task_general [OF assms(2), of "rp_seq h" tm1 None] t show ?thesis
        unfolding recv_resp_body_def by (intro async_post_any) (auto simp: Let_def intro!: async_post_any)
    next
      case 3
      have tm1: "frame ct tm tm1 \<and> timer_tasks tm = add_mset u (timer_tasks tm1)"
        using take_task_general [OF assms(2), of "rp_seq h" tm1 "Some u"] t 3 by simp
      show ?thesis
        unfolding recv_resp_body_def t 3
        by (rule async_post_any) 
           (simp only: prod.case poll.case option.case, rule async_post_bind [OF found], use tm1 in auto)
    qed
  qed
  show ?thesis
    unfolding tcp_read_resp_def
    by (rule async_post_any)
       (auto simp: frame_refl [OF assms(2)] intro!: async_post_bind [OF body] split: sum.split outcome.split)
qed

section \<open>Properties\<close>

text \<open>A connection with 4-byte buffers on which a peer has sent \<open>bs\<close>, for concrete instances.\<close>

definition fresh_client :: "bytes \<Rightarrow> tcp_client" where
  "fresh_client bs = \<lparr>tc_stream = fresh_stream bs, tc_resp_buf = [], tc_read_timeout = 5,
     tc_write_timeout = 5, tc_shut = False\<rparr>"

lemma resp_wire_head:
  "\<exists>h. take RPC_RESP_HEADER_LEN (resp_wire seq r) = resp_head_bytes h \<and>
     resp_decode_head (resp_head_bytes h) = Return (Ok h) \<and> rp_seq h = seq"
proof (cases r)
  case (Resp_Ok m b)
  then show ?thesis
    by (intro exI [of _ "resp_head_for 0 seq (of_nat (length m)) (length (blob_bytes b))"])
       (simp add: resp_decode_head_bytes)
next
  case (Resp_Err e)
  then show ?thesis by (intro exI [of _ "err_head seq e"]) (simp add: resp_decode_head_bytes)
qed

lemma tcp_read_resp_rx:
  assumes "timer_inv ct tm" and "t \<in># timer_tasks tm"
    and "\<not> tm_reg_stopped tm \<or> t \<notin> set (tm_chan tm)"
    and "rx (tc_stream c) (resp_wire (ct_seq ct t) r @ rest)" and "resp_fits r"
    and "alloc_ok alloc" and "reserve_ok ct"
  shows "\<exists>c' tm'. tcp_read_resp alloc ct codec cl tm c =
      Fin (c', tm', [received ct codec r t], Ok True) \<and>
    rx (tc_stream c') rest \<and> timer_tasks tm = add_mset t (timer_tasks tm')"
proof -
  obtain tm' where tm': "take_task ct (ct_seq ct t) tm = (tm', Ready (Some t))"
    "timer_tasks tm = add_mset t (timer_tasks tm')"
    using take_task_live [OF assms(1-3)] by blast
  obtain h where h: "take RPC_RESP_HEADER_LEN (resp_wire (ct_seq ct t) r) = resp_head_bytes h"
    "resp_decode_head (resp_head_bytes h) = Return (Ok h)"
    using resp_wire_head [of "ct_seq ct t" r] by blast
  then have "resp_wire (ct_seq ct t) r =
      resp_head_bytes h @ drop RPC_RESP_HEADER_LEN (resp_wire (ct_seq ct t) r)"
    by (metis append_take_drop_id)
  then obtain s' where s': "tcp_read_head cl c = Fin (c\<lparr>tc_stream := s'\<rparr>, Ok (Ok (resp_head_bytes h)))"
    "rx s' (drop RPC_RESP_HEADER_LEN (resp_wire (ct_seq ct t) r) @ rest)"
    using tcp_read_head_rx [of c h] assms(4) by (metis append.assoc)
  obtain c' where "recv_resp_body alloc ct codec h tm (c\<lparr>tc_stream := s'\<rparr>) =
      Fin (c', tm', [received ct codec r t], Ok ())" "rx (tc_stream c') rest"
    using recv_resp_body_rx [of "c\<lparr>tc_stream := s'\<rparr>" ct t r rest tm tm' alloc h] s'(2) tm'(1) assms(5-7) h
    by auto
  with s'(1) h(2) tm'(2) show ?thesis by (auto simp: tcp_read_resp_def)
qed

text \<open>
  C16: on a connection that delivers a response, the reader returns, hands exactly the task with the
  response's number to the framework with the result the response carries (message and blob,
  numeric error, internal error or user error), and leaves the stream at the next response,
  whether or not the connection is being closed.
\<close>

theorem read_resp_delivers:
  assumes "timer_inv ct tm" and "t \<in># timer_tasks tm"
    and "\<not> tm_reg_stopped tm \<or> t \<notin> set (tm_chan tm)"
    and "rx (tc_stream c) (resp_wire (ct_seq ct t) r @ rest)" and "resp_fits r"
    and "alloc_ok alloc" and "reserve_ok ct"
  shows "\<exists>c' tm'. tcp_read_resp alloc ct codec cl tm c =
      Fin (c', tm', [received ct codec r t], Ok True) \<and>
    rx (tc_stream c') rest \<and> timer_tasks tm = add_mset t (timer_tasks tm')"
  by (rule tcp_read_resp_rx [OF assms])

lemma api_reserve_ok: "reserve_ok api_ops"
  by (simp add: reserve_ok_def api_defs)

theorem read_resp_delivers_witness:
  "\<exists>c' tm'. tcp_read_resp (\<lambda>n. Some (unat n)) uapi_ops () None sample_timer
      (fresh_client (resp_wire 2 (Resp_Err (Enc_Rpc Service)) @ [])) =
    Fin (c', tm', [Error_Handle (api_set_rpc_error Service (sample_task 2))], Ok True)"
proof -
  let ?w = "resp_wire 2 (Resp_Err (Enc_Rpc Service)) @ []"
  have live: "sample_task 2 \<in># timer_tasks sample_timer"
    "\<not> tm_reg_stopped sample_timer \<or> sample_task 2 \<notin> set (tm_chan sample_timer)"
    by (simp_all add: sample_timer_def timer_new_def Let_def timer_tasks_def)
  have rx: "rx (tc_stream (fresh_client ?w)) (resp_wire (ct_seq uapi_ops (sample_task 2)) (Resp_Err (Enc_Rpc Service)) @ [])"
    using rx_fresh [of ?w] by (simp add: fresh_client_def resp_head_bytes_def)
  have fits: "resp_fits (Resp_Err (Enc_Rpc Service))"
    using int_err_as_bytes_short [of Service] by (simp add: err_body_def)
  have "int_err_from_str (int_err_as_bytes Service) = Some Service"
    unfolding int_err_as_bytes_def by (rule int_err_from_str_as_ref)
  then have "received uapi_ops () (Resp_Err (Enc_Rpc Service)) (sample_task 2) =
      Error_Handle (api_set_rpc_error Service (sample_task 2))"
    by (simp add: err_body_def api_ops_def)
  with read_resp_delivers [OF sample_timer_inv live rx fits alloc_ok_unat api_reserve_ok, of "()" None]
  show ?thesis by auto
qed

text \<open>
  A response whose flag is neither of the two error flags makes the reader panic once its task
  is found, so a peer can bring the reader down with one byte.
\<close>

theorem unknown_flag_panics:
  assumes "take_task ct (rp_seq h) tm = (tm', Ready (Some t))" and "2 < rp_flag h"
  shows "recv_resp_body alloc ct codec h tm c = Crash"
proof -
  have "unat (rp_msg_len h) < 2 ^ 32" using unsigned_less [of "rp_msg_len h"] by simp
  then have "\<not> isize_MAX < unat (rp_msg_len h)" by (simp add: isize_MAX_def)
  moreover have "rp_flag h \<noteq> 1" "rp_flag h \<noteq> 2" "0 < rp_flag h" using assms(2) by (auto simp: word_less_nat_alt)
  ultimately show ?thesis
    using assms(1) by (simp add: recv_resp_body_def get_resp_buf_def recv_error_def)
qed

theorem unknown_flag_panics_witness:
  "\<exists>h. rp_flag h = 3 \<and>
     recv_resp_body (\<lambda>n. Some 0) uapi_ops () h sample_timer (fresh_client [0]) = Crash"
proof -
  have live: "sample_task 2 \<in># timer_tasks sample_timer"
    "\<not> tm_reg_stopped sample_timer \<or> sample_task 2 \<notin> set (tm_chan sample_timer)"
    by (simp_all add: sample_timer_def timer_new_def Let_def timer_tasks_def)
  obtain tm' where "take_task uapi_ops (rp_seq (resp_head_for 3 2 0 0)) sample_timer =
      (tm', Ready (Some (sample_task 2)))"
    using take_task_live [OF sample_timer_inv live] by auto
  from unknown_flag_panics [OF this, of "\<lambda>n. Some 0" "()" "fresh_client [0]"] show ?thesis
    by (intro exI [of _ "resp_head_for 3 2 0 0"]) simp
qed

text \<open>
  Writing a request always returns, for every behaviour of the socket; when it succeeds the
  connection has accepted exactly the encoded request followed by its blob, and after a flush
  these bytes are on the socket behind everything written before.
\<close>

theorem write_req_appends:
  assumes "stream_inv (tc_stream c)"
  shows "\<exists>c' r. tcp_write_req buf blob need_flush c = Fin (c', r) \<and> stream_inv (tc_stream c') \<and>
    (r = Ok () \<longrightarrow> tx c' = tx c @ buf @ blob_bytes blob \<and>
       (need_flush \<longrightarrow> sk_out (bs_out (tc_stream c')) = tx c @ buf @ blob_bytes blob))"
  by (rule tcp_write_req_returns [OF assms])

theorem write_req_appends_witness:
  "\<exists>c' r. tcp_write_req [1, 2, 3] (Some [4, 5]) True (fresh_client [0]) = Fin (c', r)"
proof -
  have "stream_inv (tc_stream (fresh_client [0]))"
    using rx_fresh [of "[0]"] by (simp add: fresh_client_def rx_def)
  from write_req_appends [OF this, of "[1, 2, 3]" "Some [4, 5]" True] show ?thesis by blast
qed

text \<open>
  Whatever the peer sends, a call of \<open>read_resp\<close> that returns has taken at most one task out of
  the registry, and that task, recognised by its number, is the one handed back; no other task is
  lost or completed, and the registry stays well-formed.
\<close>

theorem read_resp_conserves:
  assumes "client_task ct msg" and "timer_inv ct tm"
    and "tcp_read_resp alloc ct codec cl tm c = Fin (c', tm', evs, r)"
  shows "timer_inv ct tm' \<and>
    (evs = [] \<and> timer_tasks tm' = timer_tasks tm \<or>
     (\<exists>t ev. evs = [ev] \<and> ct_seq ct (event_task ev) = ct_seq ct t \<and>
        timer_tasks tm = add_mset t (timer_tasks tm')))"
  using async_postD [OF tcp_read_resp_conserves [OF client_task.seq_view [OF assms(1)] assms(2)] assms(3)]
  by (auto simp: one_event_def frame_def)

theorem read_resp_conserves_witness:
  "\<exists>c' tm' r. tcp_read_resp (\<lambda>n. Some 0) uapi_ops () None sample_timer (fresh_client [0]) =
      Fin (c', tm', [], r) \<and> timer_inv uapi_ops tm' \<and> timer_tasks tm' = timer_tasks sample_timer"
proof -
  have "\<exists>c' r. tcp_read_resp (\<lambda>n. Some 0) uapi_ops () None sample_timer (fresh_client [0]) =
      Fin (c', sample_timer, [], r)"
    by (simp add: tcp_read_resp_def tcp_read_head_def tcp_read_exact_def fresh_client_def fresh_stream_def
        io_with_timeout_def read_exact.simps stream_read_def read_buffered_def int_err_from_io_def)
  then show ?thesis
    using read_resp_conserves [OF api.client_task_axioms sample_timer_inv] by fastforce
qed

text \<open>
  C40: reading the header is not safe against cancellation: when the close notification arrives
  while only a part of the next header has come in, \<open>read_resp\<close> reports the abort, but the part
  already read is gone, so that the reader, which goes on to collect the outstanding responses,
  continues in the middle of the header.
\<close>

theorem cancelled_header_lost:
  assumes "d \<noteq> []" and "length d < RPC_RESP_HEADER_LEN"
    and "br_pos (bs_read (tc_stream c)) = br_cap (bs_read (tc_stream c))"
    and "bs_in (tc_stream c) = Data d # Rd_Stall # rest"
  shows "\<exists>c'. tcp_read_resp alloc ct codec (Some True) tm c = Fin (c', tm, [], Ok False) \<and>
    stream_rest (tc_stream c) = d @ stream_rest (tc_stream c')"
proof -
  let ?s = "tc_stream c"
  obtain b where r1: "stream_read ?s 20 = (?s\<lparr>bs_read := b, bs_in := Rd_Stall # rest\<rparr>, Ready (Ok d))"
    and b: "br_pos b = br_cap b"
  proof (cases "length (br_buf (bs_read ?s)) \<le> 20")
    case True
    then show ?thesis using that [of "bs_read ?s"] assms by (simp add: stream_read_def read_buffered_def)
  next
    case False
    then show ?thesis using that assms by (simp add: stream_read_def read_buffered_def Let_def)
  qed
  have r2: "stream_read (?s\<lparr>bs_read := b, bs_in := Rd_Stall # rest\<rparr>) (20 - length d) =
      (?s\<lparr>bs_read := b, bs_in := rest\<rparr>, Pending)"
    using b by (simp add: stream_read_def read_buffered_def)
  have "read_exact stream_read False ?s 20 [] = Some (?s\<lparr>bs_read := b, bs_in := rest\<rparr>, Pending)"
    using read_exact_more [where rd = stream_read, OF _ r1 assms(1)] assms(2)
      read_exact_wait [where rd = stream_read, OF _ r2] by simp
  moreover have "stream_rest ?s = d @ stream_rest (?s\<lparr>bs_read := b, bs_in := rest\<rparr>)"
    using assms(3,4) b by (simp add: stream_rest_def buf_read_rest_def)
  ultimately show ?thesis
    by (intro exI [of _ "c\<lparr>tc_stream := ?s\<lparr>bs_read := b, bs_in := rest\<rparr>\<rparr>"])
       (simp add: tcp_read_resp_def tcp_read_head_def)
qed

definition half_header :: tcp_client where
  "half_header = (fresh_client [])\<lparr>tc_stream :=
     (fresh_stream [])\<lparr>bs_in := [Data [0x25, 0x4D], Rd_Stall, Data [1, 0, 0, 0]]\<rparr>\<rparr>"

theorem cancelled_header_lost_witness:
  "\<exists>c'. tcp_read_resp (\<lambda>n. Some 0) uapi_ops () (Some True) sample_timer half_header =
      Fin (c', sample_timer, [], Ok False) \<and> stream_rest (tc_stream c') = [1, 0, 0, 0]"
  using cancelled_header_lost [of "[0x25, 0x4D]" half_header "[Data [1, 0, 0, 0]]" "\<lambda>n. Some 0" uapi_ops "()" sample_timer]
  by (auto simp: half_header_def fresh_client_def fresh_stream_def stream_rest_def buf_read_rest_def)

end
