(* ===== verification/Rpc_Stream.thy ===== *)
theory Rpc_Stream
  imports Rpc_Tcp_Client
begin

text \<open>
  A client connection, \<open>ClientStream\<close> of \<open>stream/src/client/stream.rs\<close>: the sending side (numbering,
  encoding, writing and registering a task, pings, flushing, dropping) and the receiving coroutine
  (reading responses, the one-second tick, and the clean-up when the connection ends). The two run
  concurrently on shared state, so beside the operations there is a step relation that interleaves
  them at their suspension points.
\<close>

section \<open>The transport as the stream sees it\<close>

text \<open>\<open>ClientTransport\<close>, with the connection state \<open>'s\<close>.\<close>

record ('s, 'c, 't) client_transport_ops =
  tr_flush_req :: "'s \<Rightarrow> ('s \<times> unit io_result) async"
  tr_write_req :: "bytes \<Rightarrow> bytes option \<Rightarrow> bool \<Rightarrow> 's \<Rightarrow> ('s \<times> unit io_result) async"
  tr_close_conn :: "'s \<Rightarrow> 's async"
  tr_read_resp :: "'c \<Rightarrow> bool option \<Rightarrow> 't timer \<Rightarrow> 's \<Rightarrow>
    ('s \<times> 't timer \<times> 't task_event list \<times> (bool, rpc_int_err) result) async"

definition tcp_transport ::
  "(i32 \<Rightarrow> nat option) \<Rightarrow> ('c, 't) client_task_ops \<Rightarrow> (tcp_client, 'c, 't) client_transport_ops" where
  "tcp_transport alloc ct =
     \<lparr>tr_flush_req = tcp_flush_req, tr_write_req = tcp_write_req, tr_close_conn = tcp_close_conn,
      tr_read_resp = tcp_read_resp alloc ct\<rparr>"

text \<open>
  What the stream relies on: reading a response keeps the registry well-formed, and every task it
  takes out is handed back, unchanged in the view \<open>f\<close> that identifies it.
\<close>

locale client_transport =
  fixes ct :: "('c, 't) client_task_ops" and tr :: "('s, 'c, 't) client_transport_ops" and f :: "'t \<Rightarrow> 'v"
  assumes read_conserves: "task_view ct f \<Longrightarrow> timer_inv ct tm \<Longrightarrow>
    async_post (\<lambda>(s', tm', evs, r). frame ct tm tm' \<and> ledger f tm tm' evs)
    (tr_read_resp tr codec cl tm s)"

interpretation tcp: client_transport ct "tcp_transport alloc ct" f for ct alloc f
proof
  fix codec cl tm s
  assume "task_view ct f" "timer_inv ct tm"
  from tcp_read_resp_conserves [OF this]
  show "async_post (\<lambda>(s', tm', evs, r). frame ct tm tm' \<and> ledger f tm tm' evs)
      (tr_read_resp (tcp_transport alloc ct) codec cl tm s)"
    by (fastforce simp: tcp_transport_def ledger_def one_event_def async_post_def)
qed

section \<open>ClientStreamInner\<close>

text \<open>\<open>cs_close_sig\<close>: the close channel has a message or its sender is gone.\<close>

record ('s, 't) client_stream =
  cs_client_id :: u64
  cs_conn :: 's
  cs_seq :: u64
  cs_close_sig :: bool
  cs_closed :: bool
  cs_has_err :: bool
  cs_timer :: "'t timer"
  cs_throttler :: throttler
  cs_last_resp_ts :: "u64 option"
  cs_encode_buf :: bytes

definition client_stream_new ::
  "client_config \<Rightarrow> 's \<Rightarrow> u64 \<Rightarrow> u64 option \<Rightarrow> ('s, 't) client_stream" where
  "client_stream_new config conn client_id last_resp_ts =
     (let thresholds = (if cc_thresholds config = 0 then 128 else cc_thresholds config) in
      \<lparr>cs_client_id = client_id, cs_conn = conn, cs_seq = 1, cs_close_sig = False, cs_closed = False,
       cs_has_err = False, cs_timer = timer_new (cc_task_timeout config) thresholds,
       cs_throttler = throttler_new thresholds, cs_last_resp_ts = last_resp_ts, cs_encode_buf = []\<rparr>)"

text \<open>\<open>ClientStream::connect\<close>, with the transport's \<open>connect\<close>.\<close>

definition stream_connect ::
  "(rust_str \<Rightarrow> client_config \<Rightarrow> ('s, rpc_int_err) result async) \<Rightarrow> client_config \<Rightarrow> u64 \<Rightarrow> rust_str \<Rightarrow> u64 option \<Rightarrow>
   (('s, 't) client_stream, rpc_int_err) result async" where
  "stream_connect connect config client_id addr last_resp_ts =
     async_bind (connect addr config) (\<lambda>r.
       Fin (case r of Inl e \<Rightarrow> Err e | Inr conn \<Rightarrow> Ok (client_stream_new config conn client_id last_resp_ts)))"

abbreviation on_timer :: "('t timer \<Rightarrow> 't timer) \<Rightarrow> ('s, 't) client_stream \<Rightarrow> ('s, 't) client_stream" where
  "on_timer g st \<equiv> st\<lparr>cs_timer := g (cs_timer st)\<rparr>"

abbreviation inflight :: "('s, 't) client_stream \<Rightarrow> nat" where
  "inflight st \<equiv> timer_inflight (cs_timer st)"

definition will_block :: "('s, 't) client_stream \<Rightarrow> bool" where
  "will_block st = nearly_full (cs_throttler st) (inflight st)"

definition get_last_resp_ts :: "('s, 't) client_stream \<Rightarrow> u64" where
  "get_last_resp_ts st = (case cs_last_resp_ts st of Some ts \<Rightarrow> ts | None \<Rightarrow> 0)"

definition seq_update :: "('s, 't) client_stream \<Rightarrow> ('s, 't) client_stream \<times> u64" where
  "seq_update st = (st\<lparr>cs_seq := cs_seq st + 1\<rparr>, cs_seq st)"

section \<open>Sending\<close>

text \<open>
  \<open>send_task\<close> before its first suspension point: the task is announced by the counter, then \<open>closed\<close>
  is looked at. A closed stream hands the task back and takes the announcement back.
\<close>

definition send_announce :: "bool \<Rightarrow> ('s, 't) client_stream \<Rightarrow> ('s, 't) client_stream \<times> bool" where
  "send_announce need_flush st =
     (on_timer pending_add st, need_flush \<or> nearly_full (cs_throttler st) (inflight st))"

definition send_refused ::
  "('c, 't) client_task_ops \<Rightarrow> 't \<Rightarrow> ('s, 't) client_stream \<Rightarrow> ('s, 't) client_stream \<times> 't task_event list"
  where
  "send_refused ct task st =
     (on_timer pending_sub st, [Error_Handle (ct_set_rpc_error ct IO task)])"

text \<open>
  \<open>send_request\<close> up to the registration of the task: \<open>Inr\<close> is the task that was written and is to be
  registered. An encoding error returns at once.
\<close>

definition send_request ::
  "('c, 't) client_task_ops \<Rightarrow> ('s, 'c, 't) client_transport_ops \<Rightarrow> 'c \<Rightarrow> 't \<Rightarrow> bool \<Rightarrow>
   ('s, 't) client_stream \<Rightarrow> (('s, 't) client_stream \<times> 't task_event list \<times> ('t, rpc_int_err) result) async"
  where
  "send_request ct tr codec task need_flush st =
     (case seq_update st of (st, seq) \<Rightarrow>
        (let task = ct_set_seq ct seq task in
         case req_encode ct codec (cs_encode_buf st) (cs_client_id st) task of
           (buf, Inl _) \<Rightarrow> Fin (st\<lparr>cs_encode_buf := buf\<rparr>, [], Err Encode)
         | (buf, Inr blob) \<Rightarrow>
             async_bind (tr_write_req tr buf blob need_flush (cs_conn st)) (\<lambda>(conn, r).
               let st = st\<lparr>cs_encode_buf := buf, cs_conn := conn\<rparr> in
               case r of
                 Inl e \<Rightarrow>
                   Fin (on_timer (\<lambda>tm. stop_reg_task (pending_sub tm))
                          (st\<lparr>cs_closed := True, cs_has_err := True\<rparr>),
                        [Error_Handle (ct_set_rpc_error ct IO task)], Err IO)
               | Inr _ \<Rightarrow> Fin (st, [], Ok task))))"

text \<open>What \<open>send_task\<close> does with the result: any error closes the stream.\<close>

definition send_failed :: "('s, 't) client_stream \<Rightarrow> ('s, 't) client_stream" where
  "send_failed st = st\<lparr>cs_closed := True, cs_has_err := True\<rparr>"

text \<open>The whole of \<open>send_task\<close> when nothing else runs; it suspends while the channel or the throttler is full.\<close>

definition send_task ::
  "('c, 't) client_task_ops \<Rightarrow> ('s, 'c, 't) client_transport_ops \<Rightarrow> 'c \<Rightarrow> 't \<Rightarrow> bool \<Rightarrow>
   ('s, 't) client_stream \<Rightarrow>
   (('s, 't) client_stream \<times> 't task_event list \<times> (unit, rpc_int_err) result) async" where
  "send_task ct tr codec task need_flush st =
     (case send_announce need_flush st of (st, need_flush) \<Rightarrow>
        (if cs_closed st then
           (case send_refused ct task st of (st, evs) \<Rightarrow> Fin (st, evs, Err IO))
         else
           async_bind (send_request ct tr codec task need_flush st) (\<lambda>(st, evs, r).
             case r of
               Inl _ \<Rightarrow> Fin (send_failed st, evs, Err IO)
             | Inr task \<Rightarrow>
                 (case reg_task task (cs_timer st) of
                    (tm, Pending) \<Rightarrow> Suspend
                  | (tm, Ready _) \<Rightarrow>
                      (let st = st\<lparr>cs_timer := tm\<rparr> in
                       case throttle (cs_throttler st) (inflight st) of
                         Pending \<Rightarrow> Suspend
                       | Ready _ \<Rightarrow> Fin (st, evs, Ok ()))))))"

definition stream_flush_req ::
  "('s, 'c, 't) client_transport_ops \<Rightarrow> ('s, 't) client_stream \<Rightarrow>
   (('s, 't) client_stream \<times> (unit, rpc_int_err) result) async" where
  "stream_flush_req tr st =
     async_bind (tr_flush_req tr (cs_conn st)) (\<lambda>(conn, r).
       let st = st\<lparr>cs_conn := conn\<rparr> in
       case r of
         Inl e \<Rightarrow> Fin (on_timer stop_reg_task (st\<lparr>cs_closed := True, cs_has_err := True\<rparr>), Err IO)
       | Inr _ \<Rightarrow> Fin (st, Ok ()))"

definition send_ping_req ::
  "('s, 'c, 't) client_transport_ops \<Rightarrow> ('s, 't) client_stream \<Rightarrow>
   (('s, 't) client_stream \<times> (unit, rpc_int_err) result) async" where
  "send_ping_req tr st =
     (if cs_closed st then Fin (st, Err IO)
      else
        (case seq_update st of (st, seq) \<Rightarrow>
           (let buf = req_encode_ping (cs_encode_buf st) (cs_client_id st) seq in
            async_bind (tr_write_req tr buf None True (cs_conn st)) (\<lambda>(conn, r).
              let st = st\<lparr>cs_encode_buf := buf, cs_conn := conn\<rparr> in
              case r of
                Inl e \<Rightarrow> Fin (st\<lparr>cs_closed := True\<rparr>, Err IO)
              | Inr _ \<Rightarrow> Fin (st, Ok ())))))"

text \<open>\<open>ClientStream::drop\<close> and \<open>set_error_and_exit\<close>.\<close>

definition stream_drop :: "('s, 't) client_stream \<Rightarrow> ('s, 't) client_stream" where
  "stream_drop st = on_timer stop_reg_task (st\<lparr>cs_close_sig := True, cs_closed := True\<rparr>)"

definition set_error_and_exit ::
  "('s, 'c, 't) client_transport_ops \<Rightarrow> ('s, 't) client_stream \<Rightarrow> ('s, 't) client_stream async" where
  "set_error_and_exit tr st =
     async_bind (tr_close_conn tr (cs_conn st)) (\<lambda>conn.
       Fin (st\<lparr>cs_has_err := True, cs_conn := conn, cs_close_sig := True\<rparr>))"

section \<open>Receiving\<close>

text \<open>One round of the loop of \<open>recv_one_resp\<close>: \<open>Some\<close> is its return value, \<open>None\<close> goes round again.\<close>

definition recv_round ::
  "('c, 't) client_task_ops \<Rightarrow> ('s, 'c, 't) client_transport_ops \<Rightarrow> 'c \<Rightarrow> ('s, 't) client_stream \<Rightarrow>
   (('s, 't) client_stream \<times> 't task_event list \<times> (unit, rpc_int_err) result option) async" where
  "recv_round ct tr codec st =
     (if cs_closed st then
        (case check_pending_tasks_empty ct (cs_timer st) of (tm, none_left) \<Rightarrow>
           (let st = st\<lparr>cs_timer := tm\<rparr> in
            if none_left \<or> cs_has_err st then Fin (st, [], Some (Err IO))
            else
              async_bind (tr_read_resp tr codec None (cs_timer st) (cs_conn st)) (\<lambda>(conn, tm, evs, r).
                let st = st\<lparr>cs_conn := conn, cs_timer := tm\<rparr> in
                case r of
                  Inl _ \<Rightarrow> Fin (st\<lparr>cs_closed := True\<rparr>, evs, Some (Err IO))
                | Inr _ \<Rightarrow> Fin (st, evs, None))))
      else
        async_bind (tr_read_resp tr codec (Some (cs_close_sig st)) (cs_timer st) (cs_conn st))
          (\<lambda>(conn, tm, evs, r).
             let st = st\<lparr>cs_conn := conn, cs_timer := tm\<rparr> in
             case r of
               Inl _ \<Rightarrow> Fin (st, evs, Some (Err IO))
             | Inr b \<Rightarrow> Fin (if b then st else st\<lparr>cs_closed := True\<rparr>, evs, None)))"

partial_function (option) recv_one_resp ::
  "('c, 't) client_task_ops \<Rightarrow> ('s, 'c, 't) client_transport_ops \<Rightarrow> 'c \<Rightarrow> ('s, 't) client_stream \<Rightarrow>
   't task_event list \<Rightarrow>
   (('s, 't) client_stream \<times> 't task_event list \<times> (unit, rpc_int_err) result) option" where
  "recv_one_resp ct tr codec st acc =
     (case recv_round ct tr codec st of
        Fin x \<Rightarrow>
          (case x of (st', evs, q) \<Rightarrow>
             (case q of
                Some r \<Rightarrow> Some (st', acc @ evs, r)
              | None \<Rightarrow> recv_one_resp ct tr codec st' (acc @ evs)))
      | Suspend \<Rightarrow> None
      | Crash \<Rightarrow> None)"

text \<open>\<open>recv_some\<close>: up to 20 responses, recording the time of each (\<open>now\<close>).\<close>

fun recv_some ::
  "('c, 't) client_task_ops \<Rightarrow> ('s, 'c, 't) client_transport_ops \<Rightarrow> 'c \<Rightarrow> u64 \<Rightarrow> nat \<Rightarrow>
   ('s, 't) client_stream \<Rightarrow>
   (('s, 't) client_stream \<times> 't task_event list \<times> (unit, rpc_int_err) result) option" where
  "recv_some ct tr codec now 0 st = Some (st, [], Ok ())"
| "recv_some ct tr codec now (Suc n) st =
     (case recv_one_resp ct tr codec st [] of
        None \<Rightarrow> None
      | Some (st, evs, Inl e) \<Rightarrow> Some (st, evs, Err e)
      | Some (st, evs, Inr _) \<Rightarrow>
          (let st = st\<lparr>cs_last_resp_ts := map_option (\<lambda>_. now) (cs_last_resp_ts st)\<rparr> in
           case recv_some ct tr codec now n st of
             None \<Rightarrow> None
           | Some (st, evs', r) \<Rightarrow> Some (st, evs @ evs', r)))"

definition time_reach ::
  "((u64, 't) hash_map \<Rightarrow> (u64, 't) hash_map) \<Rightarrow> ('c, 't) client_task_ops \<Rightarrow> ('s, 't) client_stream \<Rightarrow>
   ('s, 't) client_stream \<times> 't task_event list" where
  "time_reach ord ct st =
     (case adjust_task_queue ord ct (cs_timer st) of (tm, evs) \<Rightarrow> (st\<lparr>cs_timer := tm\<rparr>, evs))"

text \<open>The error branch of \<open>receive_loop\<close> before its waiting loop, and one round of that loop.\<close>

definition receive_cleanup ::
  "((u64, 't) hash_map \<Rightarrow> (u64, 't) hash_map) \<Rightarrow> ('c, 't) client_task_ops \<Rightarrow> ('s, 't) client_stream \<Rightarrow>
   ('s, 't) client_stream \<times> 't task_event list" where
  "receive_cleanup ord ct st =
     (case clean_pending_tasks ord ct (cs_timer st) of
        (tm, evs) \<Rightarrow> (st\<lparr>cs_closed := True, cs_timer := tm\<rparr>, evs))"

text \<open>\<open>ClientStreamInner::drop\<close>, which runs when both the sender and the receiver are gone.\<close>

definition inner_drop ::
  "((u64, 't) hash_map \<Rightarrow> (u64, 't) hash_map) \<Rightarrow> ('c, 't) client_task_ops \<Rightarrow> ('s, 't) client_stream \<Rightarrow>
   ('s, 't) client_stream \<times> 't task_event list" where
  "inner_drop ord ct st =
     (case clean_pending_tasks ord ct (cs_timer st) of (tm, evs) \<Rightarrow> (st\<lparr>cs_timer := tm\<rparr>, evs))"

text \<open>
  One poll of \<open>ReceiverTimerFuture\<close>: the ticks that are due, the error flag, the channel. \<open>Some\<close> is the
  result when the error flag ends it; otherwise the receive future is polled next.
\<close>

fun due_ticks ::
  "((u64, 't) hash_map \<Rightarrow> (u64, 't) hash_map) \<Rightarrow> ('c, 't) client_task_ops \<Rightarrow> nat \<Rightarrow> ('s, 't) client_stream \<Rightarrow>
   ('s, 't) client_stream \<times> 't task_event list" where
  "due_ticks ord ct 0 st = (st, [])"
| "due_ticks ord ct (Suc n) st =
     (case time_reach ord ct st of (st, evs) \<Rightarrow>
        (case due_ticks ord ct n st of (st, evs') \<Rightarrow> (st, evs @ evs')))"

definition receiver_poll ::
  "((u64, 't) hash_map \<Rightarrow> (u64, 't) hash_map) \<Rightarrow> ('c, 't) client_task_ops \<Rightarrow> nat \<Rightarrow> ('s, 't) client_stream \<Rightarrow>
   ('s, 't) client_stream \<times> 't task_event list \<times> (unit, rpc_int_err) result option" where
  "receiver_poll ord ct due st =
     (case due_ticks ord ct due st of (st, evs) \<Rightarrow>
        (if cs_has_err st then (st, evs, Some (Err IO))
         else (on_timer (\<lambda>tm. fst (poll_sent_task ct tm)) st, evs, None)))"

section \<open>Sender and receiver side by side\<close>

text \<open>
  Where the sender stands between its suspension points: a task announced by the counter, being
  written, waiting for room in the channel, or the sender waiting for the throttler. The receiver
  reads until an error, then cleans up until nothing is announced any more, then exits.
\<close>

datatype 't sender = S_Idle | S_Announced 't bool | S_Writing 't bool | S_Registering 't | S_Throttled | S_Gone

datatype receiver = R_Receiving | R_Draining | R_Exited

text \<open>\<open>ss_leaked\<close> collects the tasks that \<open>send_request\<close> drops when they cannot be encoded.\<close>

record ('s, 't) stream_state =
  ss_stream :: "('s, 't) client_stream"
  ss_sender :: "'t sender"
  ss_receiver :: receiver
  ss_leaked :: "'t list"

inductive stream_step ::
  "('c, 't) client_task_ops \<Rightarrow> ('s, 'c, 't) client_transport_ops \<Rightarrow> 'c \<Rightarrow>
   ('s, 't) stream_state \<Rightarrow> 't list \<Rightarrow> 't task_event list \<Rightarrow> ('s, 't) stream_state \<Rightarrow> bool"
  for ct tr codec where
  announce: "ss_sender ss = S_Idle \<Longrightarrow> send_announce nf (ss_stream ss) = (st, nf') \<Longrightarrow>
    stream_step ct tr codec ss [t] [] (ss\<lparr>ss_stream := st, ss_sender := S_Announced t nf'\<rparr>)"
| refuse: "ss_sender ss = S_Announced t nf \<Longrightarrow> cs_closed (ss_stream ss) \<Longrightarrow>
    send_refused ct t (ss_stream ss) = (st, evs) \<Longrightarrow>
    stream_step ct tr codec ss [] evs (ss\<lparr>ss_stream := st, ss_sender := S_Idle\<rparr>)"
| accept: "ss_sender ss = S_Announced t nf \<Longrightarrow> \<not> cs_closed (ss_stream ss) \<Longrightarrow>
    stream_step ct tr codec ss [] [] (ss\<lparr>ss_sender := S_Writing t nf\<rparr>)"
| write_ok: "ss_sender ss = S_Writing t nf \<Longrightarrow>
    send_request ct tr codec t nf (ss_stream ss) = Fin (st, evs, Ok t') \<Longrightarrow>
    stream_step ct tr codec ss [] evs (ss\<lparr>ss_stream := st, ss_sender := S_Registering t'\<rparr>)"
| write_err: "ss_sender ss = S_Writing t nf \<Longrightarrow>
    send_request ct tr codec t nf (ss_stream ss) = Fin (st, evs, Err e) \<Longrightarrow>
    stream_step ct tr codec ss [] evs
      (ss\<lparr>ss_stream := send_failed st, ss_sender := S_Idle,
          ss_leaked := (if evs = [] then ct_set_seq ct (cs_seq (ss_stream ss)) t # ss_leaked ss
                        else ss_leaked ss)\<rparr>)"
| register: "ss_sender ss = S_Registering t \<Longrightarrow> reg_task t (cs_timer (ss_stream ss)) = (tm, Ready ()) \<Longrightarrow>
    stream_step ct tr codec ss [] []
      (ss\<lparr>ss_stream := (ss_stream ss)\<lparr>cs_timer := tm\<rparr>, ss_sender := S_Throttled\<rparr>)"
| throttled: "ss_sender ss = S_Throttled \<Longrightarrow>
    throttle (cs_throttler (ss_stream ss)) (inflight (ss_stream ss)) = Ready () \<Longrightarrow>
    stream_step ct tr codec ss [] [] (ss\<lparr>ss_sender := S_Idle\<rparr>)"
| ping: "ss_sender ss = S_Idle \<Longrightarrow> send_ping_req tr (ss_stream ss) = Fin (st, r) \<Longrightarrow>
    stream_step ct tr codec ss [] [] (ss\<lparr>ss_stream := st\<rparr>)"
| flush: "ss_sender ss = S_Idle \<Longrightarrow> stream_flush_req tr (ss_stream ss) = Fin (st, r) \<Longrightarrow>
    stream_step ct tr codec ss [] [] (ss\<lparr>ss_stream := st\<rparr>)"
| force_exit: "ss_sender ss = S_Idle \<Longrightarrow> set_error_and_exit tr (ss_stream ss) = Fin st \<Longrightarrow>
    stream_step ct tr codec ss [] [] (ss\<lparr>ss_stream := st\<rparr>)"
| drop: "ss_sender ss = S_Idle \<Longrightarrow>
    stream_step ct tr codec ss [] [] (ss\<lparr>ss_stream := stream_drop (ss_stream ss), ss_sender := S_Gone\<rparr>)"
| poll: "ss_receiver ss = R_Receiving \<Longrightarrow> iter_order ord \<Longrightarrow>
    receiver_poll ord ct due (ss_stream ss) = (st, evs, None) \<Longrightarrow>
    stream_step ct tr codec ss [] evs (ss\<lparr>ss_stream := st\<rparr>)"
| poll_err: "ss_receiver ss = R_Receiving \<Longrightarrow> iter_order ord \<Longrightarrow>
    receiver_poll ord ct due (ss_stream ss) = (st, evs, Some r) \<Longrightarrow>
    receive_cleanup ord ct st = (st', evs') \<Longrightarrow>
    stream_step ct tr codec ss [] (evs @ evs') (ss\<lparr>ss_stream := st', ss_receiver := R_Draining\<rparr>)"
| read: "ss_receiver ss = R_Receiving \<Longrightarrow> recv_round ct tr codec (ss_stream ss) = Fin (st, evs, None) \<Longrightarrow>
    stream_step ct tr codec ss [] evs (ss\<lparr>ss_stream := st\<rparr>)"
| read_err: "ss_receiver ss = R_Receiving \<Longrightarrow> iter_order ord \<Longrightarrow>
    recv_round ct tr codec (ss_stream ss) = Fin (st, evs, Some r) \<Longrightarrow>
    receive_cleanup ord ct st = (st', evs') \<Longrightarrow>
    stream_step ct tr codec ss [] (evs @ evs') (ss\<lparr>ss_stream := st', ss_receiver := R_Draining\<rparr>)"
| drain_more: "ss_receiver ss = R_Draining \<Longrightarrow> iter_order ord \<Longrightarrow>
    0 < tm_pending_count (cs_timer (ss_stream ss)) \<Longrightarrow>
    receive_cleanup ord ct (ss_stream ss) = (st', evs) \<Longrightarrow>
    stream_step ct tr codec ss [] evs (ss\<lparr>ss_stream := st'\<rparr>)"
| exit: "ss_receiver ss = R_Draining \<Longrightarrow> tm_pending_count (cs_timer (ss_stream ss)) = 0 \<Longrightarrow>
    stream_step ct tr codec ss [] [] (ss\<lparr>ss_receiver := R_Exited\<rparr>)"
| inner_drop: "ss_sender ss = S_Gone \<Longrightarrow> ss_receiver ss = R_Exited \<Longrightarrow> iter_order ord \<Longrightarrow>
    inner_drop ord ct (ss_stream ss) = (st, evs) \<Longrightarrow>
    stream_step ct tr codec ss [] evs (ss\<lparr>ss_stream := st\<rparr>)"

text \<open>Runs of \<open>n\<close> steps from a new connection, with the tasks submitted and the events so far.\<close>

inductive stream_run ::
  "('c, 't) client_task_ops \<Rightarrow> ('s, 'c, 't) client_transport_ops \<Rightarrow> 'c \<Rightarrow> ('s, 't) client_stream \<Rightarrow>
   nat \<Rightarrow> 't list \<Rightarrow> 't task_event list \<Rightarrow> ('s, 't) stream_state \<Rightarrow> bool"
  for ct tr codec st0 where
  start: "stream_run ct tr codec st0 0 [] []
    \<lparr>ss_stream = st0, ss_sender = S_Idle, ss_receiver = R_Receiving, ss_leaked = []\<rparr>"
| more: "stream_run ct tr codec st0 n sub evs ss \<Longrightarrow> stream_step ct tr codec ss sub' evs' ss' \<Longrightarrow>
    stream_run ct tr codec st0 (Suc n) (sub @ sub') (evs @ evs') ss'"

section \<open>The operations on the registry\<close>

lemma due_ticks_frame:
  assumes "iter_order ord" "task_view ct f" "timer_inv ct (cs_timer st)" "due_ticks ord ct n st = (st', evs)"
  shows "frame ct (cs_timer st) (cs_timer st') \<and> ledger f (cs_timer st) (cs_timer st') evs \<and>
    st' = st\<lparr>cs_timer := cs_timer st'\<rparr>"
  using assms(3,4)
proof (induction n arbitrary: st evs)
  case 0
  then show ?case by (simp add: frame_refl ledger_def)
next
  case (Suc n)
  obtain tm e1 where a: "adjust_task_queue ord ct (cs_timer st) = (tm, e1)" by fastforce
  let ?st = "st\<lparr>cs_timer := tm\<rparr>"
  obtain e2 where r: "due_ticks ord ct n ?st = (st', e2)" "evs = e1 @ e2"
    using Suc.prems(2) a by (auto simp: time_reach_def split: prod.splits)
  note fr = adjust_frame [OF assms(1) Suc.prems(1) assms(2) a]
  have "timer_inv ct (cs_timer ?st)" using fr by (simp add: frame_def)
  from Suc.IH [OF this r(1)]
  have ih: "frame ct tm (cs_timer st')" "ledger f tm (cs_timer st') e2" "st' = ?st\<lparr>cs_timer := cs_timer st'\<rparr>"
    by simp_all
  from ih(3) have "st' = st\<lparr>cs_timer := cs_timer st'\<rparr>" by simp
  with fr ih(1,2) r(2) show ?case by (auto intro: frame_trans ledger_trans)
qed

lemma receiver_poll_frame:
  assumes "iter_order ord" "task_view ct f" "timer_inv ct (cs_timer st)"
    and "receiver_poll ord ct due st = (st', evs, r)"
  shows "frame ct (cs_timer st) (cs_timer st') \<and> ledger f (cs_timer st) (cs_timer st') evs \<and>
    st' = st\<lparr>cs_timer := cs_timer st'\<rparr>"
proof -
  obtain st1 where d: "due_ticks ord ct due st = (st1, evs)"
    using assms(4) by (auto simp: receiver_poll_def split: prod.splits if_splits)
  note fr = due_ticks_frame [OF assms(1-3) d]
  then have inv: "timer_inv ct (cs_timer st1)" by (simp add: frame_def)
  consider "st' = st1" | "st' = st1\<lparr>cs_timer := drain ct (cs_timer st1)\<rparr>"
    using assms(4) d by (auto simp: receiver_poll_def poll_sent_task_def split: if_splits)
  then show ?thesis
  proof cases
    case 1
    with fr show ?thesis by simp
  next
    case 2
    have "st' = st\<lparr>cs_timer := cs_timer st'\<rparr>" using fr 2 by (metis client_stream.update_convs(7) client_stream.surjective)
    moreover have "ledger f (cs_timer st1) (cs_timer st') []"
      using 2 drain_tasks [OF inv] by (simp add: ledger_def)
    ultimately show ?thesis
      using fr 2 drain_frame [OF inv] frame_trans ledger_trans [of f "cs_timer st" "cs_timer st1" evs] by fastforce
  qed
qed

lemma receive_cleanup_frame:
  assumes "iter_order ord" "task_view ct f" "timer_inv ct (cs_timer st)" "receive_cleanup ord ct st = (st', evs)"
  shows "frame ct (cs_timer st) (cs_timer st') \<and> ledger f (cs_timer st) (cs_timer st') evs \<and>
    timer_tasks (cs_timer st') = {#} \<and> cs_closed st' \<and> cs_seq st' = cs_seq st"
  using clean_pending_frame [OF assms(1,3,2)] assms(4) by (auto simp: receive_cleanup_def split: prod.splits)

context client_transport
begin

lemma recv_round_frame:
  assumes "task_view ct f" "timer_inv ct (cs_timer st)"
  shows "async_post (\<lambda>(st', evs, r). frame ct (cs_timer st) (cs_timer st') \<and>
      ledger f (cs_timer st) (cs_timer st') evs \<and> cs_seq st' = cs_seq st \<and> (cs_closed st \<longrightarrow> cs_closed st'))
    (recv_round ct tr codec st)"
proof (cases "cs_closed st")
  case True
  note d = drain_inv [OF assms(2)] drain_frame [OF assms(2)] drain_tasks [OF assms(2)]
  have read: "async_post (\<lambda>(s', tm', evs, r). frame ct (cs_timer st) tm' \<and> ledger f (cs_timer st) tm' evs)
      (tr_read_resp tr codec None (drain ct (cs_timer st)) s)" for s
    using read_conserves [OF assms(1) d(1), of codec None s] d(2,3) frame_trans
    by (fastforce simp: async_post_def ledger_def)
  have "ledger f (cs_timer st) (drain ct (cs_timer st)) []" using d(3) by (simp add: ledger_def)
  with True d(2) show ?thesis
    unfolding recv_round_def check_pending_tasks_empty_def
    by (auto simp: Let_def intro!: async_post_bind [OF read] split: sum.split)
next
  case False
  then show ?thesis
    unfolding recv_round_def
    by (auto simp: Let_def intro!: async_post_bind [OF read_conserves [OF assms]] split: sum.split)
qed

end

text \<open>The outcomes of \<open>send_request\<close> on everything but the connection and the send buffer.\<close>

lemma send_request_cases:
  assumes "send_request ct tr codec t nf st = Fin (st', evs, r)"
  shows "(\<exists>b. st' = st\<lparr>cs_seq := cs_seq st + 1, cs_encode_buf := b\<rparr> \<and> evs = [] \<and> r = Err Encode) \<or>
    (\<exists>b s. st' = st\<lparr>cs_seq := cs_seq st + 1, cs_encode_buf := b, cs_conn := s\<rparr> \<and> evs = [] \<and>
       r = Ok (ct_set_seq ct (cs_seq st) t)) \<or>
    (\<exists>b s. st' = st\<lparr>cs_seq := cs_seq st + 1, cs_encode_buf := b, cs_conn := s, cs_closed := True,
         cs_has_err := True, cs_timer := stop_reg_task (pending_sub (cs_timer st))\<rparr> \<and>
       evs = [Error_Handle (ct_set_rpc_error ct IO (ct_set_seq ct (cs_seq st) t))] \<and> r = Err IO)"
proof -
  let ?t = "ct_set_seq ct (cs_seq st) t"
  obtain buf q where e: "req_encode ct codec (cs_encode_buf st) (cs_client_id st) ?t = (buf, q)" by fastforce
  show ?thesis
  proof (cases q)
    case (Inl u)
    with assms e show ?thesis by (auto simp: send_request_def seq_update_def)
  next
    case (Inr blob)
    obtain conn w where w: "tr_write_req tr buf blob nf (cs_conn st) = Fin (conn, w)"
      using assms e Inr by (cases "tr_write_req tr buf blob nf (cs_conn st)") (auto simp: send_request_def seq_update_def)
    show ?thesis
      using assms e Inr w by (cases w) (auto simp: send_request_def seq_update_def)
  qed
qed

section \<open>The invariant of a connection\<close>

primrec held :: "'t sender \<Rightarrow> 't list" where
  "held S_Idle = []"
| "held (S_Announced t nf) = [t]"
| "held (S_Writing t nf) = [t]"
| "held (S_Registering t) = [t]"
| "held S_Throttled = []"
| "held S_Gone = []"

text \<open>
  The counter counts the tasks in the channel, the one the sender has announced, and those that were
  dropped. Numbers grow: the registry's are below the next one. Once the receiver has stopped
  reading, the stream is closed and nothing is registered; when it has exited, nothing is in the
  channel and no sender is past the check of \<open>closed\<close>.
\<close>

definition stream_ok :: "('c, 't) client_task_ops \<Rightarrow> nat \<Rightarrow> ('s, 't) stream_state \<Rightarrow> bool" where
  "stream_ok ct n ss \<longleftrightarrow>
     (let st = ss_stream ss; tm = cs_timer st in
      timer_inv ct tm \<and>
      pending_ahead tm = of_nat (length (held (ss_sender ss)) + length (ss_leaked ss)) \<and>
      length (tm_chan tm) \<le> n \<and> length (ss_leaked ss) \<le> n \<and> unat (cs_seq st) \<le> Suc n \<and>
      top_seq ct tm < cs_seq st \<and>
      (\<forall>t. ss_sender ss = S_Registering t \<longrightarrow> top_seq ct tm < ct_seq ct t \<and> ct_seq ct t < cs_seq st) \<and>
      (ss_receiver ss \<noteq> R_Receiving \<longrightarrow> cs_closed st \<and> registered tm = []) \<and>
      (ss_receiver ss = R_Exited \<longrightarrow> tm_chan tm = [] \<and> ss_leaked ss = [] \<and>
         (\<forall>t nf. ss_sender ss \<noteq> S_Writing t nf) \<and> (\<forall>t. ss_sender ss \<noteq> S_Registering t)))"

definition all_tasks :: "('s, 't) stream_state \<Rightarrow> 't multiset" where
  "all_tasks ss = mset (held (ss_sender ss)) + mset (ss_leaked ss) + timer_tasks (cs_timer (ss_stream ss))"

text \<open>One step accounts for every task, in the view \<open>f\<close>.\<close>

definition accounts ::
  "('t \<Rightarrow> 'v) \<Rightarrow> 't list \<Rightarrow> 't task_event list \<Rightarrow> ('s, 't) stream_state \<Rightarrow> ('s, 't) stream_state \<Rightarrow> bool" where
  "accounts f sub evs ss ss' \<longleftrightarrow>
     image_mset f (mset sub) + image_mset f (all_tasks ss) =
     image_mset f (all_tasks ss') + image_mset (\<lambda>e. f (event_task e)) (mset evs)"

lemma registered_empty: "timer_tasks tm = {#} \<Longrightarrow> registered tm = []"
  by (simp add: timer_tasks_registered)

text \<open>A step of the receiver that only moves and hands back tasks.\<close>

lemma receiver_step_ok:
  assumes "stream_ok ct n ss" "frame ct (cs_timer (ss_stream ss)) (cs_timer st')"
    and "ledger f (cs_timer (ss_stream ss)) (cs_timer st') evs" "cs_seq st' = cs_seq (ss_stream ss)"
    and "ss_receiver ss \<noteq> R_Exited" "r' \<noteq> R_Exited"
    and "r' \<noteq> R_Receiving \<Longrightarrow> cs_closed st' \<and> timer_tasks (cs_timer st') = {#}"
  shows "stream_ok ct (Suc n) (ss\<lparr>ss_stream := st', ss_receiver := r'\<rparr>) \<and>
    accounts f [] evs ss (ss\<lparr>ss_stream := st', ss_receiver := r'\<rparr>)"
proof -
  have "r' \<noteq> R_Receiving \<Longrightarrow> cs_closed st' \<and> registered (cs_timer st') = []"
    using assms(7) registered_empty by blast
  with assms show ?thesis
    by (auto simp: stream_ok_def Let_def frame_def accounts_def all_tasks_def ledger_def)
qed

text \<open>The counter and the stop flag do not touch the tasks.\<close>

lemma counter_simps [simp]:
  "timer_inv ct (pending_add tm) = timer_inv ct tm" "timer_inv ct (pending_sub tm) = timer_inv ct tm"
  "timer_inv ct (stop_reg_task tm) = timer_inv ct tm"
  "top_seq ct (pending_add tm) = top_seq ct tm" "top_seq ct (pending_sub tm) = top_seq ct tm"
  "top_seq ct (stop_reg_task tm) = top_seq ct tm"
  "tm_chan (pending_add tm) = tm_chan tm" "tm_chan (pending_sub tm) = tm_chan tm"
  "tm_chan (stop_reg_task tm) = tm_chan tm"
  "registered (pending_add tm) = registered tm" "registered (pending_sub tm) = registered tm"
  "registered (stop_reg_task tm) = registered tm"
  "timer_tasks (pending_add tm) = timer_tasks tm" "timer_tasks (pending_sub tm) = timer_tasks tm"
  "timer_tasks (stop_reg_task tm) = timer_tasks tm"
  "pending_ahead (pending_add tm) = pending_ahead tm + 1"
  "pending_ahead (pending_sub tm) = pending_ahead tm - 1"
  "pending_ahead (stop_reg_task tm) = pending_ahead tm"
  by (simp_all add: pending_add_def pending_sub_def stop_reg_task_def timer_inv_def top_seq_def
      registered_def timer_tasks_def pending_ahead_def)

lemma sorted_wrt_snoc_last:
  "sorted_wrt (<) (x # xs) \<Longrightarrow> last (x # xs) < (y :: u64) \<Longrightarrow> sorted_wrt (<) (x # xs @ [y])"
  by (cases xs rule: rev_cases) (auto simp: sorted_wrt_append intro: less_trans)

lemma reg_task_ok:
  assumes "timer_inv ct tm" "top_seq ct tm < ct_seq ct t" "reg_task t tm = (tm', Ready ())"
  shows "timer_inv ct tm' \<and> top_seq ct tm' = ct_seq ct t \<and> pending_ahead tm' = pending_ahead tm - 1 \<and>
    timer_tasks tm' = add_mset t (timer_tasks tm) \<and> registered tm' = registered tm \<and>
    tm_chan tm' = tm_chan tm @ [t]"
proof -
  have tm': "tm' = tm\<lparr>tm_chan := tm_chan tm @ [t]\<rparr>"
    using assms(3) by (auto simp: reg_task_def split: if_splits)
  have "sorted_wrt (<) (tm_processed_seq tm # map (ct_seq ct) (tm_chan tm) @ [ct_seq ct t])"
    using assms(1,2) by (intro sorted_wrt_snoc_last) (simp_all add: timer_inv_def top_seq_def)
  then have "timer_inv ct tm'" using assms(1) by (simp add: tm' timer_inv_def)
  then show ?thesis
    by (simp add: tm' top_seq_def pending_ahead_def timer_tasks_def registered_def algebra_simps)
qed

lemma seq_suc:
  fixes x :: u64
  assumes "unat x \<le> Suc n" "Suc n < 2 ^ 62"
  shows "unat (x + 1) = Suc (unat x)" "y < x \<Longrightarrow> y < x + 1" "x < x + 1"
proof -
  show s: "unat (x + 1) = Suc (unat x)" using assms by (simp add: unat_word_ariths)
  show "y < x \<Longrightarrow> y < x + 1" "x < x + 1" using s by (simp_all add: word_less_nat_alt)
qed

text \<open>A step of a sender that holds no task.\<close>

lemma idle_step_ok:
  assumes "stream_ok ct n ss" "Suc n < 2 ^ 62" "held (ss_sender ss) = []" "held s' = []"
    and "cs_timer st' = cs_timer (ss_stream ss) \<or> cs_timer st' = stop_reg_task (cs_timer (ss_stream ss))"
    and "cs_seq st' = cs_seq (ss_stream ss) \<or> cs_seq st' = cs_seq (ss_stream ss) + 1"
    and "cs_closed (ss_stream ss) \<longrightarrow> cs_closed st'"
  shows "stream_ok ct (Suc n) (ss\<lparr>ss_stream := st', ss_sender := s'\<rparr>) \<and>
    accounts f [] [] ss (ss\<lparr>ss_stream := st', ss_sender := s'\<rparr>)"
proof -
  have "unat (cs_seq (ss_stream ss)) \<le> Suc n" using assms(1) by (simp add: stream_ok_def Let_def)
  note suc = seq_suc [OF this assms(2)]
  have "(\<forall>t. s' \<noteq> S_Registering t) \<and> (\<forall>t nf. s' \<noteq> S_Writing t nf)" using assms(4) by (cases s') auto
  with assms suc show ?thesis
    by (auto simp: stream_ok_def Let_def accounts_def all_tasks_def)
qed

text \<open>The steps of a sender on its way with a task.\<close>

lemma announce_ok:
  assumes "stream_ok ct n ss" "ss_sender ss = S_Idle" "send_announce nf (ss_stream ss) = (st, nf')"
  shows "stream_ok ct (Suc n) (ss\<lparr>ss_stream := st, ss_sender := S_Announced t nf'\<rparr>) \<and>
    accounts f [t] [] ss (ss\<lparr>ss_stream := st, ss_sender := S_Announced t nf'\<rparr>)"
  using assms by (auto simp: stream_ok_def Let_def accounts_def all_tasks_def send_announce_def)

lemma refuse_ok:
  assumes "stream_ok ct n ss" "task_view ct f" "ss_sender ss = S_Announced t nf" "cs_closed (ss_stream ss)"
    and "send_refused ct t (ss_stream ss) = (st, evs)"
  shows "stream_ok ct (Suc n) (ss\<lparr>ss_stream := st, ss_sender := S_Idle\<rparr>) \<and>
    accounts f [] evs ss (ss\<lparr>ss_stream := st, ss_sender := S_Idle\<rparr>)"
  using assms(1,3-) task_viewD(1) [OF assms(2)]
  by (auto simp: stream_ok_def Let_def accounts_def all_tasks_def send_refused_def)

lemma accept_ok:
  assumes "stream_ok ct n ss" "ss_sender ss = S_Announced t nf" "\<not> cs_closed (ss_stream ss)"
  shows "stream_ok ct (Suc n) (ss\<lparr>ss_sender := S_Writing t nf\<rparr>) \<and>
    accounts f [] [] ss (ss\<lparr>ss_sender := S_Writing t nf\<rparr>)"
  using assms by (auto simp: stream_ok_def Let_def accounts_def all_tasks_def)

lemma register_ok:
  assumes "stream_ok ct n ss" "ss_sender ss = S_Registering t" "reg_task t (cs_timer (ss_stream ss)) = (tm, Ready ())"
  shows "stream_ok ct (Suc n) (ss\<lparr>ss_stream := (ss_stream ss)\<lparr>cs_timer := tm\<rparr>, ss_sender := S_Throttled\<rparr>) \<and>
    accounts f [] [] ss (ss\<lparr>ss_stream := (ss_stream ss)\<lparr>cs_timer := tm\<rparr>, ss_sender := S_Throttled\<rparr>)"
proof -
  have "timer_inv ct (cs_timer (ss_stream ss))" "top_seq ct (cs_timer (ss_stream ss)) < ct_seq ct t"
    using assms(1,2) by (simp_all add: stream_ok_def Let_def)
  from reg_task_ok [OF this assms(3)] assms show ?thesis
    by (auto simp: stream_ok_def Let_def accounts_def all_tasks_def)
qed

lemma write_ok_ok:
  assumes "stream_ok ct n ss" "client_task ct msg" "\<forall>s t. f (ct_set_seq ct s t) = f t" "Suc n < 2 ^ 62"
    and "ss_sender ss = S_Writing t nf" "send_request ct tr codec t nf (ss_stream ss) = Fin (st, evs, Ok t')"
  shows "stream_ok ct (Suc n) (ss\<lparr>ss_stream := st, ss_sender := S_Registering t'\<rparr>) \<and>
    accounts f [] evs ss (ss\<lparr>ss_stream := st, ss_sender := S_Registering t'\<rparr>)"
proof -
  have "unat (cs_seq (ss_stream ss)) \<le> Suc n" using assms(1) by (simp add: stream_ok_def Let_def)
  note suc = seq_suc [OF this assms(4)]
  from send_request_cases [OF assms(6)] show ?thesis
    using assms(1,3,5) suc client_task.seq_set_seq [OF assms(2)]
    by (auto simp: stream_ok_def Let_def accounts_def all_tasks_def)
qed

lemma write_err_ok:
  assumes "stream_ok ct n ss" "task_view ct f" "\<forall>s t. f (ct_set_seq ct s t) = f t" "Suc n < 2 ^ 62"
    and "ss_sender ss = S_Writing t nf" "send_request ct tr codec t nf (ss_stream ss) = Fin (st, evs, Err e)"
    and "l = (if evs = [] then ct_set_seq ct (cs_seq (ss_stream ss)) t # ss_leaked ss else ss_leaked ss)"
  shows "stream_ok ct (Suc n) (ss\<lparr>ss_stream := send_failed st, ss_sender := S_Idle, ss_leaked := l\<rparr>) \<and>
    accounts f [] evs ss (ss\<lparr>ss_stream := send_failed st, ss_sender := S_Idle, ss_leaked := l\<rparr>)"
proof -
  have "unat (cs_seq (ss_stream ss)) \<le> Suc n" using assms(1) by (simp add: stream_ok_def Let_def)
  note suc = seq_suc [OF this assms(4)]
  from send_request_cases [OF assms(6)] show ?thesis
    using assms(1,3,5,7) suc task_viewD(1) [OF assms(2)]
    by (auto simp: stream_ok_def Let_def accounts_def all_tasks_def send_failed_def)
qed

lemma of_nat_zero64: "(of_nat k :: u64) = 0 \<Longrightarrow> k < 2 ^ 64 \<Longrightarrow> k = 0"
proof -
  assume "(of_nat k :: u64) = 0" and k: "k < 2 ^ 64"
  then have "unat (of_nat k :: u64) = 0" by simp
  with k show ?thesis by (simp add: unat_of_nat take_bit_nat_eq_self)
qed

lemma exit_ok:
  assumes "stream_ok ct n ss" "Suc n < 2 ^ 62" "ss_receiver ss = R_Draining"
    and "tm_pending_count (cs_timer (ss_stream ss)) = 0"
  shows "stream_ok ct (Suc n) (ss\<lparr>ss_receiver := R_Exited\<rparr>) \<and> accounts f [] [] ss (ss\<lparr>ss_receiver := R_Exited\<rparr>)"
proof -
  let ?tm = "cs_timer (ss_stream ss)"
  let ?k = "length (tm_chan ?tm) + (length (held (ss_sender ss)) + length (ss_leaked ss))"
  have ok: "pending_ahead ?tm = of_nat (length (held (ss_sender ss)) + length (ss_leaked ss))"
    "length (tm_chan ?tm) \<le> n" "length (ss_leaked ss) \<le> n"
    using assms(1) by (simp_all add: stream_ok_def Let_def)
  have "(of_nat ?k :: u64) = of_nat (length (tm_chan ?tm)) + pending_ahead ?tm"
    using ok(1) by simp
  also have "\<dots> = 0" using assms(4) by (simp add: pending_ahead_def)
  finally have zero: "(of_nat ?k :: u64) = 0" .
  have "length (held (ss_sender ss)) \<le> 1" by (cases "ss_sender ss") simp_all
  then have "?k < 2 ^ 64" using ok(2,3) assms(2) by simp
  with zero have "?k = 0" by (rule of_nat_zero64)
  then have "tm_chan ?tm = []" "held (ss_sender ss) = []" "ss_leaked ss = []" by simp_all
  moreover from this(2) have "(\<forall>t. ss_sender ss \<noteq> S_Registering t) \<and> (\<forall>t nf. ss_sender ss \<noteq> S_Writing t nf)"
    by (cases "ss_sender ss") auto
  ultimately show ?thesis
    using assms(1,3) by (auto simp: stream_ok_def Let_def accounts_def all_tasks_def)
qed

text \<open>When the connection is dropped, nothing is left to hand back.\<close>

lemma inner_drop_ok:
  assumes "stream_ok ct n ss" "task_view ct f" "ss_receiver ss = R_Exited" "iter_order ord"
    and "inner_drop ord ct (ss_stream ss) = (st, evs)"
  shows "stream_ok ct (Suc n) (ss\<lparr>ss_stream := st\<rparr>) \<and> accounts f [] evs ss (ss\<lparr>ss_stream := st\<rparr>) \<and> evs = []"
proof -
  let ?tm = "cs_timer (ss_stream ss)"
  have ok: "timer_inv ct ?tm" "tm_chan ?tm = []" "registered ?tm = []" "cs_closed (ss_stream ss)"
    using assms(1,3) by (simp_all add: stream_ok_def Let_def)
  obtain tm where c: "clean_pending_tasks ord ct ?tm = (tm, evs)" "st = (ss_stream ss)\<lparr>cs_timer := tm\<rparr>"
    using assms(5) by (auto simp: inner_drop_def split: prod.splits)
  have fr: "frame ct ?tm tm" "ledger f ?tm tm evs" "timer_tasks tm = {#}"
    using clean_pending_frame [OF assms(4) ok(1) assms(2)] c(1) by auto
  have "evs = []" using fr(2) ok by (simp add: ledger_def timer_tasks_registered)
  moreover have "tm_chan tm = []" "registered tm = []" using fr(3) by (simp_all add: timer_tasks_registered)
  ultimately show ?thesis
    using assms(1,3) fr ok c(2)
    by (auto simp: stream_ok_def Let_def frame_def accounts_def all_tasks_def timer_tasks_registered)
qed

lemma ping_op:
  "send_ping_req tr st = Fin (st', r) \<Longrightarrow> cs_timer st' = cs_timer st \<and>
     (cs_seq st' = cs_seq st \<or> cs_seq st' = cs_seq st + 1) \<and> (cs_closed st \<longrightarrow> cs_closed st')"
  by (cases "cs_closed st";
      cases "tr_write_req tr (req_encode_ping (cs_encode_buf st) (cs_client_id st) (cs_seq st)) None True (cs_conn st)")
     (auto simp: send_ping_req_def seq_update_def Let_def split: sum.splits)

lemma flush_op:
  "stream_flush_req tr st = Fin (st', r) \<Longrightarrow>
     (cs_timer st' = cs_timer st \<or> cs_timer st' = stop_reg_task (cs_timer st)) \<and>
     cs_seq st' = cs_seq st \<and> (cs_closed st \<longrightarrow> cs_closed st')"
  by (cases "tr_flush_req tr (cs_conn st)") (auto simp: stream_flush_req_def Let_def split: sum.splits)

lemma force_exit_op:
  "set_error_and_exit tr st = Fin st' \<Longrightarrow> cs_timer st' = cs_timer st \<and> cs_seq st' = cs_seq st \<and>
     (cs_closed st \<longrightarrow> cs_closed st')"
  by (cases "tr_close_conn tr (cs_conn st)") (auto simp: set_error_and_exit_def)

lemma stream_step_ok:
  assumes "client_task ct msg" "client_transport ct tr f" "task_view ct f" "\<forall>s t. f (ct_set_seq ct s t) = f t"
    and "stream_step ct tr codec ss sub evs ss'" "stream_ok ct n ss" "Suc n < 2 ^ 62"
  shows "stream_ok ct (Suc n) ss' \<and> accounts f sub evs ss ss'"
proof -
  have inv: "timer_inv ct (cs_timer (ss_stream ss))" using assms(6) by (simp add: stream_ok_def Let_def)
  note idle = idle_step_ok [OF assms(6,7), of _ _ f]
  note recv = receiver_step_ok [OF assms(6), of _ f]
  note round = client_transport.recv_round_frame [OF assms(2,3) inv, THEN async_postD]
  have same: "ss_receiver ss = r \<Longrightarrow> ss\<lparr>ss_stream := st, ss_receiver := r\<rparr> = ss\<lparr>ss_stream := st\<rparr>"
    "ss_sender ss = s \<Longrightarrow> ss\<lparr>ss_stream := st, ss_sender := s\<rparr> = ss\<lparr>ss_stream := st\<rparr>" for st r s by auto
  have two: "frame ct (cs_timer (ss_stream ss)) (cs_timer b) \<and>
      ledger f (cs_timer (ss_stream ss)) (cs_timer b) (e @ e') \<and> timer_tasks (cs_timer b) = {#} \<and>
      cs_closed b \<and> cs_seq b = cs_seq (ss_stream ss)"
    if "frame ct (cs_timer (ss_stream ss)) (cs_timer a)" "ledger f (cs_timer (ss_stream ss)) (cs_timer a) e"
      "cs_seq a = cs_seq (ss_stream ss)" "iter_order ord" "receive_cleanup ord ct a = (b, e')" for a b e e' ord
    using receive_cleanup_frame [OF that(4) assms(3) _ that(5)] that(1-3) frame_trans ledger_trans
    by (metis frame_def)
  show ?thesis
    using assms(5)
  proof cases
    case (announce nf st nf' t)
    then show ?thesis using announce_ok [OF assms(6)] by simp
  next
    case (refuse t nf st)
    then show ?thesis using refuse_ok [OF assms(6,3)] by simp
  next
    case (accept t nf)
    then show ?thesis using accept_ok [OF assms(6) accept(4,5), of f] by simp
  next
    case (write_ok t nf st t')
    then show ?thesis using write_ok_ok [OF assms(6,1,4,7)] by simp
  next
    case (write_err t nf st e)
    then show ?thesis using write_err_ok [OF assms(6,3,4,7) write_err(3,4) refl] by simp
  next
    case (register t tm)
    then show ?thesis using register_ok [OF assms(6) register(4,5), of f] by simp
  next
    case throttled
    then show ?thesis using idle [of S_Idle "ss_stream ss"] by simp
  next
    case (ping st r)
    then show ?thesis using idle [of S_Idle st] ping_op [OF ping(5)] by (simp add: same(2))
  next
    case (flush st r)
    then show ?thesis using idle [of S_Idle st] flush_op [OF flush(5)] by (simp add: same(2))
  next
    case (force_exit st)
    then show ?thesis using idle [of S_Idle st] force_exit_op [OF force_exit(5)] by (simp add: same(2))
  next
    case drop
    then show ?thesis using idle [of S_Gone "stream_drop (ss_stream ss)"] by (simp add: stream_drop_def)
  next
    case (poll ord due st)
    have "frame ct (cs_timer (ss_stream ss)) (cs_timer st)" "ledger f (cs_timer (ss_stream ss)) (cs_timer st) evs"
      "st = (ss_stream ss)\<lparr>cs_timer := cs_timer st\<rparr>"
      using receiver_poll_frame [OF poll(4) assms(3) inv poll(5)] by auto
    moreover from this(3) have "cs_seq st = cs_seq (ss_stream ss)"
      by (metis client_stream.select_convs(3) client_stream.surjective client_stream.update_convs(7))
    ultimately show ?thesis using recv [of st evs R_Receiving] poll by (simp add: same(1))
  next
    case (poll_err ord due st e r st' e')
    have "frame ct (cs_timer (ss_stream ss)) (cs_timer st)" "ledger f (cs_timer (ss_stream ss)) (cs_timer st) e"
      "st = (ss_stream ss)\<lparr>cs_timer := cs_timer st\<rparr>"
      using receiver_poll_frame [OF poll_err(5) assms(3) inv poll_err(6)] by auto
    moreover from this(3) have "cs_seq st = cs_seq (ss_stream ss)"
      by (metis client_stream.select_convs(3) client_stream.surjective client_stream.update_convs(7))
    ultimately show ?thesis using two [of st e ord st' e'] recv [of st' "e @ e'" R_Draining] poll_err by simp
  next
    case (read st)
    then show ?thesis using round [of codec] recv [of st evs R_Receiving] by (fastforce simp: same(1))
  next
    case (read_err ord st e r st' e')
    have "frame ct (cs_timer (ss_stream ss)) (cs_timer st)" "ledger f (cs_timer (ss_stream ss)) (cs_timer st) e"
      "cs_seq st = cs_seq (ss_stream ss)" using round [OF read_err(6)] by simp_all
    then show ?thesis using two [of st e ord st' e'] recv [of st' "e @ e'" R_Draining] read_err by simp
  next
    case (drain_more ord st')
    then show ?thesis
      using receive_cleanup_frame [OF drain_more(4) assms(3) inv drain_more(6)] recv [of st' evs R_Draining]
      by (simp add: same(1))
  next
    case exit
    then show ?thesis using exit_ok [OF assms(6,7) exit(4,5), of f] by simp
  next
    case (inner_drop ord st)
    show ?thesis unfolding inner_drop(1,2) using inner_drop_ok [OF assms(6,3) inner_drop(4-6)] by blast
  qed
qed

lemma stream_start_ok:
  "stream_ok ct 0 \<lparr>ss_stream = client_stream_new config conn cid ts, ss_sender = S_Idle,
     ss_receiver = R_Receiving, ss_leaked = []\<rparr>"
  by (simp add: stream_ok_def client_stream_new_def Let_def timer_new_inv)
     (simp add: timer_new_def pending_ahead_def top_seq_def Let_def)

lemma timer_tasks_new [simp]: "timer_tasks (timer_new k m) = {#}"
  by (simp add: timer_tasks_def timer_new_def Let_def)

lemma stream_run_ok:
  assumes "client_task ct msg" "client_transport ct tr f" "task_view ct f" "\<forall>s t. f (ct_set_seq ct s t) = f t"
    and "stream_run ct tr codec (client_stream_new config conn cid ts) n sub evs ss" "n < 2 ^ 62"
  shows "stream_ok ct n ss \<and>
    image_mset f (mset sub) = image_mset f (all_tasks ss) + image_mset (\<lambda>e. f (event_task e)) (mset evs)"
  using assms(5,6)
proof (induction rule: stream_run.induct)
  case start
  show ?case using stream_start_ok [of ct config conn cid ts]
    by (simp add: all_tasks_def client_stream_new_def Let_def)
next
  case (more n sub evs ss sub' evs' ss')
  then have ih: "stream_ok ct n ss"
    "image_mset f (mset sub) = image_mset f (all_tasks ss) + image_mset (\<lambda>e. f (event_task e)) (mset evs)"
    by simp_all
  have "stream_ok ct (Suc n) ss' \<and> accounts f sub' evs' ss ss'"
    using stream_step_ok [OF assms(1-4) more.hyps(2) ih(1)] more.prems by simp
  then show ?case using ih(2) by (simp add: accounts_def ac_simps)
qed

lemma recv_round_err: "recv_round ct tr codec s = Fin (a, e, Some q) \<Longrightarrow> q = Err IO"
  by (cases "tr_read_resp tr codec None (fst (check_pending_tasks_empty ct (cs_timer s))) (cs_conn s)";
      cases "tr_read_resp tr codec (Some (cs_close_sig s)) (cs_timer s) (cs_conn s)")
     (auto simp: recv_round_def Let_def split: if_splits prod.splits sum.splits)

lemma recv_one_resp_err: "recv_one_resp ct tr codec s acc = Some y \<Longrightarrow> snd (snd y) = Err IO"
proof (erule recv_one_resp.raw_induct [where P = "\<lambda>ct tr codec s acc y. snd (snd y) = Err IO", rotated])
  fix rec ct tr codec s acc y
  assume ih: "\<And>ct tr codec s acc y. rec ct tr codec s acc = Some y \<Longrightarrow> snd (snd y) = Err IO"
    and body: "(case recv_round ct tr codec s of
        Fin (st', evs, None) \<Rightarrow> rec ct tr codec st' (acc @ evs)
      | Fin (st', evs, Some r) \<Rightarrow> Some (st', acc @ evs, r)
      | _ \<Rightarrow> None) = Some y"
  show "snd (snd y) = Err IO"
  proof (cases "recv_round ct tr codec s")
    case (Fin x)
    obtain a e q where x: "x = (a, e, q)" by (cases x)
    show ?thesis
    proof (cases q)
      case None
      with body Fin x have "rec ct tr codec a (acc @ e) = Some y" by simp
      then show ?thesis by (rule ih)
    next
      case (Some r)
      with body Fin x recv_round_err [of ct tr codec s a e r] show ?thesis by auto
    qed
  qed (use body in simp_all)
qed

section \<open>Properties\<close>


definition sample_transport :: "(tcp_client, unit, api_client_req) client_transport_ops" where
  "sample_transport = tcp_transport (\<lambda>n. Some (unat n)) api_ops"

definition sample_stream :: "(tcp_client, api_client_req) client_stream" where
  "sample_stream = client_stream_new client_config_default (fresh_client [0]) 5 None"

lemma api_view: "task_view uapi_ops ar_action" "\<forall>s t. ar_action (ct_set_seq uapi_ops s t) = ar_action t"
  by (auto simp: task_view_def api_defs ct_set_seq_def)



definition mute_ops :: "(unit, api_client_req) client_task_ops" where
  "mute_ops = api_ops\<lparr>ct_encode_req := (\<lambda>c t b. (b, Err ()))\<rparr>"

lemma mute_task: "client_task mute_ops api_msg" "task_view mute_ops ar_action"
  "\<forall>s t. ar_action (ct_set_seq mute_ops s t) = ar_action t"
  by (unfold_locales; simp add: mute_ops_def api_defs split: if_splits option.splits)
     (auto simp: mute_ops_def task_view_def api_defs ct_set_seq_def)


text \<open>
  \<open>recv_one_resp\<close> returns only with an error, so \<open>recv_some\<close> never counts a response and never
  updates the time of the last response that \<open>get_last_resp_ts\<close> is to report.
\<close>

theorem last_resp_ts_never_set:
  assumes "recv_some ct tr codec now (Suc k) st = Some (st', evs, r)"
  shows "r = Err IO \<and> recv_one_resp ct tr codec st [] = Some (st', evs, Err IO)"
proof -
  obtain s e q where r: "recv_one_resp ct tr codec st [] = Some (s, e, q)"
    using assms by (auto split: option.splits)
  with recv_one_resp_err [OF r] show ?thesis using assms by simp
qed

theorem last_resp_ts_never_set_witness:
  "\<exists>st' evs. recv_some uapi_ops sample_transport () 7 (Suc 19) (stream_drop sample_stream) =
      Some (st', evs, Err IO)"
proof -
  have "timer_inv uapi_ops (cs_timer (stream_drop sample_stream))"
    by (simp add: stream_drop_def sample_stream_def client_stream_new_def Let_def timer_new_inv)
  from drain_eq [OF this]
  have "snd (check_pending_tasks_empty uapi_ops (cs_timer (stream_drop sample_stream)))"
    by (simp add: check_pending_tasks_empty_def Let_def stream_drop_def sample_stream_def
        client_stream_new_def stop_reg_task_def timer_new_def)
  then obtain tm where c: "check_pending_tasks_empty uapi_ops (cs_timer (stream_drop sample_stream)) = (tm, True)"
    by (metis (full_types) prod.collapse)
  have "recv_round uapi_ops sample_transport () (stream_drop sample_stream) =
      Fin ((stream_drop sample_stream)\<lparr>cs_timer := tm\<rparr>, [], Some (Err IO))"
    using c by (simp add: recv_round_def stream_drop_def)
  then have "recv_one_resp uapi_ops sample_transport () (stream_drop sample_stream) [] =
      Some ((stream_drop sample_stream)\<lparr>cs_timer := tm\<rparr>, [], Err IO)"
    by (simp add: recv_one_resp.simps)
  then obtain st' evs where r: "recv_some uapi_ops sample_transport () 7 (Suc 19) (stream_drop sample_stream) =
      Some (st', evs, Err IO)"
    by (simp only: recv_some.simps option.case prod.case sum.case)
  from last_resp_ts_never_set [OF r] r show ?thesis by blast
qed

end
