(* ===== verification/Rpc_Call.thy ===== *)
theory Rpc_Call
  imports Rpc_Api Rpc_Stream
begin

text \<open>
  The pieces of a whole call, from the argument of a generated client method to the result it
  returns: what the sender puts on the wire, what the server makes of it, and what the caller gets
  out of the response.
\<close>

section \<open>Results that can travel\<close>

text \<open>
  What is assumed of the result of a method: its serialisation is supported and not empty, a user error
  is one its codec supports, and the lengths fit the headers.
\<close>

definition result_ok ::
  "'p rmp \<Rightarrow> 'e rpc_err_codec \<Rightarrow> ('e \<Rightarrow> bool) \<Rightarrow> ('p, 'e rpc_error) result \<Rightarrow> bool" where
  "result_ok rp ec ok res =
     (case res of
        Inr p \<Rightarrow> rmp_supports rp p \<and> to_vec_named rp p \<noteq> Some [] \<and>
          (\<forall>w. to_vec_named rp p = Some w \<longrightarrow> length w \<le> u32_MAX)
      | Inl (Rpc_User e) \<Rightarrow> ok e \<and> length (err_body (err_encode ec e)) \<le> i32_MAX
      | Inl (Rpc_Int i) \<Rightarrow> True)"

lemma result_fits:
  assumes "result_ok rp ec ok res"
  shows "resp_fits (result_response (msgp_codec rp) ec res)"
proof (cases res)
  case (Inl e)
  then show ?thesis using assms
    by (cases e) (auto simp: result_ok_def err_body_def intro: order_trans [OF int_err_as_bytes_short])
next
  case (Inr p)
  then show ?thesis using assms
    by (auto simp: result_ok_def rmp_supports_def msgp_codec_def msgp_encode_def blob_bytes_def)
qed

text \<open>A message that is supported and takes at least one and at most \<open>n\<close> bytes.\<close>

definition rmp_carries :: "nat \<Rightarrow> 'm rmp \<Rightarrow> 'm \<Rightarrow> bool" where
  "rmp_carries n r m \<longleftrightarrow> rmp_supports r m \<and> (\<exists>w. to_vec_named r m = Some w \<and> w \<noteq> [] \<and> length w \<le> n)"

lemma result_ok_carried: "rmp_carries n r p \<Longrightarrow> n \<le> u32_MAX \<Longrightarrow> result_ok r ec ok (Ok p)"
  by (auto simp: rmp_carries_def result_ok_def)

section \<open>The caller\<close>

lemma int_err_from_bytes [simp]: "int_err_from_str (int_err_as_bytes e) = Some e"
  unfolding int_err_as_bytes_def by (rule int_err_from_str_as_ref)

text \<open>A response that reached the task of a call gives the caller the method's result.\<close>

lemma received_result:
  assumes "result_ok rp ec ok res" "err_codec ec ok" "ar_noti t = Some n" "ar_resp t = None"
  shows "\<exists>u. api_done (event_task (received api_ops c (result_response (msgp_codec rp) ec res) t)) = Return (n, u) \<and>
    process_res (msgp_codec rp) d ec (Ok u) = Return res"
proof (cases res)
  case (Inr p)
  then obtain w where w: "to_vec_named rp p = Some w" "from_slice rp w = Some p" "w \<noteq> []"
    using assms(1) by (auto simp: result_ok_def rmp_supports_def)
  then have "result_response (msgp_codec rp) ec res = Resp_Ok w None"
    using Inr by (simp add: msgp_codec_def msgp_encode_def)
  with w Inr assms(3) show ?thesis
    by (simp add: received_msg_def blob_bytes_def api_defs api_done_def process_res_def msgp_codec_def msgp_decode_def)
next
  case (Inl e)
  show ?thesis
  proof (cases e)
    case (Rpc_Int i)
    with Inl assms(3) show ?thesis
      by (simp add: err_body_def api_defs api_done_def process_res_def encoded_err_from_int_def)
  next
    case (Rpc_User x)
    then have x: "ok x" using Inl assms(1) by (simp add: result_ok_def)
    note dec = err_codec.decode_encode [OF assms(2) x]
    from err_codec.encode_form [OF assms(2) x] show ?thesis
    proof (elim disjE exE conjE)
      fix k
      assume "err_encode ec x = Enc_Num k"
      with dec Inl Rpc_User assms(3) show ?thesis
        by (simp add: api_defs api_done_def process_res_def)
    next
      fix b
      assume "err_encode ec x = Enc_Buf b" "int_err_from_str b = None"
      with dec Inl Rpc_User assms(3) show ?thesis
        by (simp add: err_body_def api_defs api_done_def process_res_def)
    qed
  qed
qed

section \<open>The sender\<close>

text \<open>What a task that \<open>send_request\<close> accepted has put on the wire.\<close>

lemma send_request_wire:
  assumes "client_task ct msg" "send_request ct (tcp_transport alloc ct) codec t0 fl st = Fin (st', evs, Ok t)"
    and "stream_inv (tc_stream (cs_conn st))"
  shows "t = ct_set_seq ct (cs_seq st) t0 \<and> evs = [] \<and> req_fits (Act_Num 0) (msg codec t) (ct_get_req_blob ct t) \<and>
    tx (cs_conn st') = tx (cs_conn st) @
      req_wire (cs_client_id st) (ct_seq ct t) (ct_get_action ct t) (msg codec t) (ct_get_req_blob ct t)"
proof -
  let ?t = "ct_set_seq ct (cs_seq st) t0"
  obtain buf r where e: "req_encode ct codec (cs_encode_buf st) (cs_client_id st) ?t = (buf, r)" by fastforce
  obtain blob where r: "r = Ok blob"
    using assms(2) e by (cases r) (auto simp: send_request_def seq_update_def Let_def)
  obtain c' q where w: "tcp_write_req buf blob fl (cs_conn st) = Fin (c', q)"
    "q = Ok () \<longrightarrow> tx c' = tx (cs_conn st) @ buf @ blob_bytes blob"
    using tcp_write_req_returns [OF assms(3), of buf blob fl] by blast
  have *: "q = Ok ()" "t = ?t" "evs = []" "cs_conn st' = c'"
    using assms(2) e r w(1)
    by (cases q; auto simp: send_request_def seq_update_def Let_def tcp_transport_def)+
  note enc = client_task.req_encode_Ok [OF assms(1) e [unfolded r]]
  have "buf @ blob_bytes blob = req_wire (cs_client_id st) (ct_seq ct t) (ct_get_action ct t) (msg codec t) (ct_get_req_blob ct t)"
    using client_task.req_encode_wire [OF assms(1) e [unfolded r]] enc * by simp
  moreover have "req_fits (Act_Num 0) (msg codec t) (ct_get_req_blob ct t)"
    using enc * by (auto simp: req_fits_def blob_bytes_def split: option.split)
  ultimately show ?thesis using * w(2) by simp
qed

section \<open>The server\<close>

text \<open>The services of a server with a method \<open>f\<close> under the name \<open>sn.mn\<close>.\<close>

definition serves_method ::
  "service list \<Rightarrow> rust_str \<Rightarrow> rust_str \<Rightarrow> 'a codec \<Rightarrow> 'p codec \<Rightarrow> 'e rpc_err_codec \<Rightarrow>
   ('a \<Rightarrow> ('p, 'e rpc_error) result outcome) \<Rightarrow> bool" where
  "serves_method ss sn mn ca cp ec f \<longleftrightarrow>
     distinct (map svc_name ss) \<and> dot \<notin> set sn \<and>
     (\<exists>arms. \<lparr>svc_name = sn, svc_serve = service_serve arms\<rparr> \<in> set ss \<and>
       map_of arms mn = Some (handle_method ca cp ec f))"

lemma serve_call:
  assumes "serves_method ss sn mn ca cp ec f" "dc_open ch" "sq_action req = Act_Str (service_method sn mn)"
    and "cd_decode ca (sq_msg req) = Ok arg" "f arg = Return res"
  shows "replies req ch (result_response cp ec res)
    (serve_req (api_dispatch_req (inline_dispatch (mux_struct_serve ss)) noti) codec req ch)"
proof -
  obtain arms where a: "distinct (map svc_name ss)" "\<lparr>svc_name = sn, svc_serve = service_serve arms\<rparr> \<in> set ss"
    "map_of arms mn = Some (handle_method ca cp ec f)" "dot \<notin> set sn"
    using assms(1) by (auto simp: serves_method_def)
  have "method_answer ca cp ec f (sq_msg req) = Some (result_response cp ec res)"
    using assms(4,5) by (simp add: method_answer_def)
  then show ?thesis
    using serve_req_method [OF assms(3) a(4) assms(2), of "mux_struct_serve ss" noti ca cp ec f codec]
      mux_struct_at [OF a(1,2)] a(3) by (simp add: service_serve_def)
qed

end
