(* ===== verification/Rpc_Pipeline.thy ===== *)
theory Rpc_Pipeline
  imports Rpc_Call
begin

text \<open>
  Many calls on one connection: the loops of \<open>send_task\<close> (\<open>stream.rs\<close>), of the server's reader
  (\<open>server.rs\<close>) and of the client's receiver (\<open>recv_one_resp\<close> in \<open>stream.rs\<close>) over the framing of
  the TCP transport. Requests are sent back to back; responses may come back in any order and find
  their tasks by number.
\<close>

section \<open>The loops\<close>

text \<open>Sending a list of tasks one after the other; \<open>None\<close> when one of them fails or hangs.\<close>

fun send_all ::
  "('c, 't) client_task_ops \<Rightarrow> ('s, 'c, 't) client_transport_ops \<Rightarrow> 'c \<Rightarrow> 't list \<Rightarrow>
   ('s, 't) client_stream \<Rightarrow> (('s, 't) client_stream \<times> 't list) option" where
  "send_all ct tr codec [] st = Some (st, [])"
| "send_all ct tr codec (t # ts) st =
     (case send_request ct tr codec t False st of
        Fin (st, [], Inr u) \<Rightarrow> map_option (\<lambda>(st, us). (st, u # us)) (send_all ct tr codec ts st)
      | _ \<Rightarrow> None)"

text \<open>The first \<open>n\<close> requests the reader of a server connection gets.\<close>

fun read_reqs ::
  "(i32 \<Rightarrow> nat option) \<Rightarrow> bool \<Rightarrow> nat \<Rightarrow> tcp_server \<Rightarrow> (tcp_server \<times> (rpc_svr_req list, rpc_int_err) result) async" where
  "read_reqs alloc cancel 0 k = Fin (k, Ok [])"
| "read_reqs alloc cancel (Suc n) k =
     async_bind (srv_read_req alloc cancel k) (\<lambda>(k, r).
       case r of
         Inl e \<Rightarrow> Fin (k, Err e)
       | Inr req \<Rightarrow>
           async_bind (read_reqs alloc cancel n k) (\<lambda>(k, rs).
             Fin (k, case rs of Inl e \<Rightarrow> Err e | Inr reqs \<Rightarrow> Ok (req # reqs))))"

text \<open>The first \<open>n\<close> responses the receiver of a client connection gets, with the tasks handed back.\<close>

fun read_resps ::
  "(i32 \<Rightarrow> nat option) \<Rightarrow> ('c, 't) client_task_ops \<Rightarrow> 'c \<Rightarrow> bool option \<Rightarrow> nat \<Rightarrow> 't timer \<Rightarrow> tcp_client \<Rightarrow>
   (tcp_client \<times> 't timer \<times> 't task_event list \<times> (unit, rpc_int_err) result) async" where
  "read_resps alloc ct codec cl 0 tm c = Fin (c, tm, [], Ok ())"
| "read_resps alloc ct codec cl (Suc n) tm c =
     async_bind (tcp_read_resp alloc ct codec cl tm c) (\<lambda>(c, tm, evs, r).
       case r of
         Inl e \<Rightarrow> Fin (c, tm, evs, Err e)
       | Inr _ \<Rightarrow>
           async_bind (read_resps alloc ct codec cl n tm c) (\<lambda>(c, tm, evs', r). Fin (c, tm, evs @ evs', r)))"

section \<open>Requests back to back\<close>

abbreviation task_wire :: "('c, 't) client_task_ops \<Rightarrow> ('c \<Rightarrow> 't \<Rightarrow> bytes) \<Rightarrow> 'c \<Rightarrow> u64 \<Rightarrow> 't \<Rightarrow> bytes" where
  "task_wire ct msg codec cid t \<equiv>
     req_wire cid (ct_seq ct t) (ct_get_action ct t) (msg codec t) (ct_get_req_blob ct t)"

lemma send_request_stream:
  assumes "client_task ct msg" "send_request ct (tcp_transport alloc ct) codec t fl st = Fin (st', evs, Ok u)"
    and "stream_inv (tc_stream (cs_conn st))"
  shows "stream_inv (tc_stream (cs_conn st')) \<and> cs_client_id st' = cs_client_id st \<and> cs_seq st' = cs_seq st + 1 \<and>
    ct_seq ct u = cs_seq st"
proof -
  obtain buf r where e: "req_encode ct codec (cs_encode_buf st) (cs_client_id st) (ct_set_seq ct (cs_seq st) t) = (buf, r)"
    by fastforce
  obtain blob where r: "r = Ok blob"
    using assms(2) e by (cases r) (auto simp: send_request_def seq_update_def Let_def)
  obtain c' q where w: "tcp_write_req buf blob fl (cs_conn st) = Fin (c', q)" "stream_inv (tc_stream c')"
    using tcp_write_req_returns [OF assms(3), of buf blob fl] by blast
  have "st' = st\<lparr>cs_seq := cs_seq st + 1, cs_encode_buf := buf, cs_conn := c'\<rparr>" "u = ct_set_seq ct (cs_seq st) t"
    using assms(2) e r w(1) by (cases q; auto simp: send_request_def seq_update_def Let_def tcp_transport_def)+
  with w(2) client_task.seq_set_seq [OF assms(1)] show ?thesis by simp
qed

lemma send_all_wire:
  assumes "client_task ct msg" "stream_inv (tc_stream (cs_conn st))"
    and "send_all ct (tcp_transport alloc ct) codec ts st = Some (st', us)"
  shows "tx (cs_conn st') = tx (cs_conn st) @ concat (map (task_wire ct msg codec (cs_client_id st)) us) \<and>
    length us = length ts \<and> (\<forall>i < length ts. ct_seq ct (us ! i) = cs_seq st + of_nat i) \<and>
    (\<forall>u \<in> set us. req_fits (Act_Num 0) (msg codec u) (ct_get_req_blob ct u))"
  using assms(2,3)
proof (induction ts arbitrary: st us)
  case Nil
  then show ?case by simp
next
  case (Cons t ts)
  let ?tr = "tcp_transport alloc ct"
  obtain st1 u us' where s: "send_request ct ?tr codec t False st = Fin (st1, [], Ok u)"
    "send_all ct ?tr codec ts st1 = Some (st', us')" "us = u # us'"
    using Cons.prems(2) by (auto split: async.splits list.splits sum.splits prod.splits)
  note w = send_request_wire [OF assms(1) s(1) Cons.prems(1)] and i = send_request_stream [OF assms(1) s(1) Cons.prems(1)]
  note ih = Cons.IH [OF _ s(2)]
  have "ct_seq ct (us ! j) = cs_seq st + of_nat j" if "j < length (t # ts)" for j
    using that ih i s(3) by (cases j) simp_all
  with ih w i s(3) show ?case by auto
qed

text \<open>A connection that takes data accepts every task that can be encoded.\<close>

lemma send_willing:
  assumes "willing (tc_stream (cs_conn st))"
    and "req_encode ct codec (cs_encode_buf st) (cs_client_id st) (ct_set_seq ct (cs_seq st) t) = (buf, Ok None)"
  shows "\<exists>st'. send_request ct (tcp_transport alloc ct) codec t False st = Fin (st', [], Ok (ct_set_seq ct (cs_seq st) t)) \<and>
    willing (tc_stream (cs_conn st'))"
proof -
  obtain s' where s': "tcp_write_all buf (cs_conn st) = Fin ((cs_conn st)\<lparr>tc_stream := s'\<rparr>, Ok ())" "willing s'"
    using timed_write_all_willing [OF assms(1), of "tc_write_timeout (cs_conn st)" buf]
    by (auto simp: tcp_write_all_def)
  with assms(2) show ?thesis
    by (simp add: send_request_def seq_update_def Let_def tcp_transport_def tcp_write_req_def)
qed

lemma sample_encodes:
  "\<exists>buf. req_encode uapi_ops () b cid (ct_set_seq uapi_ops n (sample_task 0)) = (buf, Ok None)"
  by (simp add: req_encode_def api_defs sample_task_def ct_set_seq_def Let_def)

lemma sample_sends:
  "willing (tc_stream (cs_conn st)) \<Longrightarrow>
   \<exists>st' us. send_all uapi_ops (tcp_transport alloc uapi_ops) () (replicate n (sample_task 0)) st = Some (st', us) \<and>
     (\<forall>u \<in> set us. ar_action u = str ''Svc.add'')"
proof (induction n arbitrary: st)
  case (Suc n)
  obtain buf where "req_encode uapi_ops () (cs_encode_buf st) (cs_client_id st)
      (ct_set_seq uapi_ops (cs_seq st) (sample_task 0)) = (buf, Ok None)" using sample_encodes by blast
  from send_willing [OF Suc.prems this, of alloc] obtain st1 where
    st1: "send_request uapi_ops (tcp_transport alloc uapi_ops) () (sample_task 0) False st =
      Fin (st1, [], Ok (ct_set_seq uapi_ops (cs_seq st) (sample_task 0)))" "willing (tc_stream (cs_conn st1))" by blast
  have "ar_action (ct_set_seq uapi_ops (cs_seq st) (sample_task 0)) = str ''Svc.add''"
    by (simp add: ct_set_seq_def api_defs sample_task_def)
  with Suc.IH [OF st1(2)] st1(1) show ?case by auto
qed simp

lemma sample_stream_willing: "willing (tc_stream (cs_conn sample_stream))"
  using rx_fresh [of "[0]"] by (simp add: willing_def rx_def sample_stream_def client_stream_new_def Let_def
      fresh_client_def fresh_stream_def)

lemma read_reqs_rx:
  assumes "rx (ts_stream k) (concat (map (\<lambda>(seq, a, m, b). req_wire cid seq a m b) qs) @ rest)"
    and "\<forall>(seq, a, m, b) \<in> set qs. req_fits a m b \<and> action_valid a" "alloc_ok alloc"
  shows "\<exists>k'. read_reqs alloc cancel (length qs) k =
      Fin (k', Ok (map (\<lambda>(seq, a, m, b). \<lparr>sq_seq = seq, sq_action = a, sq_msg = m, sq_blob = some_blob (blob_bytes b)\<rparr>) qs)) \<and>
    rx (ts_stream k') rest"
  using assms(1,2)
proof (induction qs arbitrary: k)
  case Nil
  then show ?case by simp
next
  case (Cons q qs)
  obtain seq a m b where q: "q = (seq, a, m, b)" by (cases q)
  obtain k1 where k1: "srv_read_req alloc cancel k =
      Fin (k1, Ok \<lparr>sq_seq = seq, sq_action = a, sq_msg = m, sq_blob = some_blob (blob_bytes b)\<rparr>)"
    "rx (ts_stream k1) (concat (map (\<lambda>(seq, a, m, b). req_wire cid seq a m b) qs) @ rest)"
    using srv_read_req_rx [of k cid seq a m b _ alloc cancel] Cons.prems assms(3) q by fastforce
  with Cons.IH [OF k1(2)] Cons.prems(2) q show ?case by fastforce
qed

section \<open>Responses in any order\<close>

lemma read_resps_rx:
  assumes "timer_inv ct tm" "\<not> tm_reg_stopped tm" "mset (map fst rs) \<subseteq># timer_tasks tm"
    and "rx (tc_stream c) (concat (map (\<lambda>(t, r). resp_wire (ct_seq ct t) r) rs) @ rest)"
    and "\<forall>(t, r) \<in> set rs. resp_fits r" "alloc_ok alloc" "reserve_ok ct"
  shows "\<exists>c' tm'. read_resps alloc ct codec cl (length rs) tm c =
      Fin (c', tm', map (\<lambda>(t, r). received ct codec r t) rs, Ok ()) \<and>
    rx (tc_stream c') rest \<and> timer_tasks tm = mset (map fst rs) + timer_tasks tm'"
  using assms(1-5)
proof (induction rs arbitrary: tm c)
  case Nil
  then show ?case by simp
next
  case (Cons tr rs)
  obtain t r where tr: "tr = (t, r)" by (cases tr)
  have t: "t \<in># timer_tasks tm" using Cons.prems(3) tr by (simp add: insert_subset_eq_iff)
  have wire: "rx (tc_stream c) (resp_wire (ct_seq ct t) r @ concat (map (\<lambda>(t, r). resp_wire (ct_seq ct t) r) rs) @ rest)"
    using Cons.prems(4) tr by simp
  have fits: "resp_fits r" using Cons.prems(5) tr by simp
  obtain c1 tm1 where c1: "tcp_read_resp alloc ct codec cl tm c = Fin (c1, tm1, [received ct codec r t], Ok True)"
    "rx (tc_stream c1) (concat (map (\<lambda>(t, r). resp_wire (ct_seq ct t) r) rs) @ rest)"
    "timer_tasks tm = add_mset t (timer_tasks tm1)"
    using tcp_read_resp_rx [OF Cons.prems(1) t _ wire fits assms(6,7), of codec cl] Cons.prems(2) by blast
  have "frame ct tm tm1"
    using tcp_read_resp_conserves [of ct "\<lambda>_. ()", OF _ Cons.prems(1), THEN async_postD, OF _ c1(1)]
    by (simp add: task_view_def)
  then have "timer_inv ct tm1" "\<not> tm_reg_stopped tm1" using Cons.prems(2) by (simp_all add: frame_def)
  moreover have "mset (map fst rs) \<subseteq># timer_tasks tm1" using Cons.prems(3) c1(3) tr by simp
  ultimately show ?case using Cons.IH [OF _ _ _ c1(2)] Cons.prems(5) c1(1,3) tr by fastforce
qed

section \<open>Properties\<close>

text \<open>
  C10: calls on one connection do not disturb each other. Tasks sent back to back get consecutive
  numbers and put a sequence of bytes on the wire from which the server reads exactly those
  requests, in order; and when the responses to them come back, in whatever order the server
  answered, the client hands each task back with the response to its own request and keeps every
  other task registered.
\<close>

theorem calls_multiplexed:
  assumes "client_task ct msg" and "stream_inv (tc_stream (cs_conn st))"
    and "send_all ct (tcp_transport alloc ct) codec ts st = Some (st', us)"
    and "\<forall>u \<in> set us. action_ok (ct_get_action ct u) \<and> action_valid (ct_get_action ct u)"
    and "alloc_ok alloc" and "reserve_ok ct"
  shows "\<exists>wire. tx (cs_conn st') = tx (cs_conn st) @ wire \<and> length us = length ts \<and>
    (\<forall>i < length ts. ct_seq ct (us ! i) = cs_seq st + of_nat i) \<and>
    (\<forall>k rest cancel. rx (ts_stream k) (wire @ rest) \<longrightarrow>
      (\<exists>k'. read_reqs alloc cancel (length us) k =
          Fin (k', Ok (map (\<lambda>u. \<lparr>sq_seq = ct_seq ct u, sq_action = ct_get_action ct u, sq_msg = msg codec u,
            sq_blob = some_blob (blob_bytes (ct_get_req_blob ct u))\<rparr>) us)) \<and> rx (ts_stream k') rest)) \<and>
    (\<forall>tm c rs rest cl. timer_inv ct tm \<and> \<not> tm_reg_stopped tm \<and> mset us \<subseteq># timer_tasks tm \<and>
        mset (map fst rs) = mset us \<and> (\<forall>(t, r) \<in> set rs. resp_fits r) \<and>
        rx (tc_stream c) (concat (map (\<lambda>(t, r). resp_wire (ct_seq ct t) r) rs) @ rest) \<longrightarrow>
      (\<exists>c' tm'. read_resps alloc ct codec cl (length rs) tm c =
          Fin (c', tm', map (\<lambda>(t, r). received ct codec r t) rs, Ok ()) \<and>
        rx (tc_stream c') rest \<and> timer_tasks tm = mset us + timer_tasks tm'))"
proof -
  let ?cid = "cs_client_id st" and ?q = "\<lambda>u. (ct_seq ct u, ct_get_action ct u, msg codec u, ct_get_req_blob ct u)"
  let ?wire = "concat (map (task_wire ct msg codec ?cid) us)"
  note w = send_all_wire [OF assms(1-3)]
  have qs: "map (\<lambda>(seq, a, m, b). req_wire ?cid seq a m b) (map ?q us) = map (task_wire ct msg codec ?cid) us" by simp
  have fits: "\<forall>(seq, a, m, b) \<in> set (map ?q us). req_fits a m b \<and> action_valid a"
    using w assms(4) by (auto simp: req_fits_def)
  have server: "\<exists>k'. read_reqs alloc cancel (length us) k =
          Fin (k', Ok (map (\<lambda>u. \<lparr>sq_seq = ct_seq ct u, sq_action = ct_get_action ct u, sq_msg = msg codec u,
            sq_blob = some_blob (blob_bytes (ct_get_req_blob ct u))\<rparr>) us)) \<and> rx (ts_stream k') rest"
    if "rx (ts_stream k) (?wire @ rest)" for k rest cancel
    using read_reqs_rx [where qs = "map ?q us" and cid = ?cid, unfolded qs, OF that fits assms(5), of cancel] by (simp add: comp_def)
  have client: "\<exists>c' tm'. read_resps alloc ct codec cl (length rs) tm c =
          Fin (c', tm', map (\<lambda>(t, r). received ct codec r t) rs, Ok ()) \<and>
        rx (tc_stream c') rest \<and> timer_tasks tm = mset us + timer_tasks tm'"
    if "timer_inv ct tm" "\<not> tm_reg_stopped tm" "mset us \<subseteq># timer_tasks tm" "mset (map fst rs) = mset us"
      "\<forall>(t, r) \<in> set rs. resp_fits r"
      "rx (tc_stream c) (concat (map (\<lambda>(t, r). resp_wire (ct_seq ct t) r) rs) @ rest)" for tm c rs rest cl
    using read_resps_rx [OF that(1,2) _ that(6,5) assms(5,6), of codec cl] that(3,4) by simp
  show ?thesis using w server client by (intro exI [of _ ?wire]) blast
qed

theorem calls_multiplexed_witness:
  "\<exists>wire us k'. length us = 2 \<and> ct_seq uapi_ops (us ! 0) = 1 \<and> ct_seq uapi_ops (us ! 1) = 2 \<and>
     read_reqs (\<lambda>n. Some (unat n)) False 2 (fresh_server (wire @ [0])) =
       Fin (k', Ok (map (\<lambda>u. \<lparr>sq_seq = ct_seq uapi_ops u, sq_action = ct_get_action uapi_ops u, sq_msg = api_msg () u,
         sq_blob = some_blob (blob_bytes (ct_get_req_blob uapi_ops u))\<rparr>) us))"
proof -
  let ?alloc = "\<lambda>n :: i32. Some (unat n)"
  obtain st' us where s: "send_all uapi_ops (tcp_transport ?alloc uapi_ops) () (replicate 2 (sample_task 0)) sample_stream =
      Some (st', us)" "\<forall>u \<in> set us. ar_action u = str ''Svc.add''" using sample_sends [OF sample_stream_willing] by blast
  have inv: "stream_inv (tc_stream (cs_conn sample_stream))" using sample_stream_willing by (simp add: willing_def)
  have "\<forall>u \<in> set us. action_ok (ct_get_action uapi_ops u) \<and> action_valid (ct_get_action uapi_ops u)"
    using s(2) by (simp add: api_defs str_def)
  from calls_multiplexed [OF api.client_task_axioms inv s(1) this alloc_ok_unat api_reserve_ok]
  obtain wire where w0: "length us = length (replicate 2 (sample_task 0))"
    "\<forall>i < length (replicate 2 (sample_task 0)). ct_seq uapi_ops (us ! i) = cs_seq sample_stream + of_nat i"
    and w3: "\<forall>k rest cancel. rx (ts_stream k) (wire @ rest) \<longrightarrow>
      (\<exists>k'. read_reqs ?alloc cancel (length us) k =
          Fin (k', Ok (map (\<lambda>u. \<lparr>sq_seq = ct_seq uapi_ops u, sq_action = ct_get_action uapi_ops u, sq_msg = api_msg () u,
            sq_blob = some_blob (blob_bytes (ct_get_req_blob uapi_ops u))\<rparr>) us)) \<and> rx (ts_stream k') rest)"
    by (elim exE conjE) (rule that)
  have w: "length us = 2" "\<forall>i < 2. ct_seq uapi_ops (us ! i) = cs_seq sample_stream + of_nat i"
    using w0 by simp_all
  have "rx (ts_stream (fresh_server (wire @ [0]))) (wire @ [0])" by (simp add: fresh_server_def rx_fresh)
  from w3 [rule_format, OF this, of False, unfolded w(1)] obtain k' where k': "read_reqs ?alloc False 2 (fresh_server (wire @ [0])) =
      Fin (k', Ok (map (\<lambda>u. \<lparr>sq_seq = ct_seq uapi_ops u, sq_action = ct_get_action uapi_ops u, sq_msg = api_msg () u,
        sq_blob = some_blob (blob_bytes (ct_get_req_blob uapi_ops u))\<rparr>) us))" by blast
  have "cs_seq sample_stream = 1" by (simp add: sample_stream_def client_stream_new_def Let_def)
  with w(1,2) k' show ?thesis by (intro exI [of _ wire] exI [of _ us] exI [of _ k']) simp
qed

end
