(* ===== verification/Rpc_Api_Conn.thy ===== *)
theory Rpc_Api_Conn
  imports Rpc_Api
begin

text \<open>
  A connection of an API server: the reader and the writer of \<open>stream/src/server/server.rs\<close> over the
  dispatcher \<open>Inline\<close> of \<open>src/server/dispatch.rs\<close>, which serves a request in the reader's own
  coroutine. Such a connection is a function from the bytes a client sends to the bytes it gets.
\<close>

section \<open>A connection served in its own coroutine\<close>

text \<open>A request on the wire: its number, action, message and blob, and the request the server makes of it.\<close>

type_synonym wire_req = "u64 \<times> rpc_action \<times> bytes \<times> bytes option"

definition to_req :: "wire_req \<Rightarrow> rpc_svr_req" where
  "to_req q = (case q of (seq, a, m, b) \<Rightarrow>
     \<lparr>sq_seq = seq, sq_action = a, sq_msg = m, sq_blob = some_blob (blob_bytes b)\<rparr>)"

definition reqs_wire :: "u64 \<Rightarrow> wire_req list \<Rightarrow> bytes" where
  "reqs_wire cid qs = concat (map (\<lambda>(seq, a, m, b). req_wire cid seq a m b) qs)"

definition sendable :: "wire_req \<Rightarrow> bool" where
  "sendable q \<longleftrightarrow> (case q of (seq, a, m, b) \<Rightarrow> req_fits a m b \<and> action_valid a)"

lemma to_req_seq [simp]: "sq_seq (to_req q) = fst q"
  by (cases q) (simp add: to_req_def)

lemma read_next:
  assumes "rx (ts_stream k) (reqs_wire cid (q # qs))" "sendable q" "alloc_ok alloc"
  shows "\<exists>k'. srv_read_req alloc cancel k = Fin (k', Ok (to_req q)) \<and> rx (ts_stream k') (reqs_wire cid qs)"
  using assms srv_read_req_rx [of k cid _ _ _ _ "reqs_wire cid qs" alloc cancel]
  by (cases q) (auto simp: reqs_wire_def to_req_def sendable_def)

text \<open>
  A dispatcher that answers every request at once, with \<open>ans\<close>: a response, an internal one, or none
  when the user's code panics.
\<close>

locale inline_serving =
  fixes disp :: "('c, 't, 'r) dispatch" and codec :: 'c and ans :: "rpc_svr_req \<Rightarrow> 'r done_item option"
  assumes serves: "dc_open ch \<Longrightarrow> serve_req disp codec req ch =
      (case ans req of None \<Rightarrow> Panic | Some it \<Rightarrow> Return ([], ch\<lparr>dc_queue := dc_queue ch @ [it]\<rparr>, True))"
begin

text \<open>\<open>n\<close> requests have been read, and their answers are written or queued, in order.\<close>

definition in_order :: "u64 \<Rightarrow> wire_req list \<Rightarrow> 'r conn_event list \<Rightarrow> ('t, 'r) server_conn \<Rightarrow> bool" where
  "in_order cid qs evs c \<longleftrightarrow> (sn_writer c \<noteq> W_Failed \<longrightarrow>
     (\<exists>n \<le> length qs. accepted evs = map fst (take n qs) \<and> sn_tasks c = [] \<and> dc_open (sn_chan c) \<and>
        map Some (written evs @ dc_queue (sn_chan c)) = map (\<lambda>q. ans (to_req q)) (take n qs) \<and>
        (sn_reader c \<longrightarrow> rx (ts_stream (sn_conn c)) (reqs_wire cid (drop n qs))) \<and>
        (\<not> sn_reader c \<longrightarrow> n = length qs)))"

lemma step_in_order:
  assumes "server_step alloc disp enc codec tseq rseq c evs' c'" "in_order cid qs evs c"
    and "\<forall>q \<in> set qs. sendable q \<and> ans (to_req q) \<noteq> None" "alloc_ok alloc"
  shows "in_order cid qs (evs @ evs') c'"
proof (cases "sn_writer c = W_Failed")
  case True
  with assms(1) show ?thesis by cases (auto simp: in_order_def)
next
  case False
  then obtain n where n: "n \<le> length qs" "accepted evs = map fst (take n qs)" "sn_tasks c = []" "dc_open (sn_chan c)"
    "map Some (written evs @ dc_queue (sn_chan c)) = map (\<lambda>q. ans (to_req q)) (take n qs)"
    "sn_reader c \<Longrightarrow> rx (ts_stream (sn_conn c)) (reqs_wire cid (drop n qs))" "\<not> sn_reader c \<Longrightarrow> n = length qs"
    using assms(2) by (auto simp: in_order_def)
  have more: "\<exists>k'. srv_read_req alloc cancel (sn_conn c) = Fin (k', Ok (to_req (qs ! n))) \<and>
      rx (ts_stream k') (reqs_wire cid (drop (Suc n) qs))" if "sn_reader c" "n < length qs" for cancel
    using read_next [of "sn_conn c" cid "qs ! n" "drop (Suc n) qs" alloc cancel] n(6) [OF that(1)] that(2) assms(3,4)
    by (simp add: Cons_nth_drop_Suc)
  have stop: "\<exists>k' e. srv_read_req alloc cancel (sn_conn c) = Fin (k', Err e)" if "sn_reader c" "n = length qs" for cancel
    using srv_read_req_eof [of "sn_conn c" alloc cancel] n(6) [OF that(1)] that(2) by (auto simp: rx_def reqs_wire_def)
  have ans: "ans (to_req (qs ! n)) \<noteq> None" if "n < length qs" using that assms(3) by simp
  have kept: "sn_reader c \<Longrightarrow> rx (ts_stream k) (reqs_wire cid (drop n qs))" if "keeps_in (ts_stream (sn_conn c)) (ts_stream k)" for k
    using n(6) keeps_in_rx that by blast
  have inv: "sn_reader c \<Longrightarrow> keeps_in (ts_stream (sn_conn c)) (ts_stream (sn_conn c))"
    using n(6) by (simp add: rx_def keeps_in_refl)
  from assms(1) show ?thesis
  proof cases
    case (read cancel k req ts ch go)
    then have l: "n < length qs" using n(1) stop [of cancel] by (cases "n = length qs") auto
    with more [of cancel] read have k: "req = to_req (qs ! n)" "rx (ts_stream k) (reqs_wire cid (drop (Suc n) qs))" by auto
    obtain it where it: "ans req = Some it" using ans [OF l] k(1) by auto
    then have "ts = []" "ch = (sn_chan c)\<lparr>dc_queue := dc_queue (sn_chan c) @ [it]\<rparr>" "go"
      using serves [OF n(4), of req] read(5) by simp_all
    then show ?thesis
      unfolding in_order_def using read(1,2) n l k it
      by (intro impI exI [of _ "Suc n"]) (simp add: take_Suc_conv_app_nth)
  next
    case (read_panic cancel k req)
    then have l: "n < length qs" using n(1) stop [of cancel] by (cases "n = length qs") auto
    with more [of cancel] read_panic have "req = to_req (qs ! n)" by auto
    then have False using serves [OF n(4), of req] read_panic(5) ans [OF l] by auto
    then show ?thesis ..
  next
    case (read_end cancel k e)
    then have "n = length qs" using n(1) more [of cancel] by (cases "n = length qs") auto
    then show ?thesis using read_end n by (auto simp: in_order_def)
  next
    case (respond it q k)
    have "sn_reader c \<Longrightarrow> rx (ts_stream k) (reqs_wire cid (drop n qs))"
      using kept async_postD [OF write_item_keeps [OF inv] respond(5)] by simp
    then show ?thesis using respond n by (auto simp: in_order_def)
  next
    case (flush k)
    have "sn_reader c \<Longrightarrow> rx (ts_stream k) (reqs_wire cid (drop n qs))"
      using kept async_postD [OF srv_flush_keeps [OF inv] flush(5)] by simp
    then show ?thesis using flush n by (auto simp: in_order_def)
  qed (use n in \<open>auto simp: in_order_def\<close>)
qed

lemma run_in_order:
  assumes "server_run alloc disp enc codec tseq rseq k0 evs c" "rx (ts_stream k0) (reqs_wire cid qs)"
    and "\<forall>q \<in> set qs. sendable q \<and> ans (to_req q) \<noteq> None" "alloc_ok alloc"
  shows "in_order cid qs evs c"
  using assms(1)
proof (induction rule: server_run.induct)
  case start
  show ?case using assms(2) by (auto simp: in_order_def conn_start_def)
next
  case (more evs c evs' c')
  then show ?case using step_in_order [OF _ _ assms(3,4)] by blast
qed

text \<open>The reader can read everything and end.\<close>

lemma reads_all:
  assumes "server_run alloc disp enc codec tseq rseq k0 evs c" "sn_reader c" "sn_tasks c = []" "dc_open (sn_chan c)"
    and "sn_writer c = W_Wait" "rx (ts_stream (sn_conn c)) (reqs_wire cid qs)" "willing (ts_stream (sn_conn c))"
    and "\<forall>q \<in> set qs. sendable q \<and> ans (to_req q) \<noteq> None" "alloc_ok alloc"
  shows "\<exists>evs' c'. server_run alloc disp enc codec tseq rseq k0 (evs @ evs') c' \<and> \<not> sn_reader c' \<and> sn_tasks c' = [] \<and>
    sn_writer c' = W_Wait \<and> willing (ts_stream (sn_conn c'))"
  using assms(1-8)
proof (induction qs arbitrary: evs c)
  case Nil
  have "stream_inv (ts_stream (sn_conn c))" "stream_rest (ts_stream (sn_conn c)) = []"
    using Nil.prems(6) by (simp_all add: rx_def reqs_wire_def)
  then obtain k e where k: "srv_read_req alloc False (sn_conn c) = Fin (k, Err e)" "keeps_out (ts_stream (sn_conn c)) (ts_stream k)"
    using srv_read_req_eof by blast
  have "willing (ts_stream k)" using k(2) Nil.prems(7) by (simp add: willing_def keeps_out_def)
  with server_run.more [OF Nil.prems(1) server_step.read_end [OF Nil.prems(2) k(1)]] Nil.prems show ?case
    by (intro exI [of _ "[]"] exI [of _ "c\<lparr>sn_conn := k, sn_reader := False\<rparr>"]) simp
next
  case (Cons q qs)
  obtain it where it: "ans (to_req q) = Some it" using Cons.prems(8) by auto
  obtain k where k: "srv_read_req alloc False (sn_conn c) = Fin (k, Ok (to_req q))" "rx (ts_stream k) (reqs_wire cid qs)"
    using read_next [OF Cons.prems(6) _ assms(9)] Cons.prems(8) by auto
  have "stream_inv (ts_stream (sn_conn c))" using Cons.prems(6) by (simp add: rx_def)
  then have "keeps_out (ts_stream (sn_conn c)) (ts_stream k)" using srv_read_req_keeps [of "sn_conn c" alloc False] k(1) by simp
  then have w: "willing (ts_stream k)" using Cons.prems(7) by (simp add: willing_def keeps_out_def)
  note serve = serves [OF Cons.prems(4), of "to_req q", unfolded it option.case]
  let ?c = "c\<lparr>sn_conn := k, sn_chan := (sn_chan c)\<lparr>dc_queue := dc_queue (sn_chan c) @ [it]\<rparr>, sn_tasks := sn_tasks c @ [], sn_reader := True\<rparr>"
  have "server_run alloc disp enc codec tseq rseq k0 (evs @ [Accepted (sq_seq (to_req q))]) ?c"
    by (rule server_run.more [OF Cons.prems(1) server_step.read [OF Cons.prems(2) k(1) serve]])
  from Cons.IH [OF this] Cons.prems k(2) w obtain evs' c' where
    "server_run alloc disp enc codec tseq rseq k0 ((evs @ [Accepted (sq_seq (to_req q))]) @ evs') c'" "\<not> sn_reader c'"
    "sn_tasks c' = []" "sn_writer c' = W_Wait" "willing (ts_stream (sn_conn c'))" by auto
  then show ?case by (intro exI [of _ "[Accepted (sq_seq (to_req q))] @ evs'"] exI [of _ c']) simp
qed

end

section \<open>The API server\<close>

text \<open>What the API server answers to a request; \<open>None\<close> when a method panics.\<close>

definition api_item :: "api_handler \<Rightarrow> nat \<Rightarrow> rpc_svr_req \<Rightarrow> api_server_resp done_item option" where
  "api_item serve noti req =
     (case sq_action req of
        Act_Num n \<Rightarrow> Some (Err (sq_seq req, if n = 0 \<and> sq_msg req = [] then None else Some Decode))
      | Act_Str a \<Rightarrow>
          (case split_once dot a of
             None \<Rightarrow> Some (Err (sq_seq req, Some Decode))
           | Some (service, method) \<Rightarrow>
               (case serve \<lparr>aq_seq = sq_seq req, aq_service = service, aq_method = method, aq_req = Some (sq_msg req),
                   aq_noti = noti\<rparr> of
                  Panic \<Rightarrow> None
                | Return p \<Rightarrow> Some (Ok (snd p)))))"

interpretation api_inline: inline_serving "api_dispatch_req (inline_dispatch serve) noti" codec "api_item serve noti"
  for serve noti codec
  by unfold_locales
     (auto simp: serve_req_def api_item_def api_dispatch_req_def inline_dispatch_def send_quick_resp_def noti_send_err_def
       noti_done_fold split: rpc_action.split option.split outcome.split)

definition api_reply :: "api_handler \<Rightarrow> nat \<Rightarrow> rpc_svr_req \<Rightarrow> response option" where
  "api_reply serve noti req =
     (case api_item serve noti req of
        None \<Rightarrow> None
      | Some (Inl (seq, err)) \<Rightarrow> Some (internal_answer err)
      | Some (Inr r) \<Rightarrow> api_answer r)"

definition reply_wire :: "api_handler \<Rightarrow> nat \<Rightarrow> wire_req \<Rightarrow> bytes" where
  "reply_wire serve noti q = resp_wire (fst q) (the (api_reply serve noti (to_req q)))"

lemma api_item_wire:
  assumes "api_service serve" "api_item serve noti (to_req q) = Some it" "api_reply serve noti (to_req q) = Some r" "resp_fits r"
  shows "item_good api_answer it \<and> item_wire ap_seq api_answer it = reply_wire serve noti q"
proof (cases it)
  case (Inl p)
  then have "fst p = fst q" using assms(2)
    by (auto simp: api_item_def split: rpc_action.splits option.splits outcome.splits)
  with Inl assms(2,3) show ?thesis by (cases p) (simp add: reply_wire_def api_reply_def)
next
  case (Inr t)
  then obtain req p where "serve req = Return p" "t = snd p" "aq_seq req = fst q"
    using assms(2) by (auto simp: api_item_def split: rpc_action.splits option.splits outcome.splits)
  then have "ap_seq t = fst q" using api_service.serves_Return [OF assms(1)] by (auto simp: own_answer_def)
  with Inr assms(2-4) show ?thesis by (simp add: reply_wire_def api_reply_def)
qed

lemma api_reply_item: "api_reply serve noti req = Some r \<Longrightarrow> api_item serve noti req \<noteq> None"
  by (auto simp: api_reply_def split: option.splits)

text \<open>Where a connection stands, with the answers written and queued.\<close>

lemma api_run_items:
  assumes "api_service serve" "rx (ts_stream k0) (reqs_wire cid qs)" "alloc_ok alloc"
    and "\<forall>q \<in> set qs. sendable q \<and> (\<exists>r. api_reply serve noti (to_req q) = Some r \<and> resp_fits r)"
    and "server_run alloc (api_dispatch_req (inline_dispatch serve) noti) enc () tseq ap_seq k0 evs c" "sn_writer c \<noteq> W_Failed"
  shows "\<exists>n \<le> length qs. accepted evs = map fst (take n qs) \<and>
    map (item_wire ap_seq api_answer) (written evs @ dc_queue (sn_chan c)) = map (reply_wire serve noti) (take n qs) \<and>
    (\<forall>it \<in> set (written evs @ dc_queue (sn_chan c)). item_good api_answer it) \<and> (\<not> sn_reader c \<longrightarrow> n = length qs)"
proof -
  have "\<forall>q \<in> set qs. sendable q \<and> api_item serve noti (to_req q) \<noteq> None" using assms(4) api_reply_item by blast
  from api_inline.run_in_order [OF assms(5,2) this assms(3)] assms(6)
  obtain n where n: "n \<le> length qs" "accepted evs = map fst (take n qs)" "\<not> sn_reader c \<longrightarrow> n = length qs"
    "map Some (written evs @ dc_queue (sn_chan c)) = map (\<lambda>q. api_item serve noti (to_req q)) (take n qs)"
    by (auto simp: api_inline.in_order_def)
  have "\<forall>q \<in> set (take n qs). \<forall>it. api_item serve noti (to_req q) = Some it \<longrightarrow>
      item_good api_answer it \<and> item_wire ap_seq api_answer it = reply_wire serve noti q"
    using assms(4) api_item_wire [OF assms(1)] in_set_takeD by metis
  note map_Some_map [OF n(4) this]
  with n(1-3) show ?thesis by blast
qed

lemma api_run_output:
  assumes "api_service serve" "tcp_new_conn inp \<lparr>sk_out = [], sk_script = sc\<rparr> config = Return k0"
    and "rx (ts_stream k0) (reqs_wire cid qs)" "alloc_ok alloc"
    and "\<forall>q \<in> set qs. sendable q \<and> (\<exists>r. api_reply serve noti (to_req q) = Some r \<and> resp_fits r)"
    and run: "server_run alloc (api_dispatch_req (inline_dispatch serve) noti) api_resp_encode () tseq ap_seq k0 evs c"
    and nf: "sn_writer c \<noteq> W_Failed"
  shows "\<exists>n \<le> length qs. \<exists>m \<le> n. accepted evs = map fst (take n qs) \<and>
    srv_tx (sn_conn c) = concat (map (reply_wire serve noti) (take m qs)) \<and>
    (sn_writer c = W_Closed \<longrightarrow> m = length qs \<and> ts_shut (sn_conn c) \<and>
      sk_out (bs_out (ts_stream (sn_conn c))) = concat (map (reply_wire serve noti) qs))"
proof -
  obtain n where n: "n \<le> length qs" "accepted evs = map fst (take n qs)" "\<not> sn_reader c \<longrightarrow> n = length qs"
    "map (item_wire ap_seq api_answer) (written evs @ dc_queue (sn_chan c)) = map (reply_wire serve noti) (take n qs)"
    "\<forall>it \<in> set (written evs). item_good api_answer it"
    using api_run_items [OF assms(1,3,4,5) run nf] by auto
  let ?m = "length (written evs)"
  have len: "?m + length (dc_queue (sn_chan c)) = n" using n(1) arg_cong [OF n(4), of length] by simp
  have wire: "map (item_wire ap_seq api_answer) (written evs) = map (reply_wire serve noti) (take ?m qs)"
    using arg_cong [OF n(4), of "take ?m"] len by (simp add: take_map min_absorb1)
  have out: "out_ok ap_seq api_answer evs c"
    using api_resp.run_out_ok [OF _ _ _ run] new_conn_out [OF assms(2)] by blast
  have "sn_writer c = W_Closed \<Longrightarrow> ?m = length qs" using out n(3) len by (simp add: out_ok_def)
  then show ?thesis
    using n(1,2,5) len out nf wire by (intro exI [of _ n] exI [of _ ?m] conjI) (auto simp: out_ok_def flushed_def)
qed

lemma api_run_closes:
  assumes "api_service serve" "tcp_new_conn inp \<lparr>sk_out = [], sk_script = []\<rparr> config = Return k0"
    and "rx (ts_stream k0) (reqs_wire cid qs)" "alloc_ok alloc"
    and "\<forall>q \<in> set qs. sendable q \<and> (\<exists>r. api_reply serve noti (to_req q) = Some r \<and> resp_fits r)"
    and "run = server_run alloc (api_dispatch_req (inline_dispatch serve) noti) api_resp_encode () aq_seq ap_seq k0"
  shows "\<exists>evs c. run evs c \<and> sn_writer c = W_Closed"
proof -
  have "willing (ts_stream k0)"
    using assms(2) new_conn_out [OF assms(2)] buf_stream_new_inv
    by (fastforce simp: willing_def tcp_new_conn_def Let_def split: outcome.splits)
  then have "willing (ts_stream (sn_conn (conn_start k0 :: (api_server_req, api_server_resp) server_conn)))"
    "rx (ts_stream (sn_conn (conn_start k0 :: (api_server_req, api_server_resp) server_conn))) (reqs_wire cid qs)"
    using assms(3) by (simp_all add: conn_start_def)
  note all = api_inline.reads_all [OF server_run.start _ _ _ _ this(2,1) _ assms(4)]
  have "\<forall>q \<in> set qs. sendable q \<and> api_item serve noti (to_req q) \<noteq> None" using assms(5) api_reply_item by blast
  from all [OF _ _ _ _ this, of api_resp_encode "()" aq_seq ap_seq]
  obtain evs c where c: "run evs c" "\<not> sn_reader c" "sn_tasks c = []" "sn_writer c = W_Wait" "willing (ts_stream (sn_conn c))"
    unfolding assms(6) by (auto simp: conn_start_def)
  have "\<forall>it \<in> set (dc_queue (sn_chan c)). item_good api_answer it"
    using api_run_items [OF assms(1,3,4,5) c(1) [unfolded assms(6)]] c(4) by auto
  from api_resp.run_drains [OF c(1) [unfolded assms(6)] c(2,3) _ c(5) this] c(4) show ?thesis unfolding assms(6) by blast
qed

section \<open>Properties\<close>


lemma mux_calc_echo: "api_service (mux_struct_serve [calc, echo])"
  by (rule mux_struct_ok) (auto simp: calc_def echo_def inc_arms_def intro!: service_serve_ok handler.api_service_axioms)

text \<open>A client that calls \<open>Calc.inc\<close> and pings, for a concrete instance.\<close>

definition two_reqs :: "wire_req list" where
  "two_reqs = [(7, Act_Str (str ''Calc.inc''), [4], None), (8, Act_Num 0, [], None)]"

lemma two_reqs_replies:
  "map (\<lambda>q. api_reply (mux_struct_serve [calc, echo]) 0 (to_req q)) two_reqs = [Some (Resp_Ok [5] None), Some (Resp_Ok [] None)]"
  by (simp add: two_reqs_def api_reply_def api_item_def to_req_def str_def dot_def mux_struct_serve_def calc_def
      service_serve_def inc_arms_def handle_method_def inc_def msgp_codec_def msgp_decode_def msgp_encode_def byte_rmp_def
      aq_set_result_def api_answer_def blob_bytes_def)


end
