(* ===== verification/Rpc_Calls.thy ===== *)
theory Rpc_Calls
  imports Rpc_Pipeline Rpc_Api_Conn
begin

text \<open>
  Calls of the API client (\<open>src/client/mod.rs\<close>) in flight together on one connection of an API
  server: what they put on the wire is a sequence of requests, and what the connection answers hands
  every task back.
\<close>

section \<open>The requests of a list of calls\<close>

text \<open>The request that a call of the API client puts on the wire.\<close>

definition call_wire_req :: "api_client_req \<Rightarrow> wire_req" where
  "call_wire_req t = (ct_seq uapi_ops t, Act_Str (ar_action t), api_msg () t, None)"

lemma api_wires: "concat (map (task_wire uapi_ops api_msg () cid) us) = reqs_wire cid (map call_wire_req us)"
  by (simp add: reqs_wire_def call_wire_req_def comp_def api_defs)

text \<open>A call whose action can be sent and whose answer fits into a response.\<close>

definition call_served :: "api_handler \<Rightarrow> nat \<Rightarrow> api_client_req \<Rightarrow> bool" where
  "call_served serve noti u \<longleftrightarrow> utf8_valid (ar_action u) \<and> length (ar_action u) < 2 ^ 31 \<and>
     (\<exists>r. api_reply serve noti (to_req (call_wire_req u)) = Some r \<and> resp_fits r)"

lemma calls_sendable:
  assumes "\<forall>u \<in> set us. req_fits (Act_Num 0) (api_msg () u) (ct_get_req_blob uapi_ops u)"
    and "\<forall>u \<in> set us. call_served serve noti u"
  shows "\<forall>q \<in> set (map call_wire_req us). sendable q \<and> (\<exists>r. api_reply serve noti (to_req q) = Some r \<and> resp_fits r)"
  using assms by (auto simp: sendable_def call_served_def call_wire_req_def req_fits_def blob_bytes_def api_defs)

text \<open>Sending numbers the tasks and changes nothing else of them.\<close>

lemma send_all_numbers:
  assumes "client_task ct msg" "stream_inv (tc_stream (cs_conn st))"
    and "send_all ct (tcp_transport alloc ct) codec ts st = Some (st', us)"
  shows "list_all2 (\<lambda>t u. \<exists>s. u = ct_set_seq ct s t) ts us"
  using assms(2,3)
proof (induction ts arbitrary: st us)
  case Nil
  then show ?case by simp
next
  case (Cons t ts)
  let ?tr = "tcp_transport alloc ct"
  obtain st1 u us' where s: "send_request ct ?tr codec t False st = Fin (st1, [], Ok u)"
    "send_all ct ?tr codec ts st1 = Some (st', us')" "us = u # us'"
    using Cons.prems(2) by (auto split: async.splits list.splits sum.splits prod.splits)
  then show ?case
    using send_request_wire [OF assms(1) s(1) Cons.prems(1)] send_request_stream [OF assms(1) s(1) Cons.prems(1)] Cons.IH
    by blast
qed

lemma sent_call:
  "u = ct_set_seq uapi_ops s t \<Longrightarrow> ar_action u = ar_action t \<and> ar_req_msg u = ar_req_msg t \<and> ar_noti u = ar_noti t \<and>
     ar_resp u = ar_resp t"
  by (simp add: ct_set_seq_def api_defs)

text \<open>A call of a method the server has is answered with the method's result, which its caller gets.\<close>

lemma method_reply:
  assumes "serves_method ss sn mn ca cp ec f" "cd_decode ca (api_msg () u) = Ok arg" "f arg = Return res"
    and "ar_action u = service_method sn mn"
  shows "api_reply (mux_struct_serve ss) noti (to_req (call_wire_req u)) = Some (result_response cp ec res)"
proof -
  obtain arms where a: "distinct (map svc_name ss)" "\<lparr>svc_name = sn, svc_serve = service_serve arms\<rparr> \<in> set ss"
    "map_of arms mn = Some (handle_method ca cp ec f)" "dot \<notin> set sn"
    using assms(1) by (auto simp: serves_method_def)
  let ?req = "api_req (to_req (call_wire_req u)) sn mn noti"
  have q: "aq_req ?req = Some (api_msg () u)" by (simp add: to_req_def call_wire_req_def)
  have "method_answer ca cp ec f (api_msg () u) = Some (result_response cp ec res)"
    using assms(2,3) by (simp add: method_answer_def)
  with handle_method_answer [OF q, of ca cp ec f] obtain p where
    p: "handle_method ca cp ec f ?req = Return p" "api_answer (snd p) = Some (result_response cp ec res)"
    by (auto split: outcome.splits)
  have "mux_struct_serve ss ?req = Return p"
    using mux_struct_at [OF a(1,2), of ?req] a(3) p(1) by (simp add: service_serve_def)
  with p(2) a(4) assms(4) show ?thesis
    by (simp add: api_reply_def api_item_def api_req_def to_req_def call_wire_req_def)
qed

lemma method_call:
  assumes "serves_method ss sn mn (msgp_codec rq) (msgp_codec rp) ec f" "f arg = Return res" "rmp_supports rq arg"
    and "result_ok rp ec ok res" "err_codec ec ok"
    and "make_req (msgp_codec rq) (service_method sn mn) arg n = Return t" "u = ct_set_seq uapi_ops s t"
  shows "\<exists>r. api_reply (mux_struct_serve ss) noti (to_req (call_wire_req u)) = Some r \<and> resp_fits r \<and>
    (\<exists>v. api_done (event_task (received uapi_ops () r u)) = Return (n, v) \<and>
      process_res (msgp_codec rp) d ec (Ok v) = Return res)"
proof -
  have u: "ar_action u = service_method sn mn" "ar_noti u = Some n" "ar_resp u = None"
    "cd_decode (msgp_codec rq) (api_msg () u) = Ok arg"
    using assms(3,6) sent_call [OF assms(7)]
    by (auto simp: make_req_def rmp_supports_def msgp_codec_def msgp_encode_def msgp_decode_def api_msg_def)
  note reply = method_reply [OF assms(1) u(4) assms(2) u(1), of noti] and fits = result_fits [OF assms(4)]
  show ?thesis by (rule exI, intro conjI, rule reply, rule fits, rule received_result [OF assms(4,5) u(2,3)])
qed

section \<open>All are answered\<close>

lemma calls_answered:
  assumes "api_service serve" "alloc_ok alloc"
    and "send_all uapi_ops (tcp_transport alloc uapi_ops) () ts st = Some (st', us)"
    and "stream_inv (tc_stream (cs_conn st))" "tx (cs_conn st) = []" "\<forall>u \<in> set us. call_served serve noti u"
    and "tcp_new_conn inp \<lparr>sk_out = [], sk_script = sc\<rparr> config = Return k0"
    and "all_data inp" "script_data inp = tx (cs_conn st')"
    and "server_run alloc (api_dispatch_req (inline_dispatch serve) noti) api_resp_encode () aq_seq ap_seq k0 evs k"
    and "sn_writer k = W_Closed"
    and "timer_inv uapi_ops tm" "\<not> tm_reg_stopped tm" "mset us \<subseteq># timer_tasks tm"
    and "rx (tc_stream c) (sk_out (bs_out (ts_stream (sn_conn k))))"
  shows "\<exists>c' tm'. read_resps alloc uapi_ops () cl (length ts) tm c =
      Fin (c', tm', map (\<lambda>u. received uapi_ops () (the (api_reply serve noti (to_req (call_wire_req u)))) u) us, Ok ()) \<and>
    rx (tc_stream c') [] \<and> timer_tasks tm = mset us + timer_tasks tm'"
proof -
  let ?r = "\<lambda>u. the (api_reply serve noti (to_req (call_wire_req u)))"
  note w = send_all_wire [OF api.client_task_axioms assms(4,3)]
  have wire: "script_data inp = reqs_wire (cs_client_id st) (map call_wire_req us)"
    using w assms(5,9) by (simp add: api_wires)
  have ok: "\<forall>q \<in> set (map call_wire_req us). sendable q \<and> (\<exists>r. api_reply serve noti (to_req q) = Some r \<and> resp_fits r)"
    by (rule calls_sendable) (use w assms(6) in simp_all)
  have out: "sk_out (bs_out (ts_stream (sn_conn k))) = concat (map (\<lambda>(t, r). resp_wire (ct_seq uapi_ops t) r) (map (\<lambda>u. (u, ?r u)) us)) @ []"
    using api_run_output [OF assms(1,7) new_conn_rx [OF assms(7,8), unfolded wire] assms(2) ok assms(10)] assms(11)
    by (auto simp: reply_wire_def call_wire_req_def comp_def)
  have fits: "\<forall>(t, r) \<in> set (map (\<lambda>u. (u, ?r u)) us). resp_fits r" using assms(6) by (auto simp: call_served_def)
  have "\<exists>c' tm'. read_resps alloc uapi_ops () cl (length (map (\<lambda>u. (u, ?r u)) us)) tm c =
      Fin (c', tm', map (\<lambda>(t, r). received uapi_ops () r t) (map (\<lambda>u. (u, ?r u)) us), Ok ()) \<and>
    rx (tc_stream c') [] \<and> timer_tasks tm = mset (map fst (map (\<lambda>u. (u, ?r u)) us)) + timer_tasks tm'"
    by (rule read_resps_rx [OF assms(12,13) _ _ fits assms(2) api_reserve_ok]) (use assms(14,15) out in \<open>simp_all add: comp_def\<close>)
  then show ?thesis using w by (simp add: comp_def)
qed

section \<open>Such calls can be made\<close>

text \<open>
  On a fresh connection of which the socket takes data, any calls can be sent, and there is a
  server connection that reads and answers them and closes, and a client that has them registered.
\<close>

lemma calls_sent:
  "willing (tc_stream (cs_conn st)) \<Longrightarrow> \<forall>t \<in> set ts. \<exists>m. ar_req_msg t = Some m \<and> length m \<le> u32_MAX \<Longrightarrow>
   \<exists>st' us. send_all uapi_ops (tcp_transport alloc uapi_ops) () ts st = Some (st', us)"
proof (induction ts arbitrary: st)
  case (Cons t ts)
  then obtain m where "ar_req_msg t = Some m" "length m \<le> u32_MAX" by auto
  then obtain buf where "req_encode uapi_ops () (cs_encode_buf st) (cs_client_id st)
      (ct_set_seq uapi_ops (cs_seq st) t) = (buf, Ok None)"
    by (simp add: req_encode_def api_defs ct_set_seq_def Let_def)
  from send_willing [OF Cons.prems(1) this, of alloc] obtain st1 where
    st1: "send_request uapi_ops (tcp_transport alloc uapi_ops) () t False st =
      Fin (st1, [], Ok (ct_set_seq uapi_ops (cs_seq st) t))" "willing (tc_stream (cs_conn st1))" by blast
  with Cons.IH [OF st1(2)] Cons.prems(2) st1(1) show ?case by auto
qed simp

lemma sample_stream_fresh:
  "stream_inv (tc_stream (cs_conn sample_stream))" "tx (cs_conn sample_stream) = []" "cs_seq sample_stream = 1"
  using sample_stream_willing
  by (simp_all add: willing_def sample_stream_def client_stream_new_def Let_def tx_def fresh_client_def fresh_stream_def
      stream_out_def buf_out_def)

lemma numbers_increase:
  assumes "\<forall>i < n. f i = 1 + of_nat i" "n < 2 ^ 63"
  shows "sorted_wrt (<) (0 # map (f :: nat \<Rightarrow> u64) [0..<n])"
proof -
  have *: "unat (f i) = Suc i" if "i < n" for i
    using assms that by (simp add: unat_word_ariths unat_of_nat)
  then show ?thesis by (auto simp: sorted_wrt_iff_nth_less word_less_nat_alt nth_Cons split: nat.split)
qed

lemma reply_wire_nonempty [simp]: "reply_wire serve noti q \<noteq> []"
  by (cases "the (api_reply serve noti (to_req q))") (simp_all add: reply_wire_def resp_head_bytes_def)

lemma calls_instance:
  assumes "api_service serve" "ts \<noteq> []" "length ts < 2 ^ 63"
    and "send_all uapi_ops (tcp_transport (\<lambda>n. Some (unat n)) uapi_ops) () ts sample_stream = Some (st', us)"
    and "\<forall>u \<in> set us. call_served serve noti u"
  shows "\<exists>inp k0 evs k tm (c :: tcp_client). tcp_new_conn inp \<lparr>sk_out = [], sk_script = []\<rparr> server_config_default = Return k0 \<and>
    all_data inp \<and> script_data inp = tx (cs_conn st') \<and>
    server_run (\<lambda>n. Some (unat n)) (api_dispatch_req (inline_dispatch serve) noti) api_resp_encode () aq_seq ap_seq k0 evs k \<and>
    sn_writer k = W_Closed \<and> timer_inv uapi_ops tm \<and> \<not> tm_reg_stopped tm \<and> timer_tasks tm = mset us \<and>
    rx (tc_stream c) (sk_out (bs_out (ts_stream (sn_conn k))))"
proof -
  note w = send_all_wire [OF api.client_task_axioms sample_stream_fresh(1) assms(4)]
  have wire: "tx (cs_conn st') = reqs_wire (cs_client_id sample_stream) (map call_wire_req us)" "us \<noteq> []"
    using w sample_stream_fresh(2) assms(2) by (auto simp: api_wires)
  let ?inp = "[Data (tx (cs_conn st'))]" and ?out = "\<lparr>sk_out = [], sk_script = []\<rparr>"
  obtain k0 where k0: "tcp_new_conn ?inp ?out server_config_default = Return k0"
    by (simp add: tcp_new_conn_def buf_stream_new_def buf_read_new_def buf_write_new_def server_config_default_def
        SERVER_DEFAULT_BUF_SIZE_def)
  have data: "all_data ?inp" "script_data ?inp = tx (cs_conn st')"
    using wire by (auto simp: reqs_wire_def req_wire_def req_head_bytes_def call_wire_req_def neq_Nil_conv)
  have rxk: "rx (ts_stream k0) (reqs_wire (cs_client_id sample_stream) (map call_wire_req us))"
    using new_conn_rx [OF k0 data(1)] data(2) wire(1) by simp
  have send: "\<forall>q \<in> set (map call_wire_req us). sendable q \<and> (\<exists>r. api_reply serve noti (to_req q) = Some r \<and> resp_fits r)"
    using w by (intro calls_sendable assms(5)) simp
  obtain evs k where k: "server_run (\<lambda>n. Some (unat n)) (api_dispatch_req (inline_dispatch serve) noti) api_resp_encode ()
      aq_seq ap_seq k0 evs k" "sn_writer k = W_Closed"
    using api_run_closes [OF assms(1) k0 rxk alloc_ok_unat send refl] by blast
  let ?tm = "(timer_new 1 0)\<lparr>tm_chan := us\<rparr>" and ?bs = "sk_out (bs_out (ts_stream (sn_conn k)))"
  have "\<forall>i < length us. ct_seq uapi_ops (us ! i) = 1 + of_nat i" using w sample_stream_fresh(3) by simp
  then have "sorted_wrt (<) (0 # map (\<lambda>i. ct_seq uapi_ops (us ! i)) [0..<length us])"
    using w assms(3) by (intro numbers_increase) simp_all
  moreover have "map (\<lambda>i. ct_seq uapi_ops (us ! i)) [0..<length us] = map (ct_seq uapi_ops) us"
    by (rule nth_equalityI) simp_all
  ultimately have tm: "timer_inv uapi_ops ?tm" "\<not> tm_reg_stopped ?tm" "timer_tasks ?tm = mset us"
    by (simp_all add: timer_inv_def timer_new_def Let_def timer_tasks_def)
  have "?bs = concat (map (reply_wire serve noti) (map call_wire_req us))"
    using api_run_output [OF assms(1) k0 rxk alloc_ok_unat send k(1)] k(2) by auto
  moreover have "concat (map (reply_wire serve noti) (map call_wire_req us)) \<noteq> []"
    using wire(2) by (cases us) simp_all
  ultimately have "?bs \<noteq> []" by (rule subst [OF sym])
  then have "rx (tc_stream (fresh_client ?bs)) ?bs" by (simp add: fresh_client_def rx_fresh)
  with k0 data k tm show ?thesis by blast
qed

end
