(* ===== verification/Rpc_Pool.thy ===== *)
theory Rpc_Pool
  imports Rpc_Stream
begin

text \<open>
  The connection pool to one address, \<open>stream/src/client/pool.rs\<close>: a bounded channel of tasks and
  worker coroutines, of which the one with number 0 monitors the address. A worker's stream appears
  through the results of its calls (connecting, pinging, sending, the number of tasks in flight),
  which are inputs of the steps; what a stream does with a task it accepted is the subject of
  \<open>Rpc_Stream\<close>.
\<close>

section \<open>ClientPool\<close>

text \<open>\<open>pl_closed\<close>: every sender of the channel is gone, so that an empty channel is disconnected.\<close>

record 't pool =
  pl_chan :: "'t list"
  pl_chan_cap :: nat
  pl_closed :: bool
  pl_is_ok :: bool
  pl_worker_count :: u64
  pl_connected_count :: u64

definition pool_channel_size :: "client_config \<Rightarrow> nat \<Rightarrow> nat" where
  "pool_channel_size config channel_size =
     (if 0 < cc_thresholds config then max channel_size (cc_thresholds config)
      else if channel_size = 0 then 128 else channel_size)"

definition pool_new :: "client_config \<Rightarrow> nat \<Rightarrow> 't pool" where
  "pool_new config channel_size =
     \<lparr>pl_chan = [], pl_chan_cap = pool_channel_size config channel_size, pl_closed = False, pl_is_ok = True,
      pl_worker_count = 1, pl_connected_count = 0\<rparr>"

definition is_healthy :: "'t pool \<Rightarrow> bool" where
  "is_healthy p = pl_is_ok p"

definition set_err :: "'t pool \<Rightarrow> 't pool" where
  "set_err p = p\<lparr>pl_is_ok := False\<rparr>"

text \<open>\<open>send().await\<close> waits while the bounded channel is full.\<close>

definition pool_send_req :: "'t \<Rightarrow> 't pool \<Rightarrow> 't pool \<times> unit poll" where
  "pool_send_req t p =
     (if length (pl_chan p) < pl_chan_cap p then (p\<lparr>pl_chan := pl_chan p @ [t]\<rparr>, Ready ())
      else (p, Pending))"

text \<open>\<open>spawn\<close> takes the old worker count as the number of the new worker.\<close>

definition pool_spawn :: "'t pool \<Rightarrow> 't pool \<times> u64" where
  "pool_spawn p = (p\<lparr>pl_worker_count := pl_worker_count p + 1\<rparr>, pl_worker_count p)"

fun cleanup_loop :: "('c, 't) client_task_ops \<Rightarrow> 't list \<Rightarrow> 't task_event list" where
  "cleanup_loop ct [] = []"
| "cleanup_loop ct (t # ts) = Error_Handle (ct_set_rpc_error ct Unreachable t) # cleanup_loop ct ts"

definition pool_cleanup :: "('c, 't) client_task_ops \<Rightarrow> 't pool \<Rightarrow> 't pool \<times> 't task_event list" where
  "pool_cleanup ct p = (p\<lparr>pl_chan := []\<rparr>, cleanup_loop ct (pl_chan p))"

section \<open>Workers\<close>

text \<open>
  Where a worker stands in \<open>run\<close>: connecting, at the head of the monitor loop, in the sleep before a
  ping, in \<open>recv_with_timer\<close>, or in \<open>run_worker\<close>.
\<close>

datatype worker =
  W_Connecting u64 | W_Monitor u64 | W_Sleeping u64 | W_Waiting u64 | W_Running u64

primrec worker_id :: "worker \<Rightarrow> u64" where
  "worker_id (W_Connecting i) = i"
| "worker_id (W_Monitor i) = i"
| "worker_id (W_Sleeping i) = i"
| "worker_id (W_Waiting i) = i"
| "worker_id (W_Running i) = i"

text \<open>
  A task received by the monitor: with tasks in flight and no other worker it turns into a worker and
  a new monitor is spawned. The result is the worker afterwards (\<open>None\<close> when it returns), the
  workers spawned, and the tasks failed; the received task itself went to the stream.
\<close>

definition monitor_task ::
  "('c, 't) client_task_ops \<Rightarrow> bool \<Rightarrow> bool \<Rightarrow> u64 \<Rightarrow> 't pool \<Rightarrow>
   't pool \<times> worker option \<times> worker list \<times> 't task_event list" where
  "monitor_task ct has_inflight send_ok i p =
     (let take_over = has_inflight \<and> pl_worker_count p = 1;
          p = (if take_over then p\<lparr>pl_worker_count := 2\<rparr> else p);
          j = (if take_over then 1 else i);
          spawned = (if take_over then [W_Connecting 0] else []) in
      if \<not> send_ok then
        (let p = set_err p in
         if j = 0 then
           (case pool_cleanup ct p of (p, evs) \<Rightarrow> (p, Some (W_Connecting j), spawned, evs))
         else (p, None, spawned, []))
      else if 0 < j then
        (p\<lparr>pl_connected_count := pl_connected_count p + 1\<rparr>, Some (W_Running j), spawned, [])
      else (p, Some (W_Monitor j), spawned, []))"

text \<open>The end of \<open>run_worker\<close>: the counter is changed once more, and an error marks the pool.\<close>

definition run_worker_exit :: "bool \<Rightarrow> 't pool \<Rightarrow> 't pool" where
  "run_worker_exit ok p =
     (let p = p\<lparr>pl_connected_count := pl_connected_count p + 1\<rparr> in if ok then p else set_err p)"

text \<open>The end of the coroutine in \<open>spawn_worker\<close>.\<close>

definition worker_exit :: "'t pool \<Rightarrow> 't pool" where
  "worker_exit p = p\<lparr>pl_worker_count := pl_worker_count p - 1\<rparr>"

text \<open>
  Steps of the pool: the workers, the tasks submitted, the tasks that went to a stream, and the tasks
  failed.
\<close>

inductive pool_step ::
  "('c, 't) client_task_ops \<Rightarrow> 't pool \<times> worker multiset \<Rightarrow> 't list \<Rightarrow> 't list \<Rightarrow> 't task_event list \<Rightarrow>
   't pool \<times> worker multiset \<Rightarrow> bool"
  for ct where
  submit: "\<not> pl_closed p \<Longrightarrow> pool_send_req t p = (p', Ready ()) \<Longrightarrow> pool_step ct (p, ws) [t] [] [] (p', ws)"
| spawn: "\<not> pl_closed p \<Longrightarrow> pool_spawn p = (p', i) \<Longrightarrow>
    pool_step ct (p, ws) [] [] [] (p', add_mset (W_Connecting i) ws)"
| close: "pool_step ct (p, ws) [] [] [] (p\<lparr>pl_closed := True\<rparr>, ws)"
| connect_monitor: "pool_step ct (p, add_mset (W_Connecting 0) ws) [] [] [] (p, add_mset (W_Monitor 0) ws)"
| connect_worker: "0 < i \<Longrightarrow> pool_step ct (p, add_mset (W_Connecting i) ws) [] [] []
    (p\<lparr>pl_connected_count := pl_connected_count p + 1\<rparr>, add_mset (W_Running i) ws)"
| connect_err: "pool_cleanup ct (set_err p) = (p', evs) \<Longrightarrow>
    pool_step ct (p, add_mset (W_Connecting i) ws) [] [] evs (p', add_mset (W_Connecting i) ws)"
| monitor_many: "1 < pl_worker_count p \<Longrightarrow>
    pool_step ct (p, add_mset (W_Monitor i) ws) [] [] [] (p, add_mset (W_Sleeping i) ws)"
| monitor_alone: "\<not> 1 < pl_worker_count p \<Longrightarrow>
    pool_step ct (p, add_mset (W_Monitor i) ws) [] [] [] (p, add_mset (W_Waiting i) ws)"
| sleep_ping: "pool_step ct (p, add_mset (W_Sleeping i) ws) [] [] [] (p, add_mset (W_Monitor i) ws)"
| sleep_ping_err: "pool_step ct (p, add_mset (W_Sleeping i) ws) [] [] []
    (set_err p, add_mset (W_Connecting i) ws)"
| wait_ping: "pool_step ct (p, add_mset (W_Waiting i) ws) [] [] [] (p, add_mset (W_Monitor i) ws)"
| wait_ping_err: "pool_cleanup ct (set_err p) = (p', evs) \<Longrightarrow>
    pool_step ct (p, add_mset (W_Waiting i) ws) [] [] evs (p', add_mset (W_Connecting i) ws)"
| wait_closed: "pl_closed p \<Longrightarrow> pl_chan p = [] \<Longrightarrow>
    pool_step ct (p, add_mset (W_Waiting i) ws) [] [] [] (worker_exit p, ws)"
| wait_task: "pl_chan p = t # ts \<Longrightarrow>
    monitor_task ct has_inflight send_ok i (p\<lparr>pl_chan := ts\<rparr>) = (p', w, spawned, evs) \<Longrightarrow>
    pool_step ct (p, add_mset (W_Waiting i) ws) [] [t] evs
      (case w of Some w \<Rightarrow> (p', add_mset w (mset spawned + ws)) | None \<Rightarrow> (worker_exit p', mset spawned + ws))"
| run_task: "pl_chan p = t # ts \<Longrightarrow>
    pool_step ct (p, add_mset (W_Running i) ws) [] [t] [] (p\<lparr>pl_chan := ts\<rparr>, add_mset (W_Running i) ws)"
| run_task_err: "pl_chan p = t # ts \<Longrightarrow>
    pool_step ct (p, add_mset (W_Running i) ws) [] [t] []
      (worker_exit (run_worker_exit False (p\<lparr>pl_chan := ts\<rparr>)), ws)"
| run_flush_err: "pool_step ct (p, add_mset (W_Running i) ws) [] [] []
    (worker_exit (run_worker_exit False p), ws)"
| run_closed: "pl_closed p \<Longrightarrow> pl_chan p = [] \<Longrightarrow>
    pool_step ct (p, add_mset (W_Running i) ws) [] [] [] (worker_exit (run_worker_exit True p), ws)"
| drop_inner: "pl_closed p \<Longrightarrow> pool_cleanup ct p = (p', evs) \<Longrightarrow>
    pool_step ct (p, {#}) [] [] evs (p', {#})"

inductive pool_run ::
  "('c, 't) client_task_ops \<Rightarrow> 't pool \<Rightarrow> nat \<Rightarrow> 't list \<Rightarrow> 't list \<Rightarrow> 't task_event list \<Rightarrow>
   't pool \<times> worker multiset \<Rightarrow> bool"
  for ct p0 where
  start: "pool_run ct p0 0 [] [] [] (p0, {# W_Connecting 0 #})"
| more: "pool_run ct p0 n sub sent evs s \<Longrightarrow> pool_step ct s sub' sent' evs' s' \<Longrightarrow>
    pool_run ct p0 (Suc n) (sub @ sub') (sent @ sent') (evs @ evs') s'"

section \<open>The workers\<close>

definition zeros :: "worker multiset \<Rightarrow> nat" where
  "zeros ws = size (filter_mset (\<lambda>w. worker_id w = 0) ws)"

lemma zeros_simps [simp]:
  "zeros {#} = 0" "zeros (add_mset w ws) = (if worker_id w = 0 then Suc (zeros ws) else zeros ws)"
  "zeros (a + b) = zeros a + zeros b"
  by (simp_all add: zeros_def)

lemma zeros_le: "zeros ws \<le> size ws"
  by (simp add: zeros_def size_filter_mset_lesseq)

text \<open>Only number 0 monitors, and only the others run as workers.\<close>

fun worker_ok :: "worker \<Rightarrow> bool" where
  "worker_ok (W_Connecting i) = True"
| "worker_ok (W_Running i) = (i \<noteq> 0)"
| "worker_ok w = (worker_id w = 0)"

definition pool_ok :: "nat \<Rightarrow> 't pool \<times> worker multiset \<Rightarrow> bool" where
  "pool_ok n s \<longleftrightarrow>
     (case s of (p, ws) \<Rightarrow>
        pl_worker_count p = of_nat (size ws) \<and> size ws \<le> Suc n \<and> (\<forall>w \<in># ws. worker_ok w) \<and>
        zeros ws \<le> 1 \<and> (\<not> pl_closed p \<longrightarrow> zeros ws = 1))"

lemma of_nat_small_eq: "(of_nat a :: u64) = of_nat b \<Longrightarrow> a < 2 ^ 64 \<Longrightarrow> b < 2 ^ 64 \<Longrightarrow> a = b"
proof -
  assume "(of_nat a :: u64) = of_nat b" and ab: "a < 2 ^ 64" "b < 2 ^ 64"
  then have "unat (of_nat a :: u64) = unat (of_nat b :: u64)" by simp
  with ab show "a = b" by (simp add: unat_of_nat take_bit_nat_eq_self)
qed

lemma cleanup_fields:
  "pool_cleanup ct p = (p', evs) \<Longrightarrow> pl_worker_count p' = pl_worker_count p \<and> pl_closed p' = pl_closed p \<and>
     pl_is_ok p' = pl_is_ok p \<and> pl_connected_count p' = pl_connected_count p"
  by (auto simp: pool_cleanup_def)

lemma set_err_fields [simp]:
  "pl_worker_count (set_err p) = pl_worker_count p" "pl_closed (set_err p) = pl_closed p"
  "pl_connected_count (set_err p) = pl_connected_count p" "pl_chan (set_err p) = pl_chan p"
  "\<not> pl_is_ok (set_err p)"
  by (simp_all add: set_err_def)

lemma exit_fields [simp]:
  "pl_worker_count (worker_exit p) = pl_worker_count p - 1" "pl_closed (worker_exit p) = pl_closed p"
  "pl_chan (worker_exit p) = pl_chan p" "pl_is_ok (worker_exit p) = pl_is_ok p"
  "pl_connected_count (worker_exit p) = pl_connected_count p"
  "pl_worker_count (run_worker_exit b p) = pl_worker_count p" "pl_closed (run_worker_exit b p) = pl_closed p"
  "pl_chan (run_worker_exit b p) = pl_chan p" "pl_is_ok (run_worker_exit b p) = (b \<and> pl_is_ok p)"
  "pl_connected_count (run_worker_exit b p) = pl_connected_count p + 1"
  by (simp_all add: worker_exit_def run_worker_exit_def Let_def)

text \<open>The monitor that receives a task.\<close>

lemma monitor_task_ok:
  assumes "monitor_task ct b ok i p = (p', w, spawned, evs)" "i = 0" "pl_worker_count p = of_nat (Suc (size ws))"
  shows "pl_closed p' = pl_closed p \<and>
    pl_worker_count p' = of_nat (Suc (size ws) + length spawned) \<and>
    (\<forall>v \<in> set spawned. worker_ok v) \<and> (\<forall>v. w = Some v \<longrightarrow> worker_ok v) \<and>
    zeros (mset spawned) + (case w of Some v \<Rightarrow> zeros {#v#} | None \<Rightarrow> 0) = 1 \<and> length spawned \<le> 1 \<and>
    (w = None \<longrightarrow> length spawned = 1)"
  using assms
  by (auto simp: monitor_task_def Let_def dest: cleanup_fields split: if_splits prod.splits)

lemma pool_step_ok:
  assumes "pool_step ct s sub sent evs s'" "pool_ok n s" "Suc n < 2 ^ 62"
  shows "pool_ok (Suc n) s'"
  using assms
proof (induction rule: pool_step.induct)
  case (spawn p p' i ws)
  have "of_nat (size ws) \<noteq> (0 :: u64)"
    using spawn zeros_le [of ws] of_nat_zero64 [of "size ws"] by (auto simp: pool_ok_def)
  then show ?case using spawn by (auto simp: pool_ok_def pool_spawn_def)
next
  case (wait_task p t ts has_inflight send_ok i p' w spawned evs ws)
  have i: "i = 0" using wait_task.prems by (simp add: pool_ok_def)
  have "pl_worker_count (p\<lparr>pl_chan := ts\<rparr>) = of_nat (Suc (size ws))"
    using wait_task.prems by (simp add: pool_ok_def)
  note m = monitor_task_ok [OF wait_task.hyps(2) i this]
  have z: "zeros ws = 0" "size ws \<le> n" "\<forall>w \<in># ws. worker_ok w"
    using wait_task.prems i by (auto simp: pool_ok_def)
  show ?case using m z by (cases w) (auto simp: pool_ok_def)
qed (auto simp: pool_ok_def pool_send_req_def dest: cleanup_fields split: if_splits)

section \<open>The tasks\<close>

lemma cleanup_events:
  "task_view ct f \<Longrightarrow> image_mset (\<lambda>e. f (event_task e)) (mset (cleanup_loop ct ts)) = image_mset f (mset ts)"
  by (induction ts) (simp_all add: task_viewD(1))

lemma cleanup_tasks:
  "task_view ct f \<Longrightarrow> pool_cleanup ct p = (p', evs) \<Longrightarrow> pl_chan p' = [] \<and>
   image_mset (\<lambda>e. f (event_task e)) (mset evs) = image_mset f (mset (pl_chan p))"
  by (auto simp: pool_cleanup_def cleanup_events)

lemma monitor_task_tasks:
  "task_view ct f \<Longrightarrow> monitor_task ct b ok i p = (p', w, spawned, evs) \<Longrightarrow>
   image_mset f (mset (pl_chan p)) =
     image_mset f (mset (pl_chan p')) + image_mset (\<lambda>e. f (event_task e)) (mset evs)"
  by (auto simp: monitor_task_def Let_def dest: cleanup_tasks split: if_splits prod.splits)

lemma pool_step_accounts:
  assumes "pool_step ct s sub sent evs s'" "task_view ct f"
  shows "image_mset f (mset (pl_chan (fst s)) + mset sub) =
    image_mset f (mset (pl_chan (fst s')) + mset sent) + image_mset (\<lambda>e. f (event_task e)) (mset evs)"
  using assms
proof (induction rule: pool_step.induct)
  case (wait_task p t ts has_inflight send_ok i p' w spawned evs ws)
  then show ?case using monitor_task_tasks [OF wait_task.prems wait_task.hyps(2)] by (cases w) auto
qed (auto simp: pool_send_req_def pool_spawn_def dest: cleanup_tasks split: if_splits)

lemma pool_run_ok:
  assumes "pool_run ct (pool_new config sz) n sub sent evs s" "task_view ct f" "n < 2 ^ 62"
  shows "pool_ok n s \<and> image_mset f (mset sub) = image_mset f (mset (pl_chan (fst s)) + mset sent) +
    image_mset (\<lambda>e. f (event_task e)) (mset evs)"
  using assms(1,3)
proof (induction rule: pool_run.induct)
  case start
  then show ?case by (simp add: pool_ok_def pool_new_def)
next
  case (more n sub sent evs s sub' sent' evs' s')
  then show ?case
    using pool_step_ok [OF more.hyps(2), of n] pool_step_accounts [OF more.hyps(2) assms(2)]
    by (simp add: ac_simps)
qed

section \<open>Properties\<close>

text \<open>
  C36: until the pool is dropped it always has exactly one monitor (number 0), in every interleaving of
  submitting, spawning, connecting, failing and exiting workers, and the worker counter is the
  number of workers.
\<close>

theorem pool_monitor_invariant:
  assumes "pool_run ct (pool_new config sz) n sub sent evs (p, ws)" and "n < 2 ^ 62"
  shows "pl_worker_count p = of_nat (size ws) \<and>
    (\<not> pl_closed p \<longrightarrow> size (filter_mset (\<lambda>w. worker_id w = 0) ws) = 1)"
  using pool_run_ok [OF assms(1) _ assms(2), of "\<lambda>_. ()"] by (simp add: pool_ok_def zeros_def task_view_def)

theorem pool_monitor_invariant_witness:
  "pl_worker_count (pool_new client_config_default 0 :: api_client_req pool) = of_nat (size {# W_Monitor 0 #})"
proof -
  have "pool_step uapi_ops (pool_new client_config_default 0, {# W_Connecting 0 #}) [] [] []
      (pool_new client_config_default 0, {# W_Monitor 0 #})"
    by (rule connect_monitor)
  from more [OF start this]
  have "pool_run uapi_ops (pool_new client_config_default 0) (Suc 0) [] [] []
      (pool_new client_config_default 0, {# W_Monitor 0 #})" by simp
  from pool_monitor_invariant [OF this] show ?thesis by simp
qed

text \<open>
  Every task submitted to the pool is in the channel, was given to a connection, or was failed as
  unreachable, each exactly once.
\<close>

theorem pool_exactly_once:
  assumes "pool_run ct (pool_new config sz) n sub sent evs (p, ws)" and "n < 2 ^ 62" and "task_view ct f"
  shows "image_mset f (mset sub) =
    image_mset f (mset (pl_chan p) + mset sent) + image_mset (\<lambda>e. f (event_task e)) (mset evs)"
  using pool_run_ok [OF assms(1,3,2)] by simp

theorem pool_exactly_once_witness:
  "\<exists>p. pool_run uapi_ops (pool_new client_config_default 0) (Suc 0) [sample_task 0] [] [] (p, {# W_Connecting 0 #}) \<and>
     image_mset ar_action (mset (pl_chan p)) = {# str ''Svc.add'' #}"
proof -
  obtain p where p: "pool_send_req (sample_task 0) (pool_new client_config_default 0) = (p, Ready ())"
    by (simp add: pool_send_req_def pool_new_def pool_channel_size_def client_config_default_def)
  have "pool_step uapi_ops (pool_new client_config_default 0, {# W_Connecting 0 #}) [sample_task 0] [] []
      (p, {# W_Connecting 0 #})"
    by (rule submit [OF _ p]) (simp add: pool_new_def)
  from more [OF start this]
  have run: "pool_run uapi_ops (pool_new client_config_default 0) (Suc 0) [sample_task 0] [] [] (p, {# W_Connecting 0 #})"
    by simp
  from pool_exactly_once [OF run _ api_view(1)] run show ?thesis by (auto simp: sample_task_def)
qed

lemma step_keeps_unhealthy:
  "pool_step ct s sub sent evs s' \<Longrightarrow> \<not> pl_is_ok (fst s) \<Longrightarrow> \<not> pl_is_ok (fst s')"
proof (induction rule: pool_step.induct)
  case (wait_task p t ts has_inflight send_ok i p' w spawned evs ws)
  then show ?case
    by (cases w) (auto simp: monitor_task_def Let_def dest: cleanup_fields split: if_splits prod.splits)
qed (auto simp: pool_send_req_def pool_spawn_def dest: cleanup_fields split: if_splits)

text \<open>
  The health flag is only ever cleared: after the first failed connection, ping or request the
  pool stays unhealthy for good, also when its connections work again, and the failover pool no
  longer selects it.
\<close>

theorem unhealthy_forever:
  assumes "\<not> is_healthy p" and "pool_run ct p n sub sent evs (p', ws)"
  shows "\<not> is_healthy p'"
proof -
  have "\<not> pl_is_ok (fst s)" if "pool_run ct p n sub sent evs s" for n sub sent evs s
    using that
  proof induction
    case start
    then show ?case using assms(1) by (simp add: is_healthy_def)
  next
    case (more n sub sent evs s sub' sent' evs' s')
    then show ?case using step_keeps_unhealthy by blast
  qed
  from this [OF assms(2)] show ?thesis by (simp add: is_healthy_def)
qed

theorem unhealthy_forever_witness:
  "\<exists>ws. pool_run uapi_ops (set_err (pool_new client_config_default 0)) (Suc 0) [] [] []
      (set_err (pool_new client_config_default 0), ws) \<and> W_Monitor 0 \<in># ws \<and>
    \<not> is_healthy (set_err (pool_new client_config_default 0 :: api_client_req pool))"
proof -
  let ?p = "set_err (pool_new client_config_default 0) :: api_client_req pool"
  have "pool_step uapi_ops (?p, {# W_Connecting 0 #}) [] [] [] (?p, {# W_Monitor 0 #})"
    by (rule connect_monitor)
  from more [OF start this] have run: "pool_run uapi_ops ?p (Suc 0) [] [] [] (?p, {# W_Monitor 0 #})" by simp
  have "\<not> is_healthy ?p" by (simp add: is_healthy_def)
  from unhealthy_forever [OF this run] run show ?thesis by (intro exI [of _ "{# W_Monitor 0 #}"]) simp
qed

text \<open>
  A worker that connects and later leaves raises the counter of connected workers twice instead
  of raising and lowering it.
\<close>

theorem connected_count_doubles:
  "\<exists>q. pool_step ct (p, {# W_Connecting 1 #}) [] [] [] (q, {# W_Running 1 #}) \<and>
     pool_step ct (q, {# W_Running 1 #}) [] [] [] (worker_exit (run_worker_exit False q), {#}) \<and>
     pl_connected_count (worker_exit (run_worker_exit False q)) = pl_connected_count p + 2"
proof -
  let ?q = "p\<lparr>pl_connected_count := pl_connected_count p + 1\<rparr>"
  have "pool_step ct (p, {# W_Connecting 1 #}) [] [] [] (?q, {# W_Running 1 #})"
    by (rule connect_worker) simp
  moreover have "pool_step ct (?q, {# W_Running 1 #}) [] [] [] (worker_exit (run_worker_exit False ?q), {#})"
    by (rule run_flush_err)
  ultimately show ?thesis by (intro exI [of _ ?q]) (simp add: add.assoc)
qed

end
