(* ===== verification/Rpc_Failover.thy ===== *)
theory Rpc_Failover
  imports Rpc_Pool
begin

text \<open>
  The failover pool, \<open>stream/src/client/failover.rs\<close>: selection of a healthy pool, wrapping of the
  user's task with its retry state, retrying on transport errors up to a limit, and replacing the
  set of addresses.
\<close>

section \<open>FailoverTask\<close>

record 't failover_task =
  fo_last_index :: u64
  fo_cluster_ver :: u64
  fo_inner :: 't
  fo_retry :: nat
  fo_should_retry :: bool

definition fo_set_custom_error ::
  "('c, 't) client_task_ops \<Rightarrow> 'c \<Rightarrow> encoded_err \<Rightarrow> 't failover_task \<Rightarrow> 't failover_task" where
  "fo_set_custom_error ct codec e t =
     t\<lparr>fo_should_retry := False, fo_inner := ct_set_custom_error ct codec e (fo_inner t)\<rparr>"

definition fo_set_rpc_error ::
  "('c, 't) client_task_ops \<Rightarrow> rpc_int_err \<Rightarrow> 't failover_task \<Rightarrow> 't failover_task" where
  "fo_set_rpc_error ct e t =
     (let t = (if e < Method then t\<lparr>fo_should_retry := True, fo_retry := fo_retry t + 1\<rparr>
               else t\<lparr>fo_should_retry := False\<rparr>) in
      t\<lparr>fo_inner := ct_set_rpc_error ct e (fo_inner t)\<rparr>)"

definition failover_ops ::
  "('c, 't) client_task_ops \<Rightarrow> ('c, 't failover_task) client_task_ops" where
  "failover_ops ct =
     \<lparr>ct_common = (\<lambda>t. ct_common ct (fo_inner t)),
      ct_common_mut = (\<lambda>g t. t\<lparr>fo_inner := ct_common_mut ct g (fo_inner t)\<rparr>),
      ct_get_action = (\<lambda>t. ct_get_action ct (fo_inner t)),
      ct_encode_req = (\<lambda>codec t buf. ct_encode_req ct codec (fo_inner t) buf),
      ct_get_req_blob = (\<lambda>t. ct_get_req_blob ct (fo_inner t)),
      ct_decode_resp = (\<lambda>codec t buf.
        case ct_decode_resp ct codec (fo_inner t) buf of (u, r) \<Rightarrow> (t\<lparr>fo_inner := u\<rparr>, r)),
      ct_reserve_resp_blob = (\<lambda>t size.
        case ct_reserve_resp_blob ct (fo_inner t) size of (u, r) \<Rightarrow> (t\<lparr>fo_inner := u\<rparr>, r)),
      ct_fill_resp_blob = (\<lambda>bs t. t\<lparr>fo_inner := ct_fill_resp_blob ct bs (fo_inner t)\<rparr>),
      ct_set_custom_error = fo_set_custom_error ct,
      ct_set_rpc_error = fo_set_rpc_error ct,
      ct_set_ok = (\<lambda>t. t\<lparr>fo_inner := ct_set_ok ct (fo_inner t)\<rparr>)\<rparr>"

text \<open>A wrapped task is a client task whenever the inner one is.\<close>

locale failover_client = client_task

sublocale failover_client \<subseteq> fo: client_task "failover_ops ct" "\<lambda>c t. msg c (fo_inner t)"
proof -
  have err: "ct_common ct (fo_inner (fo_set_rpc_error ct e t)) = ct_common ct (fo_inner t)" for e t
    by (simp add: fo_set_rpc_error_def common_rpc_error)
  show "client_task (failover_ops ct) (\<lambda>c t. msg c (fo_inner t))"
    by unfold_locales
       (auto simp: failover_ops_def fo_set_custom_error_def err common_mut action_mut blob_mut msg_mut
         common_custom_error common_ok common_fill
         dest: encode_req common_decode common_reserve split: prod.splits)
qed

interpretation api_fo: failover_client api_ops api_msg ..

section \<open>Choosing a pool\<close>

text \<open>A pool as the selection sees it: its address and whether it is healthy.\<close>

record cluster_pool =
  cp_addr :: rust_str
  cp_healthy :: bool

record cluster =
  cl_pools :: "cluster_pool list"
  cl_ver :: u64

text \<open>The loop over \<open>seed..seed + l\<close>; \<open>n\<close> is the number of rounds left.\<close>

fun select_loop :: "cluster_pool list \<Rightarrow> u64 \<Rightarrow> nat \<Rightarrow> (u64 \<times> cluster_pool) option" where
  "select_loop pools i 0 = None"
| "select_loop pools i (Suc n) =
     (let pool = pools ! (unat i mod length pools) in
      if cp_healthy pool then Some (i, pool) else select_loop pools (i + 1) n)"

definition select_seed :: "bool \<Rightarrow> u64 \<Rightarrow> u64 option \<Rightarrow> u64 \<times> u64" where
  "select_seed round_robin rr last_index =
     (case last_index of
        Some index \<Rightarrow> (rr, index + 1)
      | None \<Rightarrow> (if round_robin then (rr + 1, rr) else (rr, 0)))"

text \<open>The number of indices in \<open>seed..seed + l\<close> at the width of \<open>usize\<close>.\<close>

definition range_len :: "u64 \<Rightarrow> u64 \<Rightarrow> nat" where
  "range_len lo hi = unat hi - unat lo"

definition cluster_select ::
  "cluster \<Rightarrow> bool \<Rightarrow> u64 \<Rightarrow> u64 option \<Rightarrow> u64 \<times> (u64 \<times> cluster_pool) option" where
  "cluster_select cl round_robin rr last_index =
     (let l = length (cl_pools cl) in
      if l = 0 then (rr, None)
      else
        (case select_seed round_robin rr last_index of (rr, seed) \<Rightarrow>
           (rr, select_loop (cl_pools cl) seed (range_len seed (seed + of_nat l)))))"

section \<open>FailoverPool\<close>

record failover_pool =
  fp_cluster :: "cluster option"
  fp_round_robin :: bool
  fp_retry_limit :: nat
  fp_ver :: u64
  fp_rr_counter :: u64

definition new_pool :: "rust_str \<Rightarrow> cluster_pool" where
  "new_pool addr = \<lparr>cp_addr = addr, cp_healthy = True\<rparr>"

definition failover_new :: "rust_str list \<Rightarrow> bool \<Rightarrow> nat \<Rightarrow> failover_pool" where
  "failover_new addrs round_robin retry_limit =
     \<lparr>fp_cluster = Some \<lparr>cl_pools = map new_pool addrs, cl_ver = 0\<rparr>, fp_round_robin = round_robin,
      fp_retry_limit = retry_limit, fp_ver = 1, fp_rr_counter = 0\<rparr>"

text \<open>The two loops of \<open>update_addrs\<close>: index the old pools by address, then reuse or create.\<close>

fun index_pools :: "cluster_pool list \<Rightarrow> (rust_str, cluster_pool) hash_map \<Rightarrow> (rust_str, cluster_pool) hash_map" where
  "index_pools [] m = m"
| "index_pools (p # ps) m = index_pools ps (hm_insert (cp_addr p) p m)"

fun reuse_pools :: "rust_str list \<Rightarrow> (rust_str, cluster_pool) hash_map \<Rightarrow> cluster_pool list" where
  "reuse_pools [] m = []"
| "reuse_pools (a # as) m =
     (case map_of m a of
        Some p \<Rightarrow> p # reuse_pools as (hm_remove a m)
      | None \<Rightarrow> new_pool a # reuse_pools as m)"

definition update_addrs :: "rust_str list \<Rightarrow> failover_pool \<Rightarrow> failover_pool" where
  "update_addrs addrs fp =
     (let old_pools = (case fp_cluster fp of Some c \<Rightarrow> cl_pools c | None \<Rightarrow> []);
          new_pools = reuse_pools addrs (index_pools old_pools []);
          new_ver = fp_ver fp + 1 in
      fp\<lparr>fp_ver := fp_ver fp + 1, fp_cluster := Some \<lparr>cl_pools = new_pools, cl_ver = new_ver\<rparr>\<rparr>)"

definition failover_drop :: "failover_pool \<Rightarrow> failover_pool" where
  "failover_drop fp = fp\<lparr>fp_cluster := None\<rparr>"

text \<open>Where a task goes: to a pool, to the retry channel, or back to its caller.\<close>

datatype 't hop = To_Pool u64 rust_str "'t failover_task" | To_Retry "'t failover_task" | Finished 't

definition failover_send_req ::
  "('c, 't) client_task_ops \<Rightarrow> 't \<Rightarrow> failover_pool \<Rightarrow> failover_pool \<times> 't hop" where
  "failover_send_req ct task fp =
     (case fp_cluster fp of
        Some cl \<Rightarrow>
          (case cluster_select cl (fp_round_robin fp) (fp_rr_counter fp) None of
             (rr, Some (index, pool)) \<Rightarrow>
               (fp\<lparr>fp_rr_counter := rr\<rparr>, To_Pool index (cp_addr pool)
                  \<lparr>fo_last_index = index, fo_cluster_ver = cl_ver cl, fo_inner = task, fo_retry = 0,
                   fo_should_retry = False\<rparr>)
           | (rr, None) \<Rightarrow> (fp\<lparr>fp_rr_counter := rr\<rparr>, Finished (ct_set_rpc_error ct Unreachable task)))
      | None \<Rightarrow> (fp, Finished (ct_set_rpc_error ct Unreachable task)))"

text \<open>
  \<open>error_handle\<close>: the pools' facts are the failover pool itself. \<open>retry_alive\<close>: the retry channel still
  has its receiver.
\<close>

definition failover_error_handle :: "bool \<Rightarrow> 't failover_task \<Rightarrow> failover_pool \<Rightarrow> 't hop" where
  "failover_error_handle retry_alive task fp =
     (if fo_should_retry task \<and> fo_retry task \<le> fp_retry_limit fp then
        (if retry_alive then To_Retry task else Finished (fo_inner task))
      else Finished (fo_inner task))"

text \<open>One round of \<open>retry_worker\<close>; \<open>None\<close> for the pool: the weak reference is gone.\<close>

definition retry_round :: "'t failover_task \<Rightarrow> failover_pool option \<Rightarrow> failover_pool option \<times> 't hop" where
  "retry_round task ofp =
     (case ofp of
        None \<Rightarrow> (None, Finished (fo_inner task))
      | Some fp \<Rightarrow>
          (case fp_cluster fp of
             None \<Rightarrow> (Some fp, Finished (fo_inner task))
           | Some cl \<Rightarrow>
               (case (if cl_ver cl = fo_cluster_ver task then (Some (fo_last_index task), task)
                      else (None, task\<lparr>fo_cluster_ver := cl_ver cl\<rparr>)) of
                  (last_index, task) \<Rightarrow>
                    (case cluster_select cl (fp_round_robin fp) (fp_rr_counter fp) last_index of
                       (rr, Some (index, pool)) \<Rightarrow>
                         (Some (fp\<lparr>fp_rr_counter := rr\<rparr>),
                          To_Pool index (cp_addr pool) (task\<lparr>fo_last_index := index\<rparr>))
                     | (rr, None) \<Rightarrow> (Some (fp\<lparr>fp_rr_counter := rr\<rparr>), Finished (fo_inner task))))))"

section \<open>The selection loop\<close>

definition pool_at :: "cluster_pool list \<Rightarrow> nat \<Rightarrow> cluster_pool" where
  "pool_at pools i = pools ! (i mod length pools)"

lemma unat_suc: "unat (i :: u64) + 1 < 2 ^ 64 \<Longrightarrow> unat (i + 1) = unat i + 1"
  by (simp add: unat_word_ariths)

lemma select_loop_Some:
  assumes "unat i + n < 2 ^ 64"
  shows "select_loop pools i n = Some (j, p) \<longleftrightarrow>
    (\<exists>k < n. j = i + of_nat k \<and> p = pool_at pools (unat i + k) \<and> cp_healthy p \<and>
       (\<forall>k' < k. \<not> cp_healthy (pool_at pools (unat i + k'))))"
  using assms
proof (induction n arbitrary: i)
  case 0
  then show ?case by simp
next
  case (Suc n)
  have i: "unat (i + 1) = unat i + 1" using Suc.prems by (intro unat_suc) simp
  show ?case
  proof (cases "cp_healthy (pool_at pools (unat i))")
    case True
    have l: "select_loop pools i (Suc n) = Some (i, pool_at pools (unat i))"
      using True by (simp add: pool_at_def Let_def)
    have "(\<exists>k < Suc n. j = i + of_nat k \<and> p = pool_at pools (unat i + k) \<and> cp_healthy p \<and>
        (\<forall>k' < k. \<not> cp_healthy (pool_at pools (unat i + k')))) \<longleftrightarrow> j = i \<and> p = pool_at pools (unat i)"
      (is "(\<exists>k < Suc n. ?Q k) \<longleftrightarrow> _")
    proof
      assume "\<exists>k < Suc n. ?Q k"
      then obtain k where k: "?Q k" by blast
      then have "k = 0" using True by (metis add.right_neutral gr_zeroI)
      with k show "j = i \<and> p = pool_at pools (unat i)" by simp
    next
      assume "j = i \<and> p = pool_at pools (unat i)"
      then have "?Q 0" using True by simp
      then show "\<exists>k < Suc n. ?Q k" by blast
    qed
    with l show ?thesis by auto
  next
    case False
    then have "select_loop pools i (Suc n) = select_loop pools (i + 1) n"
      by (simp add: pool_at_def Let_def)
    also have "\<dots> = Some (j, p) \<longleftrightarrow> (\<exists>k < n. j = i + 1 + of_nat k \<and> p = pool_at pools (unat i + 1 + k) \<and>
        cp_healthy p \<and> (\<forall>k' < k. \<not> cp_healthy (pool_at pools (unat i + 1 + k'))))"
      using Suc.IH [of "i + 1"] Suc.prems i by simp
    also have "\<dots> \<longleftrightarrow> (\<exists>k < Suc n. j = i + of_nat k \<and> p = pool_at pools (unat i + k) \<and> cp_healthy p \<and>
        (\<forall>k' < k. \<not> cp_healthy (pool_at pools (unat i + k'))))" (is "?l \<longleftrightarrow> ?r")
    proof
      assume ?l
      then obtain k where k: "k < n" "j = i + 1 + of_nat k" "p = pool_at pools (unat i + 1 + k)" "cp_healthy p"
        "\<forall>k' < k. \<not> cp_healthy (pool_at pools (unat i + 1 + k'))" by blast
      moreover have "\<forall>k' < Suc k. \<not> cp_healthy (pool_at pools (unat i + k'))"
      proof (intro allI impI)
        fix k' assume "k' < Suc k"
        then show "\<not> cp_healthy (pool_at pools (unat i + k'))"
          using False k(5) by (cases k') simp_all
      qed
      ultimately show ?r by (intro exI [of _ "Suc k"]) (simp add: algebra_simps)
    next
      assume ?r
      then obtain k where k: "k < Suc n" "j = i + of_nat k" "p = pool_at pools (unat i + k)" "cp_healthy p"
        "\<forall>k' < k. \<not> cp_healthy (pool_at pools (unat i + k'))" by blast
      then obtain m where "k = Suc m" using False by (cases k) auto
      with k show ?l by (intro exI [of _ m]) (auto simp: algebra_simps)
    qed
    finally show ?thesis .
  qed
qed

lemma select_loop_None:
  "unat i + n < 2 ^ 64 \<Longrightarrow>
   select_loop pools i n = None \<longleftrightarrow> (\<forall>k < n. \<not> cp_healthy (pool_at pools (unat i + k)))"
proof (induction n arbitrary: i)
  case 0
  then show ?case by simp
next
  case (Suc n)
  have i: "unat (i + 1) = unat i + 1" using Suc.prems by (intro unat_suc) simp
  have "(\<forall>k < Suc n. P k) \<longleftrightarrow> P 0 \<and> (\<forall>k < n. P (Suc k))" for P
    using less_Suc_eq_0_disj by auto
  with Suc.IH [of "i + 1"] Suc.prems i show ?case
    by (simp add: Let_def pool_at_def)
qed

text \<open>Any \<open>l\<close> consecutive indices visit every pool.\<close>

lemma cyclic_cover:
  assumes "m < l"
  shows "\<exists>k < l. (s + k) mod l = (m :: nat)"
proof -
  let ?k = "(m + l - s mod l) mod l"
  have "(s + ?k) mod l = (s mod l + (m + l - s mod l)) mod l" by (simp add: mod_add_left_eq mod_add_right_eq)
  also have "s mod l < l" using assms by (intro mod_less_divisor) linarith
  then have "s mod l + (m + l - s mod l) = m + l" by linarith
  then have "(s mod l + (m + l - s mod l)) mod l = m" using assms by simp
  finally show ?thesis using assms by (intro exI [of _ ?k]) simp
qed

lemma shift_ne: "0 < d \<Longrightarrow> d < l \<Longrightarrow> (s + d) mod l \<noteq> s mod (l :: nat)"
proof
  assume d: "0 < d" "d < l" and "(s + d) mod l = s mod l"
  then have "l dvd (s + d) - s" by (simp add: mod_eq_dvd_iff_nat)
  with d show False by (simp add: nat_dvd_not_less)
qed

lemma range_len_ok: "unat s + l < 2 ^ 64 \<Longrightarrow> range_len s (s + of_nat l) = l"
  by (simp add: range_len_def unat_word_ariths unat_of_nat take_bit_nat_eq_self)

section \<open>Properties\<close>

text \<open>
  C34: as long as the index does not wrap, \<open>select\<close> finds a pool exactly when one is healthy, and it
  is the first healthy one in cyclic order from the starting index.
\<close>

theorem select_first_healthy:
  assumes "cl_pools cl \<noteq> []" and "select_seed rb rr li = (rr', seed)"
    and "unat seed + length (cl_pools cl) < 2 ^ 64"
  shows "\<exists>r. cluster_select cl rb rr li = (rr', r) \<and>
    (r = None \<longleftrightarrow> (\<forall>p \<in> set (cl_pools cl). \<not> cp_healthy p)) \<and>
    (\<forall>i p. r = Some (i, p) \<longrightarrow> cp_healthy p \<and> p \<in> set (cl_pools cl) \<and>
       (\<exists>k < length (cl_pools cl). unat i = unat seed + k \<and> p = pool_at (cl_pools cl) (unat i) \<and>
          (\<forall>k' < k. \<not> cp_healthy (pool_at (cl_pools cl) (unat seed + k')))))"
proof -
  let ?ps = "cl_pools cl"
  let ?l = "length ?ps"
  let ?r = "select_loop ?ps seed ?l"
  have sel: "cluster_select cl rb rr li = (rr', ?r)"
    using assms by (simp add: cluster_select_def range_len_ok Let_def)
  have in_ps: "pool_at ?ps i \<in> set ?ps" for i using assms(1) by (simp add: pool_at_def)
  have cover: "\<exists>k < ?l. pool_at ?ps (unat seed + k) = p" if "p \<in> set ?ps" for p
    using that cyclic_cover [of _ ?l "unat seed"] by (auto simp: in_set_conv_nth pool_at_def)
  have none: "?r = None \<longleftrightarrow> (\<forall>p \<in> set ?ps. \<not> cp_healthy p)"
    using select_loop_None [OF assms(3), of ?ps] in_ps cover by metis
  have some: "cp_healthy p \<and> p \<in> set ?ps \<and>
       (\<exists>k < ?l. unat i = unat seed + k \<and> p = pool_at ?ps (unat i) \<and>
          (\<forall>k' < k. \<not> cp_healthy (pool_at ?ps (unat seed + k'))))" if s: "?r = Some (i, p)" for i p
  proof -
    obtain k where k: "k < ?l" "i = seed + of_nat k" "p = pool_at ?ps (unat seed + k)" "cp_healthy p"
      "\<forall>k' < k. \<not> cp_healthy (pool_at ?ps (unat seed + k'))"
      using s select_loop_Some [OF assms(3), of ?ps] by blast
    have "unat i = unat seed + k"
      using k(1,2) assms(3) by (simp add: unat_word_ariths unat_of_nat take_bit_nat_eq_self)
    with k in_ps show ?thesis by auto
  qed
  show ?thesis
    by (intro exI [of _ ?r] conjI allI impI sel none) (use some in blast)+
qed

definition sample_cluster :: cluster where
  "sample_cluster = \<lparr>cl_pools = [\<lparr>cp_addr = str ''a'', cp_healthy = False\<rparr>, \<lparr>cp_addr = str ''b'', cp_healthy = True\<rparr>],
     cl_ver = 0\<rparr>"

theorem select_first_healthy_witness:
  "\<exists>i p. cluster_select sample_cluster True 4 None = (5, Some (i, p)) \<and> unat i = 5 \<and> cp_addr p = str ''b''"
proof -
  have "select_seed True 4 None = (5, 4)" by (simp add: select_seed_def)
  from select_first_healthy [OF _ this, of sample_cluster] obtain r where
    r: "cluster_select sample_cluster True 4 None = (5, r)" "r \<noteq> None"
    "\<forall>i p. r = Some (i, p) \<longrightarrow> cp_healthy p \<and> p \<in> set (cl_pools sample_cluster) \<and> (\<exists>k < 2. unat i = 4 + k \<and> p = pool_at (cl_pools sample_cluster) (unat i))"
    by (fastforce simp: sample_cluster_def)
  then obtain i p where ip: "r = Some (i, p)" by fastforce
  with r(3) obtain k where k: "k < 2" "unat i = 4 + k" "p = pool_at (cl_pools sample_cluster) (4 + k)" "cp_healthy p"
    by auto
  then have "k = 1"
    by (cases k) (simp_all add: pool_at_def sample_cluster_def flip: numeral_2_eq_2)
  with k r(1) ip show ?thesis by (auto simp: pool_at_def sample_cluster_def simp flip: numeral_2_eq_2)
qed

text \<open>
  The range of indices is computed at machine width: near the maximum the end of the range wraps
  below its start, the loop runs zero times, and no pool is selected although all may be healthy.
\<close>

theorem select_wraps_to_none:
  assumes "select_seed rb rr li = (rr', seed)" and "2 ^ 64 \<le> unat seed + length (cl_pools cl)"
    and "length (cl_pools cl) < 2 ^ 63"
  shows "cluster_select cl rb rr li = (rr', None)"
proof -
  let ?l = "length (cl_pools cl)"
  have s: "unat seed < 2 ^ 64" using unsigned_less [of seed] by simp
  have "(unat seed + ?l) mod 2 ^ 64 = unat seed + ?l - 2 ^ 64"
    using assms(2,3) s by (simp add: mod_if [of "unat seed + ?l"])
  then have "unat (seed + of_nat ?l) = unat seed + ?l - 2 ^ 64"
    using assms(3) by (simp add: unat_word_ariths unat_of_nat take_bit_nat_eq_self)
  then have "range_len seed (seed + of_nat ?l) = 0" using assms(3) by (simp add: range_len_def)
  moreover have "?l \<noteq> 0" using assms(2) s by linarith
  ultimately show ?thesis using assms(1) by (simp add: cluster_select_def Let_def)
qed

theorem select_wraps_to_none_witness:
  "cluster_select sample_cluster True (- 1) None = (0, None)"
proof -
  have "select_seed True (- 1) None = (0, - 1)" by (simp add: select_seed_def)
  from select_wraps_to_none [OF this, of sample_cluster] show ?thesis
    by (simp add: sample_cluster_def unsigned_minus_1_eq_mask mask_eq_exp_minus_1)
qed

section \<open>Retrying\<close>

text \<open>
  A task through its attempts: \<open>es\<close> are the errors that successive attempts end with. The result is
  the task, the attempts made, and whether it is still being retried.
\<close>

fun fo_life ::
  "('c, 't) client_task_ops \<Rightarrow> failover_pool \<Rightarrow> rpc_int_err list \<Rightarrow> 't failover_task \<Rightarrow>
   't failover_task \<times> nat \<times> bool" where
  "fo_life ct fp [] t = (t, 0, True)"
| "fo_life ct fp (e # es) t =
     (let t = fo_set_rpc_error ct e t in
      case failover_error_handle True t fp of
        To_Retry t \<Rightarrow> (case fo_life ct fp es t of (t, n, b) \<Rightarrow> (t, Suc n, b))
      | _ \<Rightarrow> (t, 1, False))"

lemma fo_life_bound:
  assumes "fo_life ct fp es t = (t', n, b)" "fo_retry t \<le> fp_retry_limit fp"
  shows "fo_retry t + n \<le> fp_retry_limit fp + 1 \<and> n \<le> length es \<and>
    (b \<longrightarrow> n = length es) \<and> (\<not> b \<longrightarrow> 0 < n)"
  using assms
proof (induction es arbitrary: t n)
  case Nil
  then show ?case by simp
next
  case (Cons e es)
  let ?t = "fo_set_rpc_error ct e t"
  show ?case
  proof (cases "e < Method \<and> fo_retry t + 1 \<le> fp_retry_limit fp")
    case True
    then have h: "failover_error_handle True ?t fp = To_Retry ?t" "fo_retry ?t = fo_retry t + 1"
      by (simp_all add: failover_error_handle_def fo_set_rpc_error_def Let_def)
    obtain m where m: "fo_life ct fp es ?t = (t', m, b)" "n = Suc m"
      using Cons.prems(1) h(1) by (auto simp: Let_def split: prod.splits)
    show ?thesis using Cons.IH [OF m(1)] m(2) h(2) True by auto
  next
    case False
    then have "failover_error_handle True ?t fp = Finished (fo_inner ?t)"
      by (auto simp: failover_error_handle_def fo_set_rpc_error_def Let_def)
    then show ?thesis using Cons.prems by (simp add: Let_def)
  qed
qed


definition wrapped_task :: "api_client_req failover_task" where
  "wrapped_task = \<lparr>fo_last_index = 0, fo_cluster_ver = 0, fo_inner = sample_task 0, fo_retry = 0,
     fo_should_retry = False\<rparr>"


text \<open>
  A retry moves on: if the set of addresses has not changed and some pool other than the one that
  failed is healthy, the task is sent to another one.
\<close>

theorem retry_moves_on:
  assumes "fp_cluster fp = Some cl" and "cl_ver cl = fo_cluster_ver task"
    and "unat (fo_last_index task) + 1 + length (cl_pools cl) < 2 ^ 64"
    and "j < length (cl_pools cl)" and "cp_healthy (cl_pools cl ! j)"
    and "unat (fo_last_index task) mod length (cl_pools cl) \<noteq> j"
  shows "\<exists>fp' i a task'. retry_round task (Some fp) = (Some fp', To_Pool i a task') \<and>
    unat i mod length (cl_pools cl) \<noteq> unat (fo_last_index task) mod length (cl_pools cl) \<and>
    fo_inner task' = fo_inner task"
proof -
  let ?ps = "cl_pools cl" and ?last = "unat (fo_last_index task)"
  let ?l = "length ?ps"
  let ?seed = "fo_last_index task + 1"
  have ne: "?ps \<noteq> []" using assms(4) by auto
  have seed: "unat ?seed = ?last + 1" using assms(3) by (intro unat_suc) simp
  have small: "unat ?seed + ?l < 2 ^ 64" using assms(3) seed by simp
  have sel: "cluster_select cl rb rr (Some (fo_last_index task)) = (rr, select_loop ?ps ?seed ?l)" for rb rr
    using ne small by (simp add: cluster_select_def select_seed_def range_len_ok Let_def)
  obtain k where k: "k < ?l" "(?last + 1 + k) mod ?l = j" using cyclic_cover [OF assms(4)] by blast
  have "k \<noteq> ?l - 1"
  proof
    assume "k = ?l - 1"
    then have "?last + 1 + k = ?last + ?l" using assms(4) by simp
    then have "(?last + 1 + k) mod ?l = ?last mod ?l" by (simp only: mod_add_self2)
    with k(2) assms(6) show False by simp
  qed
  with k(1) have less: "k < ?l - 1" by simp
  have "cp_healthy (pool_at ?ps (unat ?seed + k))" using k(2) assms(5) seed by (simp add: pool_at_def)
  then have "select_loop ?ps ?seed ?l \<noteq> None"
    using select_loop_None [OF small, of ?ps] k(1) by blast
  then obtain i p where ip: "select_loop ?ps ?seed ?l = Some (i, p)" by fastforce
  then obtain m where m: "m < ?l" "i = ?seed + of_nat m" "\<forall>k' < m. \<not> cp_healthy (pool_at ?ps (unat ?seed + k'))"
    using select_loop_Some [OF small, of ?ps] by blast
  have "m \<le> k" using m(3) \<open>cp_healthy (pool_at ?ps (unat ?seed + k))\<close> by (meson not_le)
  then have mk: "m < ?l - 1" using less by simp
  have ui: "unat i = ?last + 1 + m"
    using m(1,2) small seed by (simp add: unat_word_ariths unat_of_nat take_bit_nat_eq_self)
  have "(?last + 1 + m) mod ?l \<noteq> ?last mod ?l"
    using shift_ne [of "1 + m" ?l ?last] mk by (simp add: add.assoc)
  then show ?thesis using assms(1,2) sel ip ui by (auto simp: retry_round_def)
qed

theorem retry_moves_on_witness:
  "\<exists>fp' i a task'. retry_round (wrapped_task\<lparr>fo_last_index := 2\<rparr>)
       (Some ((failover_new [] False 2)\<lparr>fp_cluster := Some sample_cluster\<rparr>)) = (Some fp', To_Pool i a task') \<and>
     unat i mod 2 \<noteq> 0 \<and> fo_inner task' = sample_task 0"
  using retry_moves_on [of "(failover_new [] False 2)\<lparr>fp_cluster := Some sample_cluster\<rparr>" sample_cluster
      "wrapped_task\<lparr>fo_last_index := 2\<rparr>" 1]
  by (simp add: sample_cluster_def wrapped_task_def flip: numeral_2_eq_2)

section \<open>Replacing the addresses\<close>

lemma index_pools_lookup:
  "hm_wf m \<Longrightarrow> map_of (index_pools ps m) a =
     (case map_of (map (\<lambda>p. (cp_addr p, p)) (rev ps)) a of Some p \<Rightarrow> Some p | None \<Rightarrow> map_of m a)"
  by (induction ps arbitrary: m) (auto simp: map_add_def hm_lookup_insert split: option.splits)

lemma reuse_pools_nth:
  "i < length as \<Longrightarrow> reuse_pools as m ! i =
     (if as ! i \<in> set (take i as) then new_pool (as ! i)
      else case map_of m (as ! i) of Some p \<Rightarrow> p | None \<Rightarrow> new_pool (as ! i))"
  by (induction as arbitrary: i m) (auto simp: nth_Cons' take_Cons' hm_lookup_remove split: option.splits)

lemma reuse_pools_addrs:
  "(\<And>a p. map_of m a = Some p \<Longrightarrow> cp_addr p = a) \<Longrightarrow> map cp_addr (reuse_pools as m) = as"
proof (induction as arbitrary: m)
  case (Cons a as)
  have "map cp_addr (reuse_pools as (hm_remove a m)) = as"
    by (rule Cons.IH) (auto simp: hm_lookup_remove split: if_splits intro: Cons.prems)
  with Cons show ?case by (auto simp: new_pool_def split: option.split)
qed simp

lemma last_pool_addr: "map_of (map (\<lambda>p. (cp_addr p, p)) ps) a = Some p \<Longrightarrow> cp_addr p = a"
  by (induction ps) (auto split: if_splits)

text \<open>
  C35: after \<open>update_addrs\<close> the pools are those of the given addresses in the given order; the first
  use of an address keeps the (last) old pool of it with its health, any other gets a new pool, and
  the version is a new one, so that retries restart their selection.
\<close>

theorem update_addrs_reuses:
  assumes "fp_cluster fp = Some cl" and "cl_ver cl \<le> fp_ver fp" and "fp_ver fp < - 1"
  shows "\<exists>cl'. fp_cluster (update_addrs addrs fp) = Some cl' \<and> cl_ver cl < cl_ver cl' \<and>
    map cp_addr (cl_pools cl') = addrs \<and>
    (\<forall>i < length addrs. cl_pools cl' ! i =
       (if addrs ! i \<in> set (take i addrs) then new_pool (addrs ! i)
        else case find (\<lambda>p. cp_addr p = addrs ! i) (rev (cl_pools cl)) of
               Some p \<Rightarrow> p | None \<Rightarrow> new_pool (addrs ! i)))"
proof -
  let ?m = "index_pools (cl_pools cl) []"
  have find: "map_of (map (\<lambda>p. (cp_addr p, p)) ps) a = find (\<lambda>p. cp_addr p = a) ps" for ps a
    by (induction ps) auto
  have m: "map_of ?m a = find (\<lambda>p. cp_addr p = a) (rev (cl_pools cl))" for a
    by (simp only: index_pools_lookup [OF hm_wf_Nil] find map_of.simps) (simp split: option.split)
  have addrs: "map cp_addr (reuse_pools addrs ?m) = addrs"
    by (rule reuse_pools_addrs) (auto simp: index_pools_lookup dest: last_pool_addr split: option.splits)
  have "unat (fp_ver fp) + 1 < 2 ^ 64"
    using assms(3) by (simp add: word_less_nat_alt unsigned_minus_1_eq_mask mask_eq_exp_minus_1)
  then have "fp_ver fp < fp_ver fp + 1" by (simp add: word_less_nat_alt unat_suc)
  with assms addrs show ?thesis
    by (auto simp: update_addrs_def Let_def reuse_pools_nth m)
qed

theorem update_addrs_reuses_witness:
  "\<exists>cl'. fp_cluster (update_addrs [str ''b'', str ''c''] ((failover_new [] False 2)\<lparr>fp_cluster := Some sample_cluster\<rparr>)) =
     Some cl' \<and> 0 < cl_ver cl' \<and> map cp_addr (cl_pools cl') = [str ''b'', str ''c'']"
  using update_addrs_reuses [of "(failover_new [] False 2)\<lparr>fp_cluster := Some sample_cluster\<rparr>" sample_cluster
      "[str ''b'', str ''c'']"]
  by (auto simp: sample_cluster_def failover_new_def word_less_nat_alt unsigned_minus_1_eq_mask mask_eq_exp_minus_1)

end
