(* ===== verification/Rpc_Ledger.thy ===== *)
theory Rpc_Ledger
  imports Rpc_Prelude "HOL-Library.Multiset"
begin

text \<open>
  The contract of everything that carries tasks (a connection, a pool, a failover pool), as an
  abstract machine: an account of the tasks that are open. A step takes tasks in and hands tasks
  paid; only an open task can be handed back, and that closes it. The locale \<open>ledger_system\<close> is
  the interface a component meets to implement the account, and proves once that all its runs
  refine the abstract machine.
\<close>

section \<open>The abstract account\<close>

inductive account :: "('v list \<times> 'v list) list \<Rightarrow> 'v multiset \<Rightarrow> bool" where
  opened: "account [] {#}"
| booked: "account tr m \<Longrightarrow> mset paid \<subseteq># m + mset taken \<Longrightarrow>
    account (tr @ [(taken, paid)]) (m + mset taken - mset paid)"

inductive_cases account_snocE: "account (tr @ [io]) m"

definition all_taken :: "('v list \<times> 'w list) list \<Rightarrow> 'v multiset" where
  "all_taken tr = mset (concat (map fst tr))"

definition all_back :: "('v list \<times> 'w list) list \<Rightarrow> 'w multiset" where
  "all_back tr = mset (concat (map snd tr))"

lemma all_taken_simps [simp]:
  "all_taken [] = {#}" "all_taken (a @ b) = all_taken a + all_taken b" "all_taken [(i, j)] = mset i"
  by (simp_all add: all_taken_def)

lemma all_back_simps [simp]:
  "all_back [] = {#}" "all_back (a @ b) = all_back a + all_back b" "all_back [(i, j)] = mset j"
  by (simp_all add: all_back_def)

lemma account_balance: "account tr m \<Longrightarrow> all_taken tr = m + all_back tr"
proof (induction rule: account.induct)
  case (booked tr m paid taken)
  then have "m + mset taken = (m + mset taken - mset paid) + mset paid" by simp
  with booked.IH show ?case by (simp add: ac_simps)
qed simp

lemma account_prefix: "account (tr @ tr') m \<Longrightarrow> \<exists>m'. account tr m'"
proof (induction tr' arbitrary: m rule: rev_induct)
  case (snoc io tr')
  then have "account ((tr @ tr') @ [io]) m" by simp
  then obtain m' where "account (tr @ tr') m'" by (rule account_snocE)
  then show ?case by (rule snoc.IH)
qed auto

text \<open>What the contract means for a caller: nothing is handed back before it was taken in, or twice.\<close>

lemma account_causal: "account (tr @ tr') m \<Longrightarrow> all_back tr \<subseteq># all_taken tr"
  by (metis account_balance account_prefix mset_subset_eq_add_right)

lemma account_once:
  assumes "account tr m" "distinct (concat (map fst tr))"
  shows "distinct (concat (map snd tr)) \<and> set (concat (map snd tr)) \<subseteq> set (concat (map fst tr)) \<and>
    set_mset m \<inter> set (concat (map snd tr)) = {}"
proof -
  obtain ys where ys: "m = mset ys" using ex_mset by metis
  have "mset (concat (map fst tr)) = mset (ys @ concat (map snd tr))"
    using account_balance [OF assms(1)] ys by (simp add: all_taken_def all_back_def)
  then have "distinct (ys @ concat (map snd tr))" "set (concat (map fst tr)) = set (ys @ concat (map snd tr))"
    using assms(2) mset_eq_imp_distinct_iff mset_eq_setD by blast+
  with ys show ?thesis by auto
qed

section \<open>Implementing the account\<close>

text \<open>Runs of a step relation from a state, with what every step took in and handed back.\<close>

inductive sys_run ::
  "('s \<Rightarrow> 'x list \<Rightarrow> 'y list \<Rightarrow> 's \<Rightarrow> bool) \<Rightarrow> 's \<Rightarrow> ('x list \<times> 'y list) list \<Rightarrow> 's \<Rightarrow> bool"
  for step s0 where
  start: "sys_run step s0 [] s0"
| more: "sys_run step s0 tr s \<Longrightarrow> step s xs ys s' \<Longrightarrow> sys_run step s0 (tr @ [(xs, ys)]) s'"

definition view_trace :: "('x \<Rightarrow> 'v) \<Rightarrow> ('y \<Rightarrow> 'v) \<Rightarrow> ('x list \<times> 'y list) list \<Rightarrow> ('v list \<times> 'v list) list" where
  "view_trace vin vout tr = map (\<lambda>(xs, ys). (map vin xs, map vout ys)) tr"

lemma view_trace_simps [simp]:
  "view_trace vin vout [] = []"
  "view_trace vin vout (tr @ [(xs, ys)]) = view_trace vin vout tr @ [(map vin xs, map vout ys)]"
  by (simp_all add: view_trace_def)

lemma concat_view_trace:
  "concat (map fst (view_trace vin vout tr)) = map vin (concat (map fst tr))"
  "concat (map snd (view_trace vin vout tr)) = map vout (concat (map snd tr))"
  by (induction tr) (auto simp: view_trace_def)

text \<open>
  The interface: \<open>inv n\<close> holds after \<open>n\<close> steps, for less than \<open>bound\<close> of them (the counters of the
  components have 64 bits); \<open>opn\<close> is the account of a state, \<open>vin\<close> and \<open>vout\<close> identify what goes in
  and out.
\<close>

locale ledger_system =
  fixes step :: "'s \<Rightarrow> 'x list \<Rightarrow> 'y list \<Rightarrow> 's \<Rightarrow> bool"
    and init :: "'s \<Rightarrow> bool" and inv :: "nat \<Rightarrow> 's \<Rightarrow> bool" and bound :: nat
    and opn :: "'s \<Rightarrow> 'v multiset" and vin :: "'x \<Rightarrow> 'v" and vout :: "'y \<Rightarrow> 'v"
  assumes init_inv: "init s \<Longrightarrow> inv 0 s"
    and init_opn: "init s \<Longrightarrow> opn s = {#}"
    and step_inv: "inv n s \<Longrightarrow> step s xs ys s' \<Longrightarrow> Suc n < bound \<Longrightarrow> inv (Suc n) s'"
    and step_opn: "inv n s \<Longrightarrow> step s xs ys s' \<Longrightarrow> Suc n < bound \<Longrightarrow>
      opn s + image_mset vin (mset xs) = opn s' + image_mset vout (mset ys)"
begin

lemma run_refines:
  assumes "sys_run step s0 tr s" "init s0" "length tr < bound"
  shows "inv (length tr) s \<and> account (view_trace vin vout tr) (opn s)"
  using assms(1,3)
proof (induction rule: sys_run.induct)
  case start
  show ?case using assms(2) by (simp add: init_inv init_opn account.opened)
next
  case (more tr s xs ys s')
  then have ih: "inv (length tr) s" "account (view_trace vin vout tr) (opn s)" by simp_all
  note st = step_inv [OF ih(1) more.hyps(2)] step_opn [OF ih(1) more.hyps(2)]
  have "opn s' = opn s + mset (map vin xs) - mset (map vout ys)" "mset (map vout ys) \<subseteq># opn s + mset (map vin xs)"
    using st(2) more.prems by simp_all
  with account.booked [OF ih(2), of "map vout ys" "map vin xs"] st(1) more.prems show ?case by simp
qed

end

end
