(* ===== verification/Rpc_Client.thy ===== *)
theory Rpc_Client
  imports Rpc_Failover Rpc_Ledger
begin

text \<open>
  The client as a whole: a pool with the connections its workers opened (\<open>pool.rs\<close> over
  \<open>stream.rs\<close>), and the failover pool over several of them (\<open>failover.rs\<close> over \<open>pool.rs\<close>). A task
  moves from the channel of a pool to a connection, from there back through \<open>done\<close> or
  \<open>error_handle\<close>, and with failover into the retry channel and to the next pool. All three levels
  implement the account of \<open>Rpc_Ledger\<close>.
\<close>

section \<open>A connection\<close>

definition stream_start :: "('s, 't) client_stream \<Rightarrow> ('s, 't) stream_state" where
  "stream_start st = \<lparr>ss_stream = st, ss_sender = S_Idle, ss_receiver = R_Receiving, ss_leaked = []\<rparr>"

definition new_stream :: "('s, 't) stream_state \<Rightarrow> bool" where
  "new_stream ss \<longleftrightarrow> (\<exists>config conn cid ts. ss = stream_start (client_stream_new config conn cid ts))"

lemma stream_ok_mono: "stream_ok ct n ss \<Longrightarrow> n \<le> m \<Longrightarrow> stream_ok ct m ss"
  by (auto simp: stream_ok_def Let_def)

lemma new_stream_ok: "new_stream ss \<Longrightarrow> stream_ok ct n ss" "new_stream ss \<Longrightarrow> all_tasks ss = {#}"
proof -
  assume "new_stream ss"
  then obtain config conn cid ts where ss: "ss = stream_start (client_stream_new config conn cid ts)"
    by (auto simp: new_stream_def)
  show "stream_ok ct n ss"
    unfolding ss stream_start_def by (rule stream_ok_mono [OF stream_start_ok]) simp
  show "all_tasks ss = {#}"
    by (simp add: ss stream_start_def all_tasks_def client_stream_new_def Let_def)
qed

locale stream_client = client_task ct msg + client_transport ct tr f
  for ct :: "('c, 't) client_task_ops" and msg :: "'c \<Rightarrow> 't \<Rightarrow> bytes"
    and tr :: "('s, 'c, 't) client_transport_ops" and f :: "'t \<Rightarrow> 'v" +
  assumes view: "task_view ct f" and seq_view: "f (ct_set_seq ct s t) = f t"
begin

lemma step_ok:
  "stream_step ct tr codec ss sub evs ss' \<Longrightarrow> stream_ok ct n ss \<Longrightarrow> Suc n < 2 ^ 62 \<Longrightarrow>
   stream_ok ct (Suc n) ss' \<and> accounts f sub evs ss ss'"
  using stream_step_ok [OF client_task_axioms client_transport_axioms view] seq_view by blast

end

sublocale stream_client \<subseteq> conn: ledger_system "stream_step ct tr codec" new_stream "stream_ok ct" "2 ^ 62"
  "\<lambda>ss. image_mset f (all_tasks ss)" f "\<lambda>e. f (event_task e)" for codec
  by unfold_locales (auto simp: new_stream_ok dest: step_ok simp: accounts_def add.commute)

section \<open>A pool and its connections\<close>

record ('s, 't) client_sys =
  cy_pool :: "'t pool \<times> worker multiset"
  cy_streams :: "('s, 't) stream_state list"

definition client_sys_new :: "client_config \<Rightarrow> nat \<Rightarrow> ('s, 't) client_sys" where
  "client_sys_new config channel_size =
     \<lparr>cy_pool = (pool_new config channel_size, {# W_Connecting 0 #}), cy_streams = []\<rparr>"

text \<open>
  A step of the pool that does not touch a connection, a connection made, a task handed from the
  channel to a connection's \<open>send_task\<close>, and a step of a connection. Which worker owns which
  connection is left open, so these are the steps of the code and possibly more.
\<close>

inductive client_step ::
  "('c, 't) client_task_ops \<Rightarrow> ('s, 'c, 't) client_transport_ops \<Rightarrow> 'c \<Rightarrow>
   ('s, 't) client_sys \<Rightarrow> 't list \<Rightarrow> 't task_event list \<Rightarrow> ('s, 't) client_sys \<Rightarrow> bool"
  for ct tr codec where
  pool: "pool_step ct (cy_pool y) sub [] evs q \<Longrightarrow> client_step ct tr codec y sub evs (y\<lparr>cy_pool := q\<rparr>)"
| connect: "new_stream ss \<Longrightarrow> client_step ct tr codec y [] [] (y\<lparr>cy_streams := cy_streams y @ [ss]\<rparr>)"
| hand: "pool_step ct (cy_pool y) [] [t] evs q \<Longrightarrow> i < length (cy_streams y) \<Longrightarrow>
    stream_step ct tr codec (cy_streams y ! i) [t] evs' ss \<Longrightarrow>
    client_step ct tr codec y [] (evs @ evs') (y\<lparr>cy_pool := q, cy_streams := (cy_streams y)[i := ss]\<rparr>)"
| stream: "i < length (cy_streams y) \<Longrightarrow> stream_step ct tr codec (cy_streams y ! i) [] evs ss \<Longrightarrow>
    client_step ct tr codec y [] evs (y\<lparr>cy_streams := (cy_streams y)[i := ss]\<rparr>)"

definition client_tasks :: "('s, 't) client_sys \<Rightarrow> 't multiset" where
  "client_tasks y = mset (pl_chan (fst (cy_pool y))) + sum_list (map all_tasks (cy_streams y))"

definition client_ok :: "('c, 't) client_task_ops \<Rightarrow> nat \<Rightarrow> ('s, 't) client_sys \<Rightarrow> bool" where
  "client_ok ct n y \<longleftrightarrow> list_all (stream_ok ct n) (cy_streams y)"

definition new_client :: "('s, 't) client_sys \<Rightarrow> bool" where
  "new_client y \<longleftrightarrow> (\<exists>config channel_size. y = client_sys_new config channel_size)"

lemma new_client_ok: "new_client y \<Longrightarrow> client_ok ct n y" "new_client y \<Longrightarrow> client_tasks y = {#}"
  by (auto simp: new_client_def client_sys_new_def client_ok_def client_tasks_def pool_new_def)

lemma client_ok_mono: "client_ok ct n y \<Longrightarrow> n \<le> m \<Longrightarrow> client_ok ct m y"
  by (auto simp: client_ok_def list_all_iff intro: stream_ok_mono)

lemma client_ok_update:
  "client_ok ct n y \<Longrightarrow> stream_ok ct (Suc n) ss \<Longrightarrow> client_ok ct (Suc n) (y\<lparr>cy_streams := (cy_streams y)[i := ss]\<rparr>)"
  using client_ok_mono [of ct n y "Suc n"] by (auto simp: client_ok_def list_all_iff dest!: set_update_subset_insert [THEN subsetD])

context stream_client
begin

lemma one_stream_ok:
  assumes "i < length sss" "stream_step ct tr codec (sss ! i) sub evs ss" "list_all (stream_ok ct n) sss" "Suc n < 2 ^ 62"
  shows "stream_ok ct (Suc n) ss \<and>
    image_mset f (sum_list (map all_tasks sss)) + image_mset f (mset sub) =
      image_mset f (sum_list (map all_tasks (sss[i := ss]))) + image_mset (\<lambda>e. f (event_task e)) (mset evs)"
    (is "_ \<and> ?old + ?sub = ?new + ?evs")
proof -
  have "stream_ok ct n (sss ! i)" using assms(1,3) by (simp add: list_all_length)
  note ok = step_ok [OF assms(2) this assms(4)]
  let ?a = "image_mset f (all_tasks (sss ! i))" and ?b = "image_mset f (all_tasks ss)"
  have "?new + ?a = ?old + ?b"
    using arg_cong [OF sum_list_map_update [OF assms(1), of all_tasks ss], of "image_mset f"] by simp
  moreover have "?sub + ?a = ?b + ?evs" using ok by (simp add: accounts_def)
  ultimately have "?old + ?sub = ?new + ?evs" by (rule cancel_swap)
  with ok show ?thesis by simp
qed

lemma client_step_ok:
  assumes "client_step ct tr codec y sub evs y'" "client_ok ct n y" "Suc n < 2 ^ 62"
  shows "client_ok ct (Suc n) y' \<and>
    image_mset f (client_tasks y) + image_mset f (mset sub) =
      image_mset f (client_tasks y') + image_mset (\<lambda>e. f (event_task e)) (mset evs)"
  using assms
proof (induction rule: client_step.induct)
  case (pool y sub evs q)
  then show ?case
    using pool_step_accounts [OF pool.hyps view] client_ok_mono [of ct n y "Suc n"]
    by (simp add: client_ok_def client_tasks_def ac_simps)
next
  case (connect ss y)
  then show ?case
    using client_ok_mono [of ct n y "Suc n"] new_stream_ok [of ss] by (simp add: client_ok_def client_tasks_def)
next
  case (hand y t evs q i evs' ss)
  note ok = one_stream_ok [OF hand.hyps(2,3) hand.prems(1) [unfolded client_ok_def] hand.prems(2)]
  with pool_step_accounts [OF hand.hyps(1) view] client_ok_update [OF hand.prems(1), of ss i] show ?case
    by (simp add: client_ok_def client_tasks_def ac_simps)
next
  case (stream i y evs ss)
  note ok = one_stream_ok [OF stream.hyps stream.prems(1) [unfolded client_ok_def] stream.prems(2)]
  with client_ok_update [OF stream.prems(1), of ss i] show ?case
    by (simp add: client_tasks_def ac_simps)
qed

end

sublocale stream_client \<subseteq> client: ledger_system "client_step ct tr codec" new_client "client_ok ct" "2 ^ 62"
  "\<lambda>y. image_mset f (client_tasks y)" f "\<lambda>e. f (event_task e)" for codec
  by unfold_locales (auto simp: new_client_ok dest: client_step_ok)

context stream_client
begin

lemma client_run:
  "sys_run (client_step ct tr codec) y0 trace y \<Longrightarrow> new_client y0 \<Longrightarrow> length trace < 2 ^ 62 \<Longrightarrow>
   account (view_trace f (\<lambda>e. f (event_task e)) trace) (image_mset f (client_tasks y))"
  using client.run_refines by blast

end

section \<open>A failover pool over several pools\<close>

text \<open>
  \<open>fy_clients\<close>: every pool ever made, with its address; \<open>fy_sending\<close>: the tasks waiting in
  \<open>pool.send_req\<close> for room in the channel of a pool of that address; \<open>fy_retry\<close>: the retry channel;
  \<open>fy_gone\<close>: the failover pool was dropped; from then on the weak reference of the retry worker can die.
\<close>

record ('s, 't) failover_sys =
  fy_pool :: failover_pool
  fy_gone :: bool
  fy_clients :: "(rust_str \<times> ('s, 't failover_task) client_sys) list"
  fy_sending :: "(rust_str \<times> 't failover_task) list"
  fy_retry :: "'t failover_task list"

definition failover_sys_new :: "client_config \<Rightarrow> rust_str list \<Rightarrow> bool \<Rightarrow> nat \<Rightarrow> nat \<Rightarrow> ('s, 't) failover_sys" where
  "failover_sys_new config addrs round_robin retry_limit channel_size =
     \<lparr>fy_pool = failover_new addrs round_robin retry_limit, fy_gone = False,
      fy_clients = map (\<lambda>a. (a, client_sys_new config channel_size)) addrs, fy_sending = [], fy_retry = []\<rparr>"

text \<open>The health flags that \<open>select\<close> reads are those of the pools at that moment.\<close>

definition reads_health ::
  "(rust_str \<times> ('s, 't failover_task) client_sys) list \<Rightarrow> failover_pool \<Rightarrow> failover_pool \<Rightarrow> bool" where
  "reads_health cs fp fp' \<longleftrightarrow>
     (case fp_cluster fp of
        None \<Rightarrow> fp' = fp
      | Some cl \<Rightarrow> \<exists>ps. fp' = fp\<lparr>fp_cluster := Some (cl\<lparr>cl_pools := ps\<rparr>)\<rparr> \<and>
          map cp_addr ps = map cp_addr (cl_pools cl) \<and>
          (\<forall>p \<in> set ps. \<exists>y. (cp_addr p, y) \<in> set cs \<and> cp_healthy p = is_healthy (fst (cy_pool y))))"

text \<open>Where a task goes next; a finished one leaves the client through \<open>done\<close>.\<close>

fun take_hop :: "'t hop \<Rightarrow> ('s, 't) failover_sys \<Rightarrow> ('s, 't) failover_sys \<times> 't list" where
  "take_hop (To_Pool i a u) y = (y\<lparr>fy_sending := fy_sending y @ [(a, u)]\<rparr>, [])"
| "take_hop (To_Retry u) y = (y\<lparr>fy_retry := fy_retry y @ [u]\<rparr>, [])"
| "take_hop (Finished t) y = (y, [t])"

fun event_hop :: "bool \<Rightarrow> failover_pool \<Rightarrow> 't failover_task task_event \<Rightarrow> 't hop" where
  "event_hop retry_alive fp (Done u) = Finished (fo_inner u)"
| "event_hop retry_alive fp (Error_Handle u) = failover_error_handle retry_alive u fp"

fun take_events ::
  "bool \<Rightarrow> 't failover_task task_event list \<Rightarrow> ('s, 't) failover_sys \<Rightarrow> ('s, 't) failover_sys \<times> 't list" where
  "take_events retry_alive [] y = (y, [])"
| "take_events retry_alive (e # es) y =
     (case take_hop (event_hop retry_alive (fy_pool y) e) y of (y, ts) \<Rightarrow>
        (case take_events retry_alive es y of (y, us) \<Rightarrow> (y, ts @ us)))"

text \<open>The addresses for which \<open>update_addrs\<close> makes a new pool.\<close>

fun created_addrs :: "rust_str list \<Rightarrow> (rust_str, cluster_pool) hash_map \<Rightarrow> rust_str list" where
  "created_addrs [] m = []"
| "created_addrs (a # as) m =
     (case map_of m a of
        Some p \<Rightarrow> created_addrs as (hm_remove a m)
      | None \<Rightarrow> a # created_addrs as m)"

definition old_index :: "failover_pool \<Rightarrow> (rust_str, cluster_pool) hash_map" where
  "old_index fp = index_pools (case fp_cluster fp of Some c \<Rightarrow> cl_pools c | None \<Rightarrow> []) []"

inductive failover_step ::
  "('c, 't) client_task_ops \<Rightarrow> ('s, 'c, 't failover_task) client_transport_ops \<Rightarrow> 'c \<Rightarrow> client_config \<Rightarrow>
   ('s, 't) failover_sys \<Rightarrow> 't list \<Rightarrow> 't list \<Rightarrow> ('s, 't) failover_sys \<Rightarrow> bool"
  for ct tr codec config where
  submit: "\<not> fy_gone y \<Longrightarrow> reads_health (fy_clients y) (fy_pool y) fp \<Longrightarrow>
    failover_send_req ct t fp = (fp', h) \<Longrightarrow> take_hop h (y\<lparr>fy_pool := fp'\<rparr>) = (y', ts) \<Longrightarrow>
    failover_step ct tr codec config y [t] ts y'"
| deliver: "fy_sending y = xs @ (a, u) # zs \<Longrightarrow> k < length (fy_clients y) \<Longrightarrow> fy_clients y ! k = (a, c) \<Longrightarrow>
    client_step (failover_ops ct) tr codec c [u] evs c' \<Longrightarrow>
    take_events alive evs (y\<lparr>fy_sending := xs @ zs, fy_clients := (fy_clients y)[k := (a, c')]\<rparr>) = (y', ts) \<Longrightarrow>
    failover_step ct tr codec config y [] ts y'"
| work: "k < length (fy_clients y) \<Longrightarrow> fy_clients y ! k = (a, c) \<Longrightarrow>
    client_step (failover_ops ct) tr codec c [] evs c' \<Longrightarrow>
    take_events alive evs (y\<lparr>fy_clients := (fy_clients y)[k := (a, c')]\<rparr>) = (y', ts) \<Longrightarrow>
    failover_step ct tr codec config y [] ts y'"
| retry: "fy_retry y = u # us \<Longrightarrow> reads_health (fy_clients y) (fy_pool y) fp \<Longrightarrow>
    retry_round u (Some fp) = (Some fp', h) \<Longrightarrow> take_hop h (y\<lparr>fy_retry := us, fy_pool := fp'\<rparr>) = (y', ts) \<Longrightarrow>
    failover_step ct tr codec config y [] ts y'"
| retry_gone: "fy_gone y \<Longrightarrow> fy_retry y = u # us \<Longrightarrow> retry_round u None = (None, h) \<Longrightarrow>
    take_hop h (y\<lparr>fy_retry := us\<rparr>) = (y', ts) \<Longrightarrow>
    failover_step ct tr codec config y [] ts y'"
| update: "\<not> fy_gone y \<Longrightarrow>
    failover_step ct tr codec config y [] []
      (y\<lparr>fy_pool := update_addrs addrs (fy_pool y),
         fy_clients := fy_clients y @
           map (\<lambda>a. (a, client_sys_new config sz)) (created_addrs addrs (old_index (fy_pool y)))\<rparr>)"
| dropped: "failover_step ct tr codec config y [] [] (y\<lparr>fy_pool := failover_drop (fy_pool y), fy_gone := True\<rparr>)"

definition failover_tasks :: "('s, 't) failover_sys \<Rightarrow> 't failover_task multiset" where
  "failover_tasks y =
     sum_list (map (\<lambda>(a, c). client_tasks c) (fy_clients y)) + mset (map snd (fy_sending y)) + mset (fy_retry y)"

definition failover_ok :: "('c, 't) client_task_ops \<Rightarrow> nat \<Rightarrow> ('s, 't) failover_sys \<Rightarrow> bool" where
  "failover_ok ct n y \<longleftrightarrow> list_all (\<lambda>(a, c). client_ok (failover_ops ct) n c) (fy_clients y)"

definition new_failover :: "('s, 't) failover_sys \<Rightarrow> bool" where
  "new_failover y \<longleftrightarrow> (\<exists>config addrs rr limit sz. y = failover_sys_new config addrs rr limit sz)"

primrec hop_task :: "('t \<Rightarrow> 'v) \<Rightarrow> 't hop \<Rightarrow> 'v" where
  "hop_task f (To_Pool i a u) = f (fo_inner u)"
| "hop_task f (To_Retry u) = f (fo_inner u)"
| "hop_task f (Finished t) = f t"

abbreviation "inner_view f \<equiv> \<lambda>u. f (fo_inner u)"

lemma take_hop_tasks:
  "take_hop h y = (y', ts) \<Longrightarrow>
   fy_clients y' = fy_clients y \<and>
   image_mset (inner_view f) (failover_tasks y) + {# hop_task f h #} =
     image_mset (inner_view f) (failover_tasks y') + image_mset f (mset ts)"
  by (cases h) (auto simp: failover_tasks_def)

lemma event_hop_task: "hop_task f (event_hop b fp e) = inner_view f (event_task e)"
  by (cases e) (simp_all add: failover_error_handle_def)

lemma take_events_tasks:
  "take_events b evs y = (y', ts) \<Longrightarrow>
   fy_clients y' = fy_clients y \<and>
   image_mset (inner_view f) (failover_tasks y) + image_mset (\<lambda>e. inner_view f (event_task e)) (mset evs) =
     image_mset (inner_view f) (failover_tasks y') + image_mset f (mset ts)"
proof (induction evs arbitrary: y ts)
  case (Cons e evs)
  obtain y1 ts1 where h: "take_hop (event_hop b (fy_pool y) e) y = (y1, ts1)" by fastforce
  obtain ts2 where t: "take_events b evs y1 = (y', ts2)" "ts = ts1 @ ts2"
    using Cons.prems h by (auto split: prod.splits)
  from take_hop_tasks [OF h, of f] Cons.IH [OF t(1)]
  have "image_mset (inner_view f) (failover_tasks y) +
      ({# hop_task f (event_hop b (fy_pool y) e) #} + image_mset (\<lambda>e. inner_view f (event_task e)) (mset evs)) =
    image_mset (inner_view f) (failover_tasks y') + (image_mset f (mset ts1) + image_mset f (mset ts2))"
    by (blast intro: balance_trans)
  then show ?case
    using take_hop_tasks [OF h, of f] Cons.IH [OF t(1)] t(2) by (simp add: event_hop_task)
qed simp

lemma send_req_task:
  "task_view ct f \<Longrightarrow> failover_send_req ct t fp = (fp', h) \<Longrightarrow> hop_task f h = f t"
  by (auto simp: failover_send_req_def task_viewD(1) split: option.splits prod.splits)

lemma retry_round_task: "retry_round u fp = (fp', h) \<Longrightarrow> hop_task f h = f (fo_inner u)"
  by (auto simp: retry_round_def split: option.splits prod.splits if_splits)

locale failover_stack = failover_client ct msg + client_transport "failover_ops ct" tr "inner_view f"
  for ct :: "('c, 't) client_task_ops" and msg :: "'c \<Rightarrow> 't \<Rightarrow> bytes"
    and tr :: "('s, 'c, 't failover_task) client_transport_ops" and f :: "'t \<Rightarrow> 'v" +
  assumes inner_task_view: "task_view ct f" and inner_seq_view: "f (ct_set_seq ct s t) = f t"

sublocale failover_stack \<subseteq> wrapped: stream_client "failover_ops ct" "\<lambda>c t. msg c (fo_inner t)" tr "inner_view f"
proof -
  have "task_view (failover_ops ct) (inner_view f)"
    using inner_task_view
    by (auto simp: task_view_def failover_ops_def fo_set_rpc_error_def fo_set_custom_error_def Let_def case_prod_beta)
  moreover have "inner_view f (ct_set_seq (failover_ops ct) s t) = inner_view f t" for s t
    using inner_seq_view by (simp add: ct_set_seq_def failover_ops_def)
  ultimately show "stream_client (failover_ops ct) (\<lambda>c t. msg c (fo_inner t)) tr (inner_view f)"
    using client_transport_axioms
    by (intro stream_client.intro stream_client_axioms.intro fo.client_task_axioms)
qed

context failover_stack
begin

lemma one_client_ok:
  assumes "k < length cs" "cs ! k = (a, c)" "client_step (failover_ops ct) tr codec c sub evs c'"
    and "list_all (\<lambda>(a, c). client_ok (failover_ops ct) n c) cs" "Suc n < 2 ^ 62"
  shows "list_all (\<lambda>(a, c). client_ok (failover_ops ct) (Suc n) c) (cs[k := (a, c')]) \<and>
    image_mset (inner_view f) (sum_list (map (\<lambda>(a, c). client_tasks c) cs)) + image_mset (inner_view f) (mset sub) =
      image_mset (inner_view f) (sum_list (map (\<lambda>(a, c). client_tasks c) (cs[k := (a, c')]))) +
      image_mset (\<lambda>e. inner_view f (event_task e)) (mset evs)" (is "_ \<and> ?old + ?sub = ?new + ?evs")
proof -
  have "client_ok (failover_ops ct) n c" using assms(1,2,4) by (force simp: list_all_length)
  note ok = wrapped.client_step_ok [OF assms(3) this assms(5)]
  have "?new + image_mset (inner_view f) (client_tasks c) = ?old + image_mset (inner_view f) (client_tasks c')"
    using arg_cong [OF sum_list_map_update [OF assms(1), of "\<lambda>(a, c). client_tasks c" "(a, c')"],
        of "image_mset (inner_view f)"] assms(2) by simp
  moreover have "?sub + image_mset (inner_view f) (client_tasks c) =
      image_mset (inner_view f) (client_tasks c') + ?evs" using ok by (simp add: add.commute)
  ultimately have "?old + ?sub = ?new + ?evs" by (rule cancel_swap)
  moreover have "list_all (\<lambda>(a, c). client_ok (failover_ops ct) (Suc n) c) (cs[k := (a, c')])"
    using assms(4) ok by (auto simp: list_all_iff dest!: set_update_subset_insert [THEN subsetD] intro: client_ok_mono)
  ultimately show ?thesis by simp
qed

lemma client_moved:
  assumes "k < length (fy_clients y)" "fy_clients y ! k = (a, c)" "client_step (failover_ops ct) tr codec c sub evs c'"
    and "take_events b evs (y\<lparr>fy_sending := sd, fy_clients := (fy_clients y)[k := (a, c')]\<rparr>) = (y', ts)"
    and "failover_ok ct n y" "Suc n < 2 ^ 62"
  shows "failover_ok ct (Suc n) y' \<and>
    image_mset (inner_view f) (failover_tasks (y\<lparr>fy_sending := sd\<rparr>)) + image_mset (inner_view f) (mset sub) =
      image_mset (inner_view f) (failover_tasks y') + image_mset f (mset ts)"
proof -
  note c = one_client_ok [OF assms(1-3) assms(5) [unfolded failover_ok_def] assms(6)]
  note e = take_events_tasks [OF assms(4), of f]
  let ?r = "image_mset (inner_view f) (mset (map snd sd) + mset (fy_retry y))"
  have "(image_mset (inner_view f) (sum_list (map (\<lambda>(a, c). client_tasks c) ((fy_clients y)[k := (a, c')]))) + ?r) +
      image_mset (\<lambda>e. inner_view f (event_task e)) (mset evs) =
    image_mset (inner_view f) (failover_tasks y') + image_mset f (mset ts)"
    using e by (simp add: failover_tasks_def add.assoc)
  from balance_frame [OF conjunct2 [OF c] this] c e show ?thesis
    by (simp add: failover_ok_def failover_tasks_def add.assoc)
qed

lemma failover_ok_same: "failover_ok ct n y \<Longrightarrow> fy_clients y' = fy_clients y \<Longrightarrow> failover_ok ct (Suc n) y'"
  by (auto simp: failover_ok_def list_all_iff intro: client_ok_mono)

lemma failover_step_ok:
  assumes "failover_step ct tr codec config y sub ts y'" "failover_ok ct n y" "Suc n < 2 ^ 62"
  shows "failover_ok ct (Suc n) y' \<and>
    image_mset (inner_view f) (failover_tasks y) + image_mset f (mset sub) =
      image_mset (inner_view f) (failover_tasks y') + image_mset f (mset ts)"
  using assms
proof (induction rule: failover_step.induct)
  case (submit y fp t fp' h y' ts)
  from take_hop_tasks [OF submit.hyps(4), of f] send_req_task [OF inner_task_view submit.hyps(3)]
  show ?case using failover_ok_same [OF submit.prems(1)] by (simp add: failover_tasks_def)
next
  case (deliver y xs a u zs k c evs c' alive y' ts)
  from client_moved [OF deliver.hyps(2-5) deliver.prems] deliver.hyps(1) show ?case
    by (simp add: failover_tasks_def)
next
  case (work k y a c evs c' alive y' ts)
  have "take_events alive evs (y\<lparr>fy_sending := fy_sending y, fy_clients := (fy_clients y)[k := (a, c')]\<rparr>) = (y', ts)"
    using work.hyps(4) by simp
  from client_moved [OF work.hyps(1-3) this work.prems] show ?case by simp
next
  case (retry y u us fp fp' h y' ts)
  from take_hop_tasks [OF retry.hyps(4), of f] retry_round_task [OF retry.hyps(3), of f] retry.hyps(1)
  show ?case using failover_ok_same [OF retry.prems(1)] by (simp add: failover_tasks_def)
next
  case (retry_gone y u us h y' ts)
  from take_hop_tasks [OF retry_gone.hyps(4), of f] retry_round_task [OF retry_gone.hyps(3), of f] retry_gone.hyps(2)
  show ?case using failover_ok_same [OF retry_gone.prems(1)] by (simp add: failover_tasks_def)
next
  case (update y sz addrs)
  let ?as = "created_addrs addrs (old_index (fy_pool y))"
  have new: "new_client (client_sys_new config sz)" by (auto simp: new_client_def)
  have "sum_list (map (\<lambda>x. client_tasks (client_sys_new config sz)) as) = {#}" for as :: "rust_str list"
    by (induction as) (simp_all add: new_client_ok(2) [OF new])
  with update failover_ok_same [OF update.prems(1), of y] show ?case
    by (auto simp: failover_ok_def failover_tasks_def comp_def list_all_iff new_client_ok(1) [OF new])
next
  case (dropped y)
  then show ?case using failover_ok_same [OF dropped.prems(1)] by (simp add: failover_tasks_def)
qed

end

lemma new_failover_ok: "new_failover y \<Longrightarrow> failover_ok ct n y" "new_failover y \<Longrightarrow> failover_tasks y = {#}"
proof -
  assume "new_failover y"
  then obtain config addrs rr limit sz where y: "y = failover_sys_new config addrs rr limit sz"
    unfolding new_failover_def by blast
  have new: "new_client (client_sys_new config sz)" by (auto simp: new_client_def)
  show "failover_ok ct n y" by (simp add: y failover_sys_new_def failover_ok_def list_all_iff new_client_ok(1) [OF new])
  have "sum_list (map (\<lambda>x. client_tasks (client_sys_new config sz)) as) = {#}" for as :: "rust_str list"
    by (induction as) (simp_all add: new_client_ok(2) [OF new])
  then show "failover_tasks y = {#}" by (simp add: y failover_sys_new_def failover_tasks_def comp_def)
qed

sublocale failover_stack \<subseteq> whole: ledger_system "failover_step ct tr codec config" new_failover "failover_ok ct" "2 ^ 62"
  "\<lambda>y. image_mset (inner_view f) (failover_tasks y)" f f for codec config
  by unfold_locales (auto simp: new_failover_ok dest: failover_step_ok)

context failover_stack
begin

lemma failover_run:
  assumes "sys_run (failover_step ct tr codec config) y0 trace y" "new_failover y0" "length trace < 2 ^ 62"
  shows "account (view_trace f f trace) (image_mset (inner_view f) (failover_tasks y))"
  using whole.run_refines [OF assms] by blast

end

section \<open>The API client over TCP\<close>

interpretation api_conn: stream_client uapi_ops api_msg "tcp_transport alloc uapi_ops" ar_action for alloc
  by unfold_locales (use api_view in auto)

interpretation api_stack: failover_stack uapi_ops api_msg "tcp_transport alloc (failover_ops uapi_ops)" ar_action for alloc
  by unfold_locales (use api_view in auto)

section \<open>Properties\<close>


text \<open>A task is submitted to a pool whose first connection fails, for concrete instances.\<close>

definition queued :: "'t \<Rightarrow> ('s, 't) client_sys" where
  "queued t = \<lparr>cy_pool = ((pool_new client_config_default 0)\<lparr>pl_chan := [t]\<rparr>, {# W_Connecting 0 #}), cy_streams = []\<rparr>"

definition refused :: "('s, 't) client_sys" where
  "refused = \<lparr>cy_pool = ((set_err (pool_new client_config_default 0))\<lparr>pl_chan := []\<rparr>, {# W_Connecting 0 #}), cy_streams = []\<rparr>"

lemma client_pool_step:
  "pool_step ct q sub [] evs q' \<Longrightarrow>
   client_step ct tr codec \<lparr>cy_pool = q, cy_streams = ss\<rparr> sub evs \<lparr>cy_pool = q', cy_streams = ss\<rparr>"
  using client_step.pool [of ct "\<lparr>cy_pool = q, cy_streams = ss\<rparr>"] by simp

lemma queued_step: "client_step ct tr codec (client_sys_new client_config_default 0) [t] [] (queued t)"
  unfolding client_sys_new_def queued_def
  by (intro client_pool_step pool_step.submit)
     (simp_all add: pool_new_def pool_send_req_def pool_channel_size_def client_config_default_def)

lemma refused_step:
  "client_step ct tr codec (queued t) [] [Error_Handle (ct_set_rpc_error ct Unreachable t)] refused"
  unfolding queued_def refused_def
  by (intro client_pool_step pool_step.connect_err) (simp add: pool_cleanup_def set_err_def)

lemma sys_run_two: "step s0 a b s1 \<Longrightarrow> step s1 c d s2 \<Longrightarrow> sys_run step s0 [(a, b), (c, d)] s2"
  using sys_run.more [of step s0 "[(a, b)]" s1] sys_run.more [of step s0 "[]" s0] by (simp add: sys_run.start)



lemma refused_hop:
  assumes "fp_retry_limit fp = 0"
  shows "event_hop b fp (Error_Handle (ct_set_rpc_error (failover_ops ct) Unreachable
      \<lparr>fo_last_index = i, fo_cluster_ver = v, fo_inner = t, fo_retry = 0, fo_should_retry = False\<rparr>)) =
    Finished (ct_set_rpc_error ct Unreachable t)"
  using assms by (simp add: failover_ops_def fo_set_rpc_error_def failover_error_handle_def less_rpc_int_err_def)


end
