(* ===== verification/Rpc_Runtime.thy ===== *)
theory Rpc_Runtime
  imports Rpc_Tcp_Client
begin

text \<open>
  The runtime interface, \<open>core/src/runtime.rs\<close>, and its two adaptors \<open>runtime/tokio/src/lib.rs\<close> and
  \<open>runtime/smol/src/lib.rs\<close>. What the third-party runtimes provide is a parameter: connecting a
  socket, turning it back into one of the standard library, registering a descriptor with the
  reactor, the executor a coroutine is spawned on, and their timers.
\<close>

section \<open>AsyncIO\<close>

text \<open>
  The trait: connecting within a time limit (\<open>None\<close> is not returning), the two registrations, and
  spawning, which changes the executor.
\<close>

record ('addr, 'raw, 'fd, 'ex, 'fut) async_io =
  io_connect :: "'addr unify_addr \<Rightarrow> duration \<Rightarrow> 'fd io_result option"
  io_to_async_fd_rd :: "'raw \<Rightarrow> 'fd io_result"
  io_to_async_fd_rw :: "'raw \<Rightarrow> 'fd io_result"
  io_spawn_detach :: "'fut \<Rightarrow> 'ex \<Rightarrow> 'ex outcome"

text \<open>The provided method \<open>timeout\<close>: the future raced against a sleep.\<close>

definition io_timeout :: "'a poll \<Rightarrow> unit poll \<Rightarrow> ('a, unit) result poll" where
  "io_timeout func slept = cancellable_poll func slept"

text \<open>
  The implementation for everything that dereferences to a runtime: all calls go to the target, the
  state of which is a part of the state of the holder.
\<close>

definition deref_io ::
  "('h \<Rightarrow> 'ex) \<Rightarrow> ('ex \<Rightarrow> 'h \<Rightarrow> 'h) \<Rightarrow> ('addr, 'raw, 'fd, 'ex, 'fut) async_io \<Rightarrow> ('addr, 'raw, 'fd, 'h, 'fut) async_io" where
  "deref_io deref set_rt io =
     \<lparr>io_connect = io_connect io, io_to_async_fd_rd = io_to_async_fd_rd io, io_to_async_fd_rw = io_to_async_fd_rw io,
      io_spawn_detach = (\<lambda>f h. map_outcome_value (\<lambda>ex. set_rt ex h) (io_spawn_detach io f (deref h)))\<rparr>"

text \<open>\<open>connect_tcp\<close> and \<open>connect_unix\<close> of both adaptors: connect with a time limit, convert, register.\<close>

definition connect_with ::
  "('addr unify_addr \<Rightarrow> (unit, 'sock) io_op) \<Rightarrow> ('sock \<Rightarrow> 'raw io_result) \<Rightarrow> ('raw \<Rightarrow> 'fd io_result) \<Rightarrow>
   'addr unify_addr \<Rightarrow> duration \<Rightarrow> 'fd io_result option" where
  "connect_with dial into_std to_async_fd_rw addr timeout =
     (case io_with_timeout timeout (dial addr) of
        None \<Rightarrow> None
      | Some (_, Inl e) \<Rightarrow> Some (Err e)
      | Some (_, Inr stream) \<Rightarrow>
          (case into_std stream of
             Inl e \<Rightarrow> Some (Err e)
           | Inr raw \<Rightarrow> Some (to_async_fd_rw raw)))"

section \<open>tokio\<close>

datatype interest = Readable | Readable_Writable

text \<open>\<open>with_interest\<close> registers a descriptor; spawning hands the coroutine to the captured handle.\<close>

definition tokio_rt ::
  "('addr unify_addr \<Rightarrow> (unit, 'sock) io_op) \<Rightarrow> ('sock \<Rightarrow> 'raw io_result) \<Rightarrow> (interest \<Rightarrow> 'raw \<Rightarrow> 'fd io_result) \<Rightarrow>
   ('addr, 'raw, 'fd, 'fut list, 'fut) async_io" where
  "tokio_rt dial into_std with_interest =
     \<lparr>io_connect = connect_with dial into_std (with_interest Readable_Writable),
      io_to_async_fd_rd = with_interest Readable, io_to_async_fd_rw = with_interest Readable_Writable,
      io_spawn_detach = (\<lambda>f ex. Return (ex @ [f]))\<rparr>"

text \<open>\<open>TokioInterval::poll_tick\<close>\<close>

definition tokio_poll_tick :: "nat poll \<Rightarrow> nat poll" where
  "tokio_poll_tick inner = (case inner of Ready i \<Rightarrow> Ready i | Pending \<Rightarrow> Pending)"

section \<open>smol\<close>

text \<open>
  \<open>SmolRT\<close> holds an executor, or spawns globally, which only the feature \<open>global\<close> allows; the pair is
  the executor's queue (if there is one) and the global one.
\<close>

definition smol_spawn_detach :: "bool \<Rightarrow> 'fut \<Rightarrow> 'fut list option \<times> 'fut list \<Rightarrow> ('fut list option \<times> 'fut list) outcome" where
  "smol_spawn_detach global f rt =
     (case rt of
        (Some ex, g) \<Rightarrow> Return (Some (ex @ [f]), g)
      | (None, g) \<Rightarrow> (if global then Return (None, g @ [f]) else Panic))"

definition smol_new :: "'fut list option \<times> 'fut list" where
  "smol_new = (Some [], [])"

definition smol_new_global :: "'fut list option \<times> 'fut list" where
  "smol_new_global = (None, [])"

definition smol_rt ::
  "bool \<Rightarrow> ('addr unify_addr \<Rightarrow> (unit, 'sock) io_op) \<Rightarrow> ('sock \<Rightarrow> 'raw io_result) \<Rightarrow> ('raw \<Rightarrow> 'fd io_result) \<Rightarrow>
   ('addr, 'raw, 'fd, 'fut list option \<times> 'fut list, 'fut) async_io" where
  "smol_rt global dial into_inner async_new =
     \<lparr>io_connect = connect_with dial into_inner async_new,
      io_to_async_fd_rd = async_new, io_to_async_fd_rw = async_new,
      io_spawn_detach = smol_spawn_detach global\<rparr>"

text \<open>\<open>SmolInterval::poll_tick\<close>: the stream of ticks does not end, its end is unreachable.\<close>

definition smol_poll_tick :: "nat option poll \<Rightarrow> nat poll outcome" where
  "smol_poll_tick inner =
     (case inner of
        Ready (Some i) \<Rightarrow> Return (Ready i)
      | Ready None \<Rightarrow> Panic
      | Pending \<Rightarrow> Return Pending)"

text \<open>\<open>tick(d)\<close>: the first tick after \<open>d\<close>, then every \<open>d\<close>.\<close>

definition tick_at :: "nat \<Rightarrow> duration \<Rightarrow> nat \<Rightarrow> nat" where
  "tick_at now d k = (now + d) + k * d"

section \<open>What the framework relies on\<close>

text \<open>
  Connecting with a time limit returns, with a descriptor registered for both directions or with an
  error, and with \<open>TimedOut\<close> when the peer is silent; spawning does not fail in the states \<open>ready\<close>
  and keeps them.
\<close>

locale async_runtime =
  fixes io :: "('addr, 'raw, 'fd, 'ex, 'fut) async_io" and ready :: "'ex \<Rightarrow> bool" and silent :: "'addr unify_addr \<Rightarrow> bool"
  assumes connects: "0 < d \<Longrightarrow> \<exists>r. io_connect io a d = Some r \<and>
      (silent a \<longrightarrow> r = Err TimedOut) \<and> (\<forall>fd. r = Ok fd \<longrightarrow> (\<exists>raw. io_to_async_fd_rw io raw = Ok fd))"
    and spawns: "ready ex \<Longrightarrow> \<exists>ex'. io_spawn_detach io f ex = Return ex' \<and> ready ex'"
begin

lemma spawn_all: "ready ex \<Longrightarrow> \<exists>ex'. foldl (\<lambda>o' f. case o' of Return ex \<Rightarrow> io_spawn_detach io f ex | Panic \<Rightarrow> Panic)
    (Return ex) fs = Return ex' \<and> ready ex'"
proof (induction fs arbitrary: ex)
  case (Cons f fs)
  then show ?case using spawns [OF Cons.prems, of f] by fastforce
qed simp

end

text \<open>A holder of a runtime is a runtime: how \<open>ClientDefault\<close> and \<open>ServerDefault\<close> become one.\<close>

locale runtime_holder = async_runtime io ready silent
  for io :: "('addr, 'raw, 'fd, 'ex, 'fut) async_io" and ready :: "'ex \<Rightarrow> bool" and silent :: "'addr unify_addr \<Rightarrow> bool" +
  fixes deref :: "'h \<Rightarrow> 'ex" and set_rt :: "'ex \<Rightarrow> 'h \<Rightarrow> 'h"
  assumes deref_set: "deref (set_rt ex h) = ex"

sublocale runtime_holder \<subseteq> held: async_runtime "deref_io deref set_rt io" "\<lambda>h. ready (deref h)" silent
proof
  show "\<exists>r. io_connect (deref_io deref set_rt io) a d = Some r \<and> (silent a \<longrightarrow> r = Err TimedOut) \<and>
      (\<forall>fd. r = Ok fd \<longrightarrow> (\<exists>raw. io_to_async_fd_rw (deref_io deref set_rt io) raw = Ok fd))" if "0 < d" for d a
    using connects [OF that] by (simp add: deref_io_def)
  show "\<exists>h'. io_spawn_detach (deref_io deref set_rt io) f h = Return h' \<and> ready (deref h')" if "ready (deref h)" for f h
    using spawns [OF that, of f] by (auto simp: deref_io_def deref_set)
qed

text \<open>
  What a third-party connect can do: it has ended when the deadline is reached, or it has not; then
  one that is waited for without a deadline does not return.
\<close>

definition dial_of :: "('addr unify_addr \<Rightarrow> 'sock io_result poll) \<Rightarrow> 'addr unify_addr \<Rightarrow> (unit, 'sock) io_op" where
  "dial_of ended a patient =
     (case ended a of
        Ready r \<Rightarrow> Some ((), Ready r)
      | Pending \<Rightarrow> (if patient then None else Some ((), Pending)))"

lemma connect_with_returns:
  assumes "0 < d"
  shows "\<exists>r. connect_with (dial_of ended) into_std reg a d = Some r \<and> (ended a = Pending \<longrightarrow> r = Err TimedOut) \<and>
    (\<forall>fd. r = Ok fd \<longrightarrow> (\<exists>raw. reg raw = Ok fd))"
proof (cases "ended a")
  case Pending
  then show ?thesis using assms by (simp add: connect_with_def io_with_timeout_def dial_of_def)
next
  case (Ready v)
  then show ?thesis using assms
    by (cases v) (auto simp: connect_with_def io_with_timeout_def dial_of_def split: sum.split)
qed

interpretation tokio: async_runtime "tokio_rt (dial_of ended) into_std with_interest" "\<lambda>_. True" "\<lambda>a. ended a = Pending"
  for ended into_std with_interest
  using connect_with_returns [of _ ended] by unfold_locales (auto simp: tokio_rt_def)

interpretation smol: async_runtime "smol_rt global (dial_of ended) into_inner async_new" "\<lambda>rt. fst rt \<noteq> None \<or> global"
  "\<lambda>a. ended a = Pending" for global ended into_inner async_new
  using connect_with_returns [of _ ended]
  by unfold_locales (auto simp: smol_rt_def smol_spawn_detach_def split: option.split)

section \<open>ClientDefault and ServerDefault\<close>

text \<open>The facts for general use: a configuration and a runtime; the logger is left out.\<close>

record 'rt client_default =
  cd_config :: client_config
  cd_rt :: 'rt

definition client_default_new :: "client_config \<Rightarrow> 'rt \<Rightarrow> 'rt client_default" where
  "client_default_new config rt = \<lparr>cd_config = config, cd_rt = rt\<rparr>"

definition client_get_config :: "'rt client_default \<Rightarrow> client_config" where
  "client_get_config f = cd_config f"

text \<open>The provided method \<open>get_client_id\<close>.\<close>

definition get_client_id :: "'rt client_default \<Rightarrow> u64" where
  "get_client_id f = 0"

record 'rt server_default =
  sd_config :: server_config
  sd_rt :: 'rt

definition server_default_new :: "server_config \<Rightarrow> 'rt \<Rightarrow> 'rt server_default" where
  "server_default_new config rt = \<lparr>sd_config = config, sd_rt = rt\<rparr>"

definition server_get_config :: "'rt server_default \<Rightarrow> server_config" where
  "server_get_config f = sd_config f"

definition client_io ::
  "('addr, 'raw, 'fd, 'rt, 'fut) async_io \<Rightarrow> ('addr, 'raw, 'fd, 'rt client_default, 'fut) async_io" where
  "client_io io = deref_io cd_rt (\<lambda>rt f. f\<lparr>cd_rt := rt\<rparr>) io"

definition server_io ::
  "('addr, 'raw, 'fd, 'rt, 'fut) async_io \<Rightarrow> ('addr, 'raw, 'fd, 'rt server_default, 'fut) async_io" where
  "server_io io = deref_io sd_rt (\<lambda>rt f. f\<lparr>sd_rt := rt\<rparr>) io"

interpretation tokio_client: runtime_holder "tokio_rt (dial_of ended) into_std with_interest" "\<lambda>_. True"
  "\<lambda>a. ended a = Pending" "cd_rt :: 'f list client_default \<Rightarrow> 'f list" "\<lambda>rt f. f\<lparr>cd_rt := rt\<rparr>" for ended into_std with_interest
  by unfold_locales simp

interpretation smol_client: runtime_holder "smol_rt global (dial_of ended) into_inner async_new"
  "\<lambda>rt. fst rt \<noteq> None \<or> global" "\<lambda>a. ended a = Pending"
  "cd_rt :: ('f list option \<times> 'f list) client_default \<Rightarrow> _" "\<lambda>rt f. f\<lparr>cd_rt := rt\<rparr>"
  for global ended into_inner async_new
  by unfold_locales simp

interpretation smol_server: runtime_holder "smol_rt global (dial_of ended) into_inner async_new"
  "\<lambda>rt. fst rt \<noteq> None \<or> global" "\<lambda>a. ended a = Pending"
  "sd_rt :: ('f list option \<times> 'f list) server_default \<Rightarrow> _" "\<lambda>rt f. f\<lparr>sd_rt := rt\<rparr>"
  for global ended into_inner async_new
  by unfold_locales simp

section \<open>Properties\<close>

text \<open>
  Connecting a client through a runtime that meets the interface.
\<close>

lemma connect_returns:
  assumes "async_runtime io ready silent" "0 < cc_connect_timeout config" "addr \<noteq> []"
  shows "\<exists>r. tcp_connect parse resolve (io_connect io) addr config = Fin r \<and>
    (\<forall>a. unify_addr_from_str parse resolve addr = Return (Some a) \<and> silent a \<longrightarrow> r = Err Unreachable) \<and>
    (case r of Inl e \<Rightarrow> e = Unreachable | Inr c \<Rightarrow> stream_inv (tc_stream c) \<and> tc_resp_buf c = [] \<and> \<not> tc_shut c)"
proof -
  obtain oa where oa: "unify_addr_from_str parse resolve addr = Return oa"
    using unify_addr_from_str_cases [of parse resolve addr] assms(3)
    by (cases "unify_addr_from_str parse resolve addr") auto
  show ?thesis
  proof (cases oa)
    case None
    with oa show ?thesis by (simp add: tcp_connect_def)
  next
    case (Some a)
    obtain q where q: "io_connect io a (cc_connect_timeout config) = Some q" "silent a \<longrightarrow> q = Err TimedOut"
      using async_runtime.connects [OF assms(1,2)] by blast
    show ?thesis
    proof (cases q)
      case (Inl e)
      with oa Some q show ?thesis by (simp add: tcp_connect_def)
    next
      case (Inr p)
      obtain i out where p: "p = (i, out)" by (cases p)
      let ?n = "if cc_stream_buf_size config = 0 then CLIENT_DEFAULT_BUF_SIZE else cc_stream_buf_size config"
      have "\<exists>s. buf_stream_new i out n = Return s" if "0 < n" for n
        using that by (simp add: buf_stream_new_def buf_read_new_def buf_write_new_def)
      moreover have "0 < ?n" by (simp add: CLIENT_DEFAULT_BUF_SIZE_def)
      ultimately obtain s where s: "buf_stream_new i out ?n = Return s" by blast
      from oa Some q Inr p s buf_stream_new_inv [OF s] show ?thesis by (auto simp: tcp_connect_def Let_def)
    qed
  qed
qed

text \<open>
  C27: with a positive time limit, connecting returns through either runtime, also when the runtime is
  the one inside \<open>ClientDefault\<close>: it never panics on a non-empty address, a peer that is silent until
  the limit is reported as unreachable, as is every other failure, and a connection that is
  established starts with empty buffers and its write direction open.
\<close>

theorem runtimes_connect:
  assumes "0 < cc_connect_timeout config" and "addr \<noteq> []"
    and "connect = io_connect (client_io (tokio_rt (dial_of ended) into_std with_interest)) \<or>
      connect = io_connect (client_io (smol_rt global (dial_of ended) into_inner async_new))"
  shows "\<exists>r. tcp_connect parse resolve connect addr config = Fin r \<and>
    (\<forall>a. unify_addr_from_str parse resolve addr = Return (Some a) \<and> ended a = Pending \<longrightarrow> r = Err Unreachable) \<and>
    (case r of Inl e \<Rightarrow> e = Unreachable | Inr c \<Rightarrow> stream_inv (tc_stream c) \<and> tc_resp_buf c = [] \<and> \<not> tc_shut c)"
proof -
  note tokio = tokio_client.held.async_runtime_axioms
      [where ended = ended and into_std = into_std and with_interest = with_interest, folded client_io_def]
  note smol = smol_client.held.async_runtime_axioms
      [where ended = ended and global = global and into_inner = into_inner and async_new = async_new, folded client_io_def]
  from assms(3) show ?thesis
    by (elim disjE ssubst) (rule connect_returns [OF tokio assms(1,2)], rule connect_returns [OF smol assms(1,2)])
qed

theorem runtimes_connect_witness:
  "tcp_connect (\<lambda>s. None :: nat option) (\<lambda>s. None)
     (io_connect (client_io (smol_rt False (dial_of (\<lambda>a. Pending :: unit io_result poll)) (\<lambda>s. Ok ())
       (\<lambda>r. Err TimedOut) :: (nat, unit, rd_event list \<times> sink, unit list option \<times> unit list, unit) async_io)))
     (str ''/tmp/s'') client_config_default = Fin (Err Unreachable)"
proof -
  let ?io = "smol_rt False (dial_of (\<lambda>a. Pending :: unit io_result poll)) (\<lambda>s. Ok ())
       (\<lambda>r. Err TimedOut) :: (nat, unit, rd_event list \<times> sink, unit list option \<times> unit list, unit) async_io"
  have "0 < cc_connect_timeout client_config_default" "str ''/tmp/s'' \<noteq> []"
    by (simp_all add: client_config_default_def str_def)
  moreover have "unify_addr_from_str (\<lambda>s. None :: nat option) (\<lambda>s. None) (str ''/tmp/s'') = Return (Some (Addr_Path (str ''/tmp/s'')))"
    by (simp add: unify_addr_from_str_def str_def)
  ultimately show ?thesis
    using runtimes_connect [of client_config_default "str ''/tmp/s''" "io_connect (client_io ?io)"] by fastforce
qed

end
