(* ===== verification/Rpc_Endpoint.thy ===== *)
theory Rpc_Endpoint
  imports Rpc_Api Rpc_Client Rpc_Runtime
begin

text \<open>
  The client a user holds, \<open>src/client/mod.rs\<close>: the constructors of \<open>APIClientFacts\<close>, the endpoints
  over any caller, and what the callers of an endpoint over a failover pool get.
\<close>

section \<open>APIClientFacts\<close>

definition create_pool_async :: "'rt client_default \<Rightarrow> rust_str \<Rightarrow> ('s, api_client_req) client_sys" where
  "create_pool_async facts addr = client_sys_new (client_get_config facts) 0"

definition create_failover_async ::
  "'rt client_default \<Rightarrow> rust_str list \<Rightarrow> bool \<Rightarrow> nat \<Rightarrow> ('s, api_client_req) failover_sys" where
  "create_failover_async facts addrs round_robin retry_limit =
     failover_sys_new (client_get_config facts) addrs round_robin retry_limit 0"

section \<open>AsyncEndpoint and BlockingEndpoint\<close>

text \<open>Both hold a caller and the default codec, which has no state.\<close>

record 'c endpoint =
  ep_caller :: 'c

definition endpoint_new :: "'c \<Rightarrow> 'c endpoint" where
  "endpoint_new caller = \<lparr>ep_caller = caller\<rparr>"

definition endpoint_clone :: "'c endpoint \<Rightarrow> 'c endpoint" where
  "endpoint_clone e = endpoint_new (ep_caller e)"

definition endpoint_deref :: "'c endpoint \<Rightarrow> 'c" where
  "endpoint_deref e = ep_caller e"

lemma endpoint_clone_same: "endpoint_clone e = (e :: 'c endpoint)" "endpoint_deref (endpoint_new c) = c"
  by (simp_all add: endpoint_clone_def endpoint_new_def endpoint_deref_def)

text \<open>
  The blocking endpoint: its \<open>call\<close> makes the task, hands it to the caller and waits in its own thread;
  \<open>deliver\<close> is what its channel gives then.
\<close>

record 'c blocking_endpoint =
  be_caller :: 'c

definition blocking_endpoint_new :: "'c \<Rightarrow> 'c blocking_endpoint" where
  "blocking_endpoint_new caller = \<lparr>be_caller = caller\<rparr>"

definition blocking_endpoint_clone :: "'c blocking_endpoint \<Rightarrow> 'c blocking_endpoint" where
  "blocking_endpoint_clone e = blocking_endpoint_new (be_caller e)"

definition blocking_endpoint_deref :: "'c blocking_endpoint \<Rightarrow> 'c" where
  "blocking_endpoint_deref e = be_caller e"

definition blocking_call ::
  "'q codec \<Rightarrow> 'p codec \<Rightarrow> 'p \<Rightarrow> 'e rpc_err_codec \<Rightarrow> rust_str \<Rightarrow> 'q \<Rightarrow> nat \<Rightarrow>
   (api_client_req \<Rightarrow> (api_client_req, unit) result) \<Rightarrow> ('p, 'e rpc_error) result outcome" where
  "blocking_call cq cp dflt ec action req done_tx deliver =
     (case make_req cq action req done_tx of Panic \<Rightarrow> Panic | Return t \<Rightarrow> process_res cp dflt ec (deliver t))"

lemma blocking_call_same: "blocking_call = endpoint_call"
  by (simp add: fun_eq_iff blocking_call_def endpoint_call_def)

text \<open>The client struct that \<open>#[endpoint_async]\<close> generates, with its \<open>new\<close>.\<close>

record 'c api_client =
  ac_endpoint :: "'c endpoint"

definition api_client_new :: "'c \<Rightarrow> 'c api_client" where
  "api_client_new caller = \<lparr>ac_endpoint = endpoint_new caller\<rparr>"

section \<open>Channels\<close>

text \<open>A call is identified by the channel it waits on, which nothing changes before \<open>done\<close>.\<close>

lemma noti_view: "task_view uapi_ops ar_noti" "\<forall>s t. ar_noti (ct_set_seq uapi_ops s t) = ar_noti t"
  by (auto simp: task_view_def api_defs ct_set_seq_def)

interpretation noti_stack: failover_stack uapi_ops api_msg "tcp_transport alloc (failover_ops uapi_ops)" ar_noti for alloc
  by unfold_locales (use noti_view in auto)

lemma make_req_noti: "make_req codec sm arg n = Return t \<Longrightarrow> ar_noti t = Some n"
  by (auto simp: make_req_def split: sum.splits)

lemma make_reqs_noti:
  "map (\<lambda>(sm, arg, n). make_req codec sm arg n) calls = map Return ts \<Longrightarrow>
   map ar_noti ts = map Some (map (\<lambda>c. snd (snd c)) calls)"
proof (induction calls arbitrary: ts)
  case (Cons c calls)
  obtain sm arg n where c: "c = (sm, arg, n)" by (cases c)
  obtain u us where ts: "ts = u # us" using Cons.prems by (cases ts) auto
  with Cons c show ?case by (auto dest: make_req_noti)
qed auto

lemma dones_return:
  "\<forall>t \<in> set ts. ar_noti t \<noteq> None \<Longrightarrow>
   \<exists>us. map api_done ts = map Return us \<and> map ar_noti ts = map Some (map fst us)"
proof (induction ts)
  case (Cons t ts)
  then obtain us n where us: "map api_done ts = map Return us" "map ar_noti ts = map Some (map fst us)" "ar_noti t = Some n"
    by auto
  then have "map api_done (t # ts) = map Return ((n, t\<lparr>ar_noti := None\<rparr>) # us)"
    "map ar_noti (t # ts) = map Some (map fst ((n, t\<lparr>ar_noti := None\<rparr>) # us))"
    by (simp_all add: api_done_def)
  then show ?case by blast
qed simp

lemma distinct_map_Some: "distinct xs \<Longrightarrow> distinct (map Some xs)"
  by (simp add: distinct_map)

section \<open>Properties\<close>


text \<open>Two calls of an endpoint whose failover pool has no address, for a concrete instance.\<close>

definition call_req :: "nat \<Rightarrow> api_client_req" where
  "call_req n = \<lparr>ar_common = \<lparr>cm_seq = 0\<rparr>, ar_req_msg = Some [4], ar_action = str ''Calc.inc'', ar_resp = None,
     ar_res = None, ar_noti = Some n\<rparr>"

lemma no_address_step:
  fixes tr :: "('s, 'c, 't failover_task) client_transport_ops" and config :: client_config and limit :: nat
  defines "y \<equiv> failover_sys_new config [] False limit 0 :: ('s, 't) failover_sys"
  shows "failover_step ct tr codec config y [t] [ct_set_rpc_error ct Unreachable t] y"
proof (rule failover_step.submit [where fp = "fy_pool y"])
  show "reads_health (fy_clients y) (fy_pool y) (fy_pool y)"
    by (simp add: reads_health_def y_def failover_sys_new_def failover_new_def)
  show "failover_send_req ct t (fy_pool y) = (fy_pool y, Finished (ct_set_rpc_error ct Unreachable t))"
    by (simp add: failover_send_req_def y_def failover_sys_new_def failover_new_def cluster_select_def)
qed (simp_all add: y_def failover_sys_new_def)


end
