(* ===== verification/Rpc_Gen_Task.thy ===== *)
theory Rpc_Gen_Task
  imports Rpc_Server_Task
begin

text \<open>
  The tasks that the macros of \<open>stream/macros\<close> generate: the implementations of the client task
  traits for a struct (\<open>#[client_task]\<close>, \<open>client_task.rs\<close>), their delegation from an enum
  (\<open>#[client_task_enum]\<close>, \<open>client_task_enum.rs\<close>) and the decoding, encoding and completion of a
  server task enum (\<open>#[server_task_enum]\<close>, \<open>server_task_enum.rs\<close>). An enum is shown with two
  variants; one with more is the same code with more arms, which nesting gives.
\<close>

section \<open>A client task struct\<close>

text \<open>
  The fields the attributes mark. The blob of the response is an \<open>Option<io_buffer::Buffer>\<close>, its
  size and capacity with the bytes read into it; \<open>gt_action\<close> is the field marked \<open>action\<close>, a
  \<open>String\<close> or a number.
\<close>

record ('q, 'p, 'e) gen_task =
  gt_common :: client_task_common
  gt_req :: 'q
  gt_resp :: "'p option"
  gt_req_blob :: bytes
  gt_resp_blob :: "rvec option"
  gt_resp_data :: bytes
  gt_action :: rpc_action
  gt_res :: "(unit, 'e rpc_error) result option"
  gt_noti :: "nat option"

text \<open>
  What the attributes select: an action fixed by \<open>#[client_task(..)]\<close>, and whether there are blob
  fields.
\<close>

record gen_attrs =
  ga_action :: "rpc_action option"
  ga_req_blob :: bool
  ga_resp_blob :: bool

definition gen_get_action :: "gen_attrs \<Rightarrow> ('q, 'p, 'e) gen_task \<Rightarrow> rpc_action" where
  "gen_get_action at t = (case ga_action at of Some a \<Rightarrow> a | None \<Rightarrow> gt_action t)"

definition gen_encode_req :: "'q codec \<Rightarrow> ('q, 'p, 'e) gen_task \<Rightarrow> bytes \<Rightarrow> bytes \<times> (nat, unit) result" where
  "gen_encode_req codec t buf = cd_encode_into codec (gt_req t) buf"

definition gen_get_req_blob :: "gen_attrs \<Rightarrow> ('q, 'p, 'e) gen_task \<Rightarrow> bytes option" where
  "gen_get_req_blob at t = (if ga_req_blob at then Some (gt_req_blob t) else None)"

definition gen_decode_resp ::
  "'p codec \<Rightarrow> ('q, 'p, 'e) gen_task \<Rightarrow> bytes \<Rightarrow> ('q, 'p, 'e) gen_task \<times> (unit, unit) result" where
  "gen_decode_resp codec t buf =
     (case cd_decode codec buf of
        Inl _ \<Rightarrow> (t, Err ())
      | Inr resp \<Rightarrow> (t\<lparr>gt_resp := Some resp\<rparr>, Ok ()))"

definition gen_reserve_resp_blob ::
  "(i32 \<Rightarrow> rvec option) \<Rightarrow> gen_attrs \<Rightarrow> ('q, 'p, 'e) gen_task \<Rightarrow> i32 \<Rightarrow> ('q, 'p, 'e) gen_task \<times> nat option" where
  "gen_reserve_resp_blob alloc at t blob_len =
     (if ga_resp_blob at then
        (case reserve_opt_buffer alloc (gt_resp_blob t) blob_len of
           None \<Rightarrow> (t, None)
         | Some v \<Rightarrow> (t\<lparr>gt_resp_blob := Some v\<rparr>, Some (rlen v)))
      else (t, None))"

definition gen_get_result :: "('q, 'p, 'e) gen_task \<Rightarrow> (unit, 'e rpc_error) result" where
  "gen_get_result t =
     (case gt_res t of
        Some (Inr _) \<Rightarrow> Ok ()
      | Some (Inl e) \<Rightarrow> Err e
      | None \<Rightarrow> Err (Rpc_Int Internal))"

definition gen_set_custom_error ::
  "'e rpc_err_codec \<Rightarrow> encoded_err \<Rightarrow> ('q, 'p, 'e) gen_task \<Rightarrow> ('q, 'p, 'e) gen_task" where
  "gen_set_custom_error ec res t =
     (let rpc_error =
        (case res of
           Enc_Rpc e \<Rightarrow> rpc_error_from_int e
         | Enc_Num n \<Rightarrow>
             (case err_decode ec (Inr n) of Some e \<Rightarrow> rpc_error_from_user e | None \<Rightarrow> rpc_error_from_int Decode)
         | Enc_Static s \<Rightarrow>
             (case err_decode ec (Inl s) of Some e \<Rightarrow> rpc_error_from_user e | None \<Rightarrow> rpc_error_from_int Decode)
         | Enc_Buf b \<Rightarrow>
             (case err_decode ec (Inl b) of Some e \<Rightarrow> rpc_error_from_user e | None \<Rightarrow> rpc_error_from_int Decode)) in
      t\<lparr>gt_res := Some (Err rpc_error)\<rparr>)"

definition gen_set_rpc_error :: "rpc_int_err \<Rightarrow> ('q, 'p, 'e) gen_task \<Rightarrow> ('q, 'p, 'e) gen_task" where
  "gen_set_rpc_error e t = t\<lparr>gt_res := Some (Err (rpc_error_from_int e))\<rparr>"

definition gen_set_ok :: "('q, 'p, 'e) gen_task \<Rightarrow> ('q, 'p, 'e) gen_task" where
  "gen_set_ok t = t\<lparr>gt_res := Some (Ok ())\<rparr>"

text \<open>\<open>done\<close> sends the task on its channel, when it still has one.\<close>

definition gen_done :: "('q, 'p, 'e) gen_task \<Rightarrow> (nat \<times> ('q, 'p, 'e) gen_task) option" where
  "gen_done t = (case gt_noti t of Some noti \<Rightarrow> Some (noti, t\<lparr>gt_noti := None\<rparr>) | None \<Rightarrow> None)"

text \<open>The generated implementations together, with \<open>MsgpCodec\<close> at the request's and the response's type.\<close>

definition gen_ops ::
  "(i32 \<Rightarrow> rvec option) \<Rightarrow> gen_attrs \<Rightarrow> 'e rpc_err_codec \<Rightarrow>
   ('q rmp \<times> 'p rmp, ('q, 'p, 'e) gen_task) client_task_ops" where
  "gen_ops alloc at ec =
     \<lparr>ct_common = gt_common,
      ct_common_mut = (\<lambda>f t. t\<lparr>gt_common := f (gt_common t)\<rparr>),
      ct_get_action = gen_get_action at,
      ct_encode_req = (\<lambda>(rq, rp). gen_encode_req (msgp_codec rq)),
      ct_get_req_blob = gen_get_req_blob at,
      ct_decode_resp = (\<lambda>(rq, rp). gen_decode_resp (msgp_codec rp)),
      ct_reserve_resp_blob = gen_reserve_resp_blob alloc at,
      ct_fill_resp_blob = (\<lambda>bs t. t\<lparr>gt_resp_data := bs\<rparr>),
      ct_set_custom_error = (\<lambda>_. gen_set_custom_error ec),
      ct_set_rpc_error = gen_set_rpc_error,
      ct_set_ok = gen_set_ok\<rparr>"

definition gen_msg :: "'q rmp \<times> 'p rmp \<Rightarrow> ('q, 'p, 'e) gen_task \<Rightarrow> bytes" where
  "gen_msg c t = fst (write_named (fst c) (gt_req t))"

lemmas gen_defs = gen_ops_def gen_get_action_def gen_encode_req_def gen_get_req_blob_def gen_decode_resp_def
  gen_reserve_resp_blob_def gen_set_custom_error_def gen_set_rpc_error_def gen_set_ok_def gen_msg_def

interpretation gen: client_task "gen_ops alloc at ec" gen_msg for alloc at ec
  by unfold_locales
     (auto simp: gen_defs msgp_codec_def msgp_encode_into_def Let_def
       split: prod.splits if_splits option.splits sum.splits)

section \<open>A client task enum\<close>

datatype ('a, 'b) task_enum = Variant_A 'a | Variant_B 'b

text \<open>
  Every method delegates to the variant; \<open>get_action\<close> is the action of the variant's attribute when it
  has one. The two \<open>From\<close> implementations are the constructors.
\<close>

definition enum_get_action ::
  "rpc_action option \<Rightarrow> rpc_action option \<Rightarrow> ('a \<Rightarrow> rpc_action) \<Rightarrow> ('b \<Rightarrow> rpc_action) \<Rightarrow> ('a, 'b) task_enum \<Rightarrow> rpc_action" where
  "enum_get_action aa ab ga gb t =
     (case t of
        Variant_A inner \<Rightarrow> (case aa of Some a \<Rightarrow> a | None \<Rightarrow> ga inner)
      | Variant_B inner \<Rightarrow> (case ab of Some a \<Rightarrow> a | None \<Rightarrow> gb inner))"

definition client_enum_get_result ::
  "('a \<Rightarrow> (unit, 'e rpc_error) result) \<Rightarrow> ('b \<Rightarrow> (unit, 'e rpc_error) result) \<Rightarrow> ('a, 'b) task_enum \<Rightarrow>
   (unit, 'e rpc_error) result" where
  "client_enum_get_result ra rb t = (case t of Variant_A inner \<Rightarrow> ra inner | Variant_B inner \<Rightarrow> rb inner)"

definition client_enum_done :: "('a \<Rightarrow> 'o) \<Rightarrow> ('b \<Rightarrow> 'o) \<Rightarrow> ('a, 'b) task_enum \<Rightarrow> 'o" where
  "client_enum_done da db t = (case t of Variant_A inner \<Rightarrow> da inner | Variant_B inner \<Rightarrow> db inner)"

definition client_enum_ops ::
  "rpc_action option \<Rightarrow> rpc_action option \<Rightarrow> ('c, 'a) client_task_ops \<Rightarrow> ('d, 'b) client_task_ops \<Rightarrow>
   ('c \<times> 'd, ('a, 'b) task_enum) client_task_ops" where
  "client_enum_ops aa ab oa ob =
     \<lparr>ct_common = case_task_enum (ct_common oa) (ct_common ob),
      ct_common_mut = (\<lambda>f. map_task_enum (ct_common_mut oa f) (ct_common_mut ob f)),
      ct_get_action = enum_get_action aa ab (ct_get_action oa) (ct_get_action ob),
      ct_encode_req = (\<lambda>c. case_task_enum (ct_encode_req oa (fst c)) (ct_encode_req ob (snd c))),
      ct_get_req_blob = case_task_enum (ct_get_req_blob oa) (ct_get_req_blob ob),
      ct_decode_resp = (\<lambda>c t bs. case t of
          Variant_A x \<Rightarrow> (case ct_decode_resp oa (fst c) x bs of (x, r) \<Rightarrow> (Variant_A x, r))
        | Variant_B y \<Rightarrow> (case ct_decode_resp ob (snd c) y bs of (y, r) \<Rightarrow> (Variant_B y, r))),
      ct_reserve_resp_blob = (\<lambda>t n. case t of
          Variant_A x \<Rightarrow> (case ct_reserve_resp_blob oa x n of (x, r) \<Rightarrow> (Variant_A x, r))
        | Variant_B y \<Rightarrow> (case ct_reserve_resp_blob ob y n of (y, r) \<Rightarrow> (Variant_B y, r))),
      ct_fill_resp_blob = (\<lambda>bs. map_task_enum (ct_fill_resp_blob oa bs) (ct_fill_resp_blob ob bs)),
      ct_set_custom_error = (\<lambda>c e. map_task_enum (ct_set_custom_error oa (fst c) e) (ct_set_custom_error ob (snd c) e)),
      ct_set_rpc_error = (\<lambda>e. map_task_enum (ct_set_rpc_error oa e) (ct_set_rpc_error ob e)),
      ct_set_ok = map_task_enum (ct_set_ok oa) (ct_set_ok ob)\<rparr>"

definition enum_msg :: "('c \<Rightarrow> 'a \<Rightarrow> bytes) \<Rightarrow> ('d \<Rightarrow> 'b \<Rightarrow> bytes) \<Rightarrow> 'c \<times> 'd \<Rightarrow> ('a, 'b) task_enum \<Rightarrow> bytes" where
  "enum_msg ma mb c = case_task_enum (ma (fst c)) (mb (snd c))"

text \<open>An enum over two types that keep the contract of a client task keeps it.\<close>

locale client_enum = va: client_task oa ma + vb: client_task ob mb
  for oa :: "('c, 'a) client_task_ops" and ma and ob :: "('d, 'b) client_task_ops" and mb
begin

lemma enum_client_task: "client_task (client_enum_ops aa ab oa ob) (enum_msg ma mb)"
  by unfold_locales
     (auto simp: client_enum_ops_def enum_msg_def enum_get_action_def va.common_mut vb.common_mut va.action_mut
       vb.action_mut va.blob_mut vb.blob_mut va.msg_mut vb.msg_mut va.encode_req vb.encode_req va.common_rpc_error
       vb.common_rpc_error va.common_custom_error vb.common_custom_error va.common_ok vb.common_ok va.common_fill
       vb.common_fill dest: va.common_decode vb.common_decode va.common_reserve vb.common_reserve
       split: task_enum.splits option.splits prod.splits)

end

sublocale client_enum \<subseteq> both: client_task "client_enum_ops aa ab oa ob" "enum_msg ma mb" for aa ab
  by (rule enum_client_task)

interpretation gen_enum: client_enum "gen_ops alloc at ec" gen_msg "gen_ops alloc' at' ec'" gen_msg
  for alloc at ec alloc' at' ec'
  by unfold_locales

section \<open>A server task enum\<close>

text \<open>
  \<open>as\<close> and \<open>bs\<close> are the actions of the \<open>#[action(..)]\<close> attributes of the two variants, neither empty. The
  arms of \<open>decode_req\<close> are tried in the order of the variants.
\<close>

type_synonym ('c, 't) server_decode =
  "'c \<Rightarrow> rpc_action \<Rightarrow> u64 \<Rightarrow> bytes \<Rightarrow> bytes option \<Rightarrow> nat \<Rightarrow> ('t, unit) result"

definition decode_arm :: "('t \<Rightarrow> 'u) \<Rightarrow> ('c, 't) server_decode \<Rightarrow> ('c, 'u) server_decode" where
  "decode_arm variant decode codec action seq req blob noti =
     (case decode codec action seq req blob noti of Inl _ \<Rightarrow> Err () | Inr task \<Rightarrow> Ok (variant task))"

definition server_enum_decode ::
  "rpc_action list \<Rightarrow> rpc_action list \<Rightarrow> ('c, 'a) server_decode \<Rightarrow> ('d, 'b) server_decode \<Rightarrow>
   ('c \<times> 'd, ('a, 'b) task_enum) server_decode" where
  "server_enum_decode as bs da db codec action seq req blob noti =
     (if action \<in> set as then decode_arm Variant_A da (fst codec) action seq req blob noti
      else if action \<in> set bs then decode_arm Variant_B db (snd codec) action seq req blob noti
      else Err ())"

definition server_enum_get_action ::
  "rpc_action list \<Rightarrow> rpc_action list \<Rightarrow> ('a \<Rightarrow> rpc_action) \<Rightarrow> ('b \<Rightarrow> rpc_action) \<Rightarrow> ('a, 'b) task_enum \<Rightarrow> rpc_action" where
  "server_enum_get_action as bs ga gb t =
     (case t of
        Variant_A inner \<Rightarrow> (if length as = 1 then as ! 0 else ga inner)
      | Variant_B inner \<Rightarrow> (if length bs = 1 then bs ! 0 else gb inner))"

definition server_enum_encode ::
  "('c, 'a) server_encode \<Rightarrow> ('d, 'b) server_encode \<Rightarrow> ('c \<times> 'd, ('a, 'b) task_enum) server_encode" where
  "server_enum_encode ea eb codec t buf =
     (case t of
        Variant_A task \<Rightarrow> map_outcome_value (\<lambda>(buf, task, r). (buf, Variant_A task, r)) (ea (fst codec) task buf)
      | Variant_B task \<Rightarrow> map_outcome_value (\<lambda>(buf, task, r). (buf, Variant_B task, r)) (eb (snd codec) task buf))"

definition server_enum_set_result ::
  "((unit, 'e) result \<Rightarrow> 'a \<Rightarrow> ('a \<times> nat) outcome) \<Rightarrow> ((unit, 'e) result \<Rightarrow> 'b \<Rightarrow> ('b \<times> nat) outcome) \<Rightarrow>
   (unit, 'e) result \<Rightarrow> ('a, 'b) task_enum \<Rightarrow> (('a, 'b) task_enum \<times> nat) outcome" where
  "server_enum_set_result ra rb res t =
     (case t of
        Variant_A task \<Rightarrow> map_outcome_value (\<lambda>(task, noti). (Variant_A task, noti)) (ra res task)
      | Variant_B task \<Rightarrow> map_outcome_value (\<lambda>(task, noti). (Variant_B task, noti)) (rb res task))"

text \<open>An enum of two response tasks answers what its variant answers.\<close>

locale server_enum = sa: server_task ea ca qa aa + sb: server_task eb cb qb ab
  for ea :: "('c, 'a) server_encode" and ca qa aa and eb :: "('d, 'b) server_encode" and cb qb ab
begin

lemma enum_server_task:
  "server_task (server_enum_encode ea eb) (ca, cb) (case_task_enum qa qb) (case_task_enum aa ab)"
proof
  fix t :: "('a, 'b) task_enum" and m b buf
  assume "case_task_enum aa ab t = Some (Resp_Ok m b)"
  then show "\<exists>t'. server_enum_encode ea eb (ca, cb) t buf = Return (buf @ m, t', case_task_enum qa qb t, Ok (length m, b))"
    using sa.answer_ok [of _ m b buf] sb.answer_ok [of _ m b buf]
    by (cases t) (fastforce simp: server_enum_encode_def)+
next
  fix t :: "('a, 'b) task_enum" and e buf
  assume "case_task_enum aa ab t = Some (Resp_Err e)"
  then show "\<exists>t'. server_enum_encode ea eb (ca, cb) t buf = Return (buf, t', case_task_enum qa qb t, Err e)"
    using sa.answer_err [of _ e buf] sb.answer_err [of _ e buf]
    by (cases t) (fastforce simp: server_enum_encode_def)+
qed

end

sublocale server_enum \<subseteq> either: server_task "server_enum_encode ea eb" "(ca, cb)" "case_task_enum qa qb" "case_task_enum aa ab"
  by (rule enum_server_task)

interpretation senum: server_enum "variant_encode_resp ec" "msgp_codec r" sv_seq "variant_answer ec r"
  "full_encode_resp ec'" "msgp_codec r'" sf_seq "full_answer ec' r'" for ec r ec' r'
  by unfold_locales

section \<open>Properties\<close>

text \<open>
  A server task enum decodes a request into the first variant whose attribute lists its action, keeps
  its number, and reports that action back from \<open>get_action\<close>, whether the variant has one action or
  several; a request whose action no variant lists is refused.
\<close>

theorem server_enum_action:
  "case server_enum_decode as bs variant_decode_req full_decode_req (ca, cb) a seq m b noti of
     Inr t \<Rightarrow> server_enum_get_action as bs variant_get_action full_get_action t = a \<and>
       case_task_enum sv_seq sf_seq t = seq \<and>
       (case t of Variant_A x \<Rightarrow> a \<in> set as | Variant_B y \<Rightarrow> a \<in> set bs - set as)
   | Inl _ \<Rightarrow> a \<in> set as \<and> cd_decode ca m = Err () \<or> a \<in> set bs - set as \<and> cd_decode cb m = Err () \<or>
       a \<notin> set as \<union> set bs"
proof -
  have one: "length l = 1 \<Longrightarrow> a \<in> set l \<Longrightarrow> l ! 0 = a" for l by (cases l) auto
  show ?thesis
    using one [of as] one [of bs]
    by (auto simp: server_enum_decode_def decode_arm_def server_enum_get_action_def variant_decode_req_def full_decode_req_def
        variant_get_action_def full_get_action_def split: sum.split)
qed

theorem server_enum_action_witness:
  "\<exists>x. server_enum_decode [Act_Num 1, Act_Num 2] [Act_Str [120]] variant_decode_req full_decode_req
      (msgp_codec byte_rmp, msgp_codec byte_rmp) (Act_Num 2) 9 [5] None 0 = Ok (Variant_A x) \<and> variant_get_action x = Act_Num 2"
  using server_enum_action [where as = "[Act_Num 1, Act_Num 2]" and bs = "[Act_Str [120]]" and ca = "msgp_codec byte_rmp"
      and cb = "msgp_codec byte_rmp" and a = "Act_Num 2" and seq = 9 and m = "[5]" and b = None and noti = 0]
  by (auto simp: server_enum_decode_def decode_arm_def server_enum_get_action_def variant_decode_req_def msgp_codec_def msgp_decode_def
      byte_rmp_def)

end
