(* ===== verification/Rpc_Macro.thy ===== *)
theory Rpc_Macro
  imports Rpc_Api Rpc_Gen_Task
begin

text \<open>
  What the macros make of the items they are applied to: \<open>#[endpoint_async]\<close> and \<open>#[service]\<close> of \<open>macros\<close>,
  \<open>#[client_task]\<close>, \<open>#[client_task_enum]\<close> and \<open>#[server_task_enum]\<close> of \<open>stream/macros\<close>. The input is
  the parsed item, the output what the generated code is made from; a panic of a macro is a compile
  error. The parts of the syntax tree the macros look at are the data types below.
\<close>

section \<open>Syntax\<close>

text \<open>
  A path type has its qualified self and its leading colons recorded, which one check asks for.
\<close>

datatype ty = Ty_Path bool bool "seg list" | Ty_Tuple "ty list" | Ty_Impl "bound list" | Ty_Other
  and seg = Seg (seg_ident: string) (seg_args: path_args)
  and path_args = No_Args | Angle "generic_arg list" | Paren_Args
  and generic_arg = Arg_Type ty | Arg_Binding string ty | Arg_Other
  and bound = Bound_Trait "seg list" | Bound_Other

datatype fn_arg = Receiver | Typed "string option" ty

text \<open>A signature: \<open>None\<close> as the output is a function that returns nothing.\<close>

record fn_sig =
  fs_ident :: string
  fs_async :: bool
  fs_inputs :: "fn_arg list"
  fs_output :: "ty option"

definition last_opt :: "'a list \<Rightarrow> 'a option" where
  "last_opt xs = (if xs = [] then None else Some (last xs))"

section \<open>Return types\<close>

fun find_output :: "generic_arg list \<Rightarrow> ty option" where
  "find_output [] = None"
| "find_output (Arg_Binding i t # as) = (if i = ''Output'' then Some t else find_output as)"
| "find_output (_ # as) = find_output as"

fun bound_output :: "bound \<Rightarrow> ty option" where
  "bound_output (Bound_Trait segs) =
     (case last_opt segs of
        Some (Seg i (Angle as)) \<Rightarrow> (if i = ''Future'' then find_output as else None)
      | _ \<Rightarrow> None)"
| "bound_output Bound_Other = None"

fun first_output :: "bound list \<Rightarrow> ty option" where
  "first_output [] = None"
| "first_output (b # bs) = (case bound_output b of Some t \<Rightarrow> Some t | None \<Rightarrow> first_output bs)"

fun get_result_type_from_future :: "ty \<Rightarrow> ty option" where
  "get_result_type_from_future (Ty_Impl bs) = first_output bs"
| "get_result_type_from_future _ = None"

fun check_result_type :: "ty \<Rightarrow> bool" where
  "check_result_type (Ty_Path _ _ segs) =
     (case last_opt segs of
        Some (Seg i (Angle [_, Arg_Type (Ty_Path _ _ es)])) \<Rightarrow>
          i = ''Result'' \<and> (case last_opt es of Some e \<Rightarrow> seg_ident e = ''RpcError'' | None \<Rightarrow> False)
      | _ \<Rightarrow> False)"
| "check_result_type _ = False"

definition check_return_type :: "ty option \<Rightarrow> bool \<Rightarrow> bool" where
  "check_return_type return_type returns_impl_future =
     (if returns_impl_future then
        (case return_type of
           Some t \<Rightarrow> (case get_result_type_from_future t of Some out \<Rightarrow> check_result_type out | None \<Rightarrow> False)
         | None \<Rightarrow> False)
      else (case return_type of Some t \<Rightarrow> check_result_type t | None \<Rightarrow> False))"

definition returns_impl_future :: "fn_sig \<Rightarrow> bool" where
  "returns_impl_future s =
     (case fs_output s of Some t \<Rightarrow> get_result_type_from_future t \<noteq> None | None \<Rightarrow> False)"

section \<open>endpoint\_async\<close>

datatype trait_item = Trait_Method fn_sig | Trait_Other

text \<open>
  A generated client method: its name, the action it calls, whether it takes an argument, and whether
  it is written as an \<open>async fn\<close> or as a function returning a future.
\<close>

record client_method =
  cme_name :: string
  cme_action :: rust_str
  cme_arg :: "ty option"
  cme_async :: bool

definition endpoint_method :: "string \<Rightarrow> fn_sig \<Rightarrow> client_method outcome" where
  "endpoint_method trait_name s =
     (if length (fs_inputs s) = 1 then Panic
      else if length (fs_inputs s) = 2 then
        (let arg = (case fs_inputs s ! 1 of Typed (Some i) t \<Rightarrow> Some t | _ \<Rightarrow> None) in
         if \<not> check_return_type (fs_output s) (returns_impl_future s) then Panic
         else Return \<lparr>cme_name = fs_ident s, cme_action = service_method (str trait_name) (str (fs_ident s)),
                      cme_arg = arg, cme_async = \<not> returns_impl_future s\<rparr>)
      else Panic)"

fun generate_trait_impl :: "string \<Rightarrow> trait_item list \<Rightarrow> client_method list outcome" where
  "generate_trait_impl trait_name [] = Return []"
| "generate_trait_impl trait_name (Trait_Other # items) = generate_trait_impl trait_name items"
| "generate_trait_impl trait_name (Trait_Method s # items) =
     (case endpoint_method trait_name s of
        Panic \<Rightarrow> Panic
      | Return m \<Rightarrow> map_outcome_value (\<lambda>ms. m # ms) (generate_trait_impl trait_name items))"

text \<open>
  The whole macro: from the trait with the paths of its attributes, and the name of the client, the
  client struct of that name, whose \<open>new\<close> wraps a caller into an endpoint, and its implementation of
  the trait, marked \<open>async_trait\<close> when the trait is.
\<close>

record item_trait =
  it_name :: string
  it_attrs :: "string list list"
  it_items :: "trait_item list"

record client_item =
  ci_name :: string
  ci_trait :: string
  ci_async_trait :: bool
  ci_methods :: "client_method list"

definition has_async_trait :: "item_trait \<Rightarrow> bool" where
  "has_async_trait t = list_ex (\<lambda>path. list_ex (\<lambda>segment. segment = ''async_trait'') path) (it_attrs t)"

definition endpoint_async :: "string \<Rightarrow> item_trait \<Rightarrow> client_item outcome" where
  "endpoint_async client_name t =
     map_outcome_value
       (\<lambda>ms. \<lparr>ci_name = client_name, ci_trait = it_name t, ci_async_trait = has_async_trait t, ci_methods = ms\<rparr>)
       (generate_trait_impl (it_name t) (it_items t))"

section \<open>service\<close>

text \<open>A method of an \<open>impl\<close> block, with whether it carries \<open>#[method]\<close>.\<close>

datatype impl_item = Impl_Method bool fn_sig | Impl_Other

record item_impl =
  ii_trait :: "seg list option"
  ii_self_ty :: ty
  ii_items :: "impl_item list"

definition service_name :: "item_impl \<Rightarrow> string outcome" where
  "service_name it =
     (case ii_trait it of
        Some path \<Rightarrow> (case last_opt path of Some s \<Rightarrow> Return (seg_ident s) | None \<Rightarrow> Panic)
      | None \<Rightarrow>
          (case ii_self_ty it of
             Ty_Path _ _ segs \<Rightarrow> (case last_opt segs of Some s \<Rightarrow> Return (seg_ident s) | None \<Rightarrow> Panic)
           | _ \<Rightarrow> Panic))"

fun first_typed :: "fn_arg list \<Rightarrow> ty option" where
  "first_typed [] = None"
| "first_typed (Typed _ t # as) = Some t"
| "first_typed (Receiver # as) = first_typed as"

definition returns_pin_box_future :: "fn_sig \<Rightarrow> bool" where
  "returns_pin_box_future s =
     (case fs_output s of
        Some (Ty_Path _ _ segs) \<Rightarrow>
          (case last_opt segs of Some g \<Rightarrow> seg_ident g = ''Pin'' \<and> 1 < length segs | None \<Rightarrow> False)
      | _ \<Rightarrow> False)"

definition service_method_data :: "fn_sig \<Rightarrow> (string \<times> ty) outcome" where
  "service_method_data s =
     (case first_typed (fs_inputs s) of
        None \<Rightarrow> Panic
      | Some arg_ty \<Rightarrow>
          (if fs_async s \<or> returns_pin_box_future s \<or> returns_impl_future s then Return (fs_ident s, arg_ty)
           else Panic))"

fun service_methods :: "bool \<Rightarrow> impl_item list \<Rightarrow> (string \<times> ty) list outcome" where
  "service_methods is_trait [] = Return []"
| "service_methods is_trait (Impl_Other # items) = service_methods is_trait items"
| "service_methods is_trait (Impl_Method marked s # items) =
     (if is_trait \<or> marked then
        (case service_method_data s of
           Panic \<Rightarrow> Panic
         | Return d \<Rightarrow> map_outcome_value (\<lambda>ds. d # ds) (service_methods is_trait items))
      else service_methods is_trait items)"

text \<open>
  The service that \<open>#[service]\<close> generates: \<open>handler\<close> is the handler generated for a method of the given
  name and argument type.
\<close>

definition service_expand :: "(string \<Rightarrow> ty \<Rightarrow> api_handler) \<Rightarrow> item_impl \<Rightarrow> service outcome" where
  "service_expand handler it =
     (case service_name it of
        Panic \<Rightarrow> Panic
      | Return name \<Rightarrow>
          (case service_methods (ii_trait it \<noteq> None) (ii_items it) of
             Panic \<Rightarrow> Panic
           | Return ds \<Rightarrow>
               Return \<lparr>svc_name = str name, svc_serve = service_serve (map (\<lambda>(m, t). (str m, handler m t)) ds)\<rparr>))"

section \<open>Client and service agree\<close>

fun trait_sigs :: "trait_item list \<Rightarrow> fn_sig list" where
  "trait_sigs [] = []"
| "trait_sigs (Trait_Method s # items) = s # trait_sigs items"
| "trait_sigs (Trait_Other # items) = trait_sigs items"

fun impl_sigs :: "impl_item list \<Rightarrow> fn_sig list" where
  "impl_sigs [] = []"
| "impl_sigs (Impl_Method _ s # items) = s # impl_sigs items"
| "impl_sigs (Impl_Other # items) = impl_sigs items"

lemma generate_names:
  "generate_trait_impl tn items = Return ms \<Longrightarrow> map cme_name ms = map fs_ident (trait_sigs items) \<and>
     (\<forall>m \<in> set ms. cme_action m = service_method (str tn) (str (cme_name m)))"
proof (induction items arbitrary: ms rule: trait_sigs.induct)
  case (2 s items)
  then obtain m ms' where m: "endpoint_method tn s = Return m" "generate_trait_impl tn items = Return ms'" "ms = m # ms'"
    by (auto split: outcome.splits)
  moreover have "cme_name m = fs_ident s" "cme_action m = service_method (str tn) (str (cme_name m))"
    using m(1) by (auto simp: endpoint_method_def Let_def split: if_splits)
  ultimately show ?case using 2 by auto
qed auto

lemma service_methods_names:
  "service_methods True items = Return ds \<Longrightarrow> map fst ds = map fs_ident (impl_sigs items)"
proof (induction items arbitrary: ds rule: impl_sigs.induct)
  case (2 marked s items)
  then obtain d ds' where d: "service_method_data s = Return d" "service_methods True items = Return ds'" "ds = d # ds'"
    by (auto split: outcome.splits)
  moreover have "fst d = fs_ident s"
    using d(1) by (auto simp: service_method_data_def split: option.splits if_splits)
  ultimately show ?case using 2 by auto
qed auto

text \<open>
  C31: the client generated from a trait and the service generated from an implementation of that trait fit
  together: the service has the name of the trait, and for every method of the client the action it
  calls is split into that name and the method's name, for which the service runs the handler of
  that method.
\<close>

theorem endpoint_service_agree:
  assumes "generate_trait_impl tn items = Return ms" and "service_expand handler it = Return svc"
    and "ii_trait it = Some path" and "last_opt path = Some (Seg tn args)" and "dot \<notin> set (str tn)"
    and "set (map fs_ident (trait_sigs items)) \<subseteq> set (map fs_ident (impl_sigs (ii_items it)))"
    and "distinct (map fs_ident (impl_sigs (ii_items it)))" and "m \<in> set ms"
  shows "svc_name svc = str tn \<and> split_once dot (cme_action m) = Some (svc_name svc, str (cme_name m)) \<and>
    (\<exists>t. \<forall>req. aq_method req = str (cme_name m) \<longrightarrow> svc_serve svc req = handler (cme_name m) t req)"
proof -
  obtain ds where ds: "service_methods True (ii_items it) = Return ds"
    "svc = \<lparr>svc_name = str tn, svc_serve = service_serve (map (\<lambda>(m, t). (str m, handler m t)) ds)\<rparr>"
    using assms(2,3,4) by (auto simp: service_expand_def service_name_def split: outcome.splits)
  note names = service_methods_names [OF ds(1)] generate_names [OF assms(1)]
  have "cme_name m \<in> set (map fst ds)"
    using names assms(6,8) by (metis image_eqI in_mono list.set_map)
  then obtain t where t: "(cme_name m, t) \<in> set ds" by auto
  have "distinct (map fst (map (\<lambda>(m, t). (str m, handler m t)) ds))"
  proof -
    have "map fst (map (\<lambda>(m, t). (str m, handler m t)) ds) = map str (map fst ds)" by (auto simp: case_prod_beta)
    moreover have "inj_on str (set (map fst ds))" by (simp add: inj_on_def str_eq_iff)
    ultimately show ?thesis using names(1) assms(7) by (metis distinct_map)
  qed
  then have "map_of (map (\<lambda>(m, t). (str m, handler m t)) ds) (str (cme_name m)) = Some (handler (cme_name m) t)"
    using t by (intro map_of_is_SomeI) force+
  moreover have "cme_action m = service_method (str tn) (str (cme_name m))" using names(2) assms(8) by blast
  ultimately show ?thesis using ds(2) assms(5) by (auto simp: service_serve_def)
qed

text \<open>A trait with one method and an implementation of it, for a concrete instance.\<close>

definition path_ty :: "string \<Rightarrow> generic_arg list \<Rightarrow> ty" where
  "path_ty i as = Ty_Path False False [Seg i (if as = [] then No_Args else Angle as)]"

definition inc_sig :: fn_sig where
  "inc_sig = \<lparr>fs_ident = ''inc'', fs_async = True, fs_inputs = [Receiver, Typed (Some ''arg'') (path_ty ''u8'' [])],
     fs_output = Some (path_ty ''Result'' [Arg_Type (path_ty ''u8'' []),
       Arg_Type (path_ty ''RpcError'' [Arg_Type (path_ty ''String'' [])])])\<rparr>"

definition calc_impl :: item_impl where
  "calc_impl = \<lparr>ii_trait = Some [Seg ''api'' No_Args, Seg ''Calc'' No_Args], ii_self_ty = path_ty ''CalcImpl'' [],
     ii_items = [Impl_Method False inc_sig]\<rparr>"

definition inc_handler :: "string \<Rightarrow> ty \<Rightarrow> api_handler" where
  "inc_handler m t = handle_method (msgp_codec byte_rmp) (msgp_codec byte_rmp) codec_string inc"

theorem endpoint_service_agree_witness:
  "\<exists>m svc. generate_trait_impl ''Calc'' [Trait_Other, Trait_Method inc_sig] = Return [m] \<and>
     service_expand inc_handler calc_impl = Return svc \<and>
     split_once dot (cme_action m) = Some (svc_name svc, str ''inc'') \<and> svc_name svc = str ''Calc''"
proof -
  let ?m = "\<lparr>cme_name = ''inc'', cme_action = service_method (str ''Calc'') (str ''inc''),
      cme_arg = Some (path_ty ''u8'' []), cme_async = True\<rparr>"
  have g: "generate_trait_impl ''Calc'' [Trait_Other, Trait_Method inc_sig] = Return [?m]"
    by (simp add: endpoint_method_def inc_sig_def path_ty_def check_return_type_def returns_impl_future_def last_opt_def)
  obtain svc where s: "service_expand inc_handler calc_impl = Return svc"
    by (simp add: service_expand_def service_name_def calc_impl_def service_method_data_def inc_sig_def last_opt_def)
  have "ii_trait calc_impl = Some [Seg ''api'' No_Args, Seg ''Calc'' No_Args]"
    "last_opt [Seg ''api'' No_Args, Seg ''Calc'' No_Args] = Some (Seg ''Calc'' No_Args)" "dot \<notin> set (str ''Calc'')"
    by (simp_all add: calc_impl_def last_opt_def dot_def str_def)
  from endpoint_service_agree [OF g s this, of ?m] g s show ?thesis by (auto simp: calc_impl_def)
qed

end
