(* ===== verification/Rpc_Listen.thy ===== *)
theory Rpc_Listen
  imports Rpc_Server
begin

text \<open>
  The life of a server, \<open>RpcServer\<close> of \<open>stream/src/server/server.rs\<close>: the listeners and their accept
  loops, the shared counter of what is alive, and the graceful close with its bounded wait. What
  happens on a connection is the subject of \<open>Rpc_Server\<close>; here a connection is alive or gone.
\<close>

section \<open>RpcServer\<close>

text \<open>
  The state of a listener's coroutine. An aborted coroutine is dropped when it is next polled, and may
  still accept in a poll that is under way.
\<close>

datatype listener_state = L_Running | L_Aborted | L_Gone

text \<open>
  \<open>rs_ref_count\<close> is the strong count of \<open>conn_ref_count\<close>, of which the server, every accept loop and
  every connection hold one. \<open>rs_close_tx\<close> tells that the sender of the close channel is still there.
\<close>

record rpc_server =
  rs_listeners :: "(listener_state \<times> rust_str) list"
  rs_conns :: "nat list"
  rs_accepted :: nat
  rs_ref_count :: nat
  rs_close_tx :: bool

definition rs_new :: rpc_server where
  "rs_new = \<lparr>rs_listeners = [], rs_conns = [], rs_accepted = 0, rs_ref_count = 1, rs_close_tx = True\<rparr>"

text \<open>The accept loop is started with its clone of the counter, and its abort handle is kept.\<close>

definition rs_spawn :: "rust_str \<Rightarrow> rpc_server \<Rightarrow> rpc_server" where
  "rs_spawn addr s = s\<lparr>rs_ref_count := rs_ref_count s + 1, rs_listeners := rs_listeners s @ [(L_Running, addr)]\<rparr>"

text \<open>
  \<open>listen\<close>: \<open>bind\<close> and \<open>local_addr\<close> are the transport's listener; a Unix socket, which has no address, is
  reported with a dummy one.
\<close>

definition rs_listen ::
  "(rust_str \<Rightarrow> 'l io_result) \<Rightarrow> ('l \<Rightarrow> rust_str io_result) \<Rightarrow> rust_str \<Rightarrow> rpc_server \<Rightarrow>
   rpc_server \<times> rust_str io_result" where
  "rs_listen bind local_addr addr s =
     (case bind addr of
        Inl e \<Rightarrow> (s, Err e)
      | Inr listener \<Rightarrow>
          (case (case local_addr listener of
                   Inr a \<Rightarrow> Ok a
                 | Inl e \<Rightarrow> if e = AddrNotAvailable then Ok (str ''0.0.0.0:0'') else Err e) of
             Inl e \<Rightarrow> (s, Err e)
           | Inr a \<Rightarrow> (rs_spawn addr s, Ok a)))"

lemma rs_listen_spawns:
  "rs_listen bind local_addr addr s = (s', r) \<Longrightarrow> s' = (if is_ok r then rs_spawn addr s else s)"
  by (auto simp: rs_listen_def split: sum.splits if_splits)

text \<open>One round of the accept loop that listener \<open>i\<close> runs: a connection, or an error that ends the loop.\<close>

definition rs_accept :: "rpc_server \<Rightarrow> rpc_server" where
  "rs_accept s = s\<lparr>rs_conns := rs_accepted s # rs_conns s, rs_accepted := rs_accepted s + 1, rs_ref_count := rs_ref_count s + 1\<rparr>"

definition rs_listener_end :: "nat \<Rightarrow> rpc_server \<Rightarrow> rpc_server" where
  "rs_listener_end i s =
     s\<lparr>rs_listeners := (rs_listeners s)[i := (L_Gone, snd (rs_listeners s ! i))], rs_ref_count := rs_ref_count s - 1\<rparr>"

definition rs_conn_end :: "nat \<Rightarrow> rpc_server \<Rightarrow> rpc_server" where
  "rs_conn_end c s = s\<lparr>rs_conns := remove1 c (rs_conns s), rs_ref_count := rs_ref_count s - 1\<rparr>"

definition get_alive_conn :: "rpc_server \<Rightarrow> nat" where
  "get_alive_conn s = rs_ref_count s - 1"

text \<open>The first part of \<open>close\<close>: abort the listeners, drop the sender of the close channel.\<close>

fun abort_listener :: "listener_state \<Rightarrow> listener_state" where
  "abort_listener L_Running = L_Aborted"
| "abort_listener l = l"

definition rs_close_begin :: "rpc_server \<Rightarrow> rpc_server" where
  "rs_close_begin s = s\<lparr>rs_listeners := map (apfst abort_listener) (rs_listeners s), rs_close_tx := False\<rparr>"

text \<open>
  The second part of \<open>close\<close>: \<open>alive k\<close> is what \<open>get_alive_conn\<close> gives after \<open>k\<close> sleeps of a second, and
  \<open>elapsed k\<close> the time that has passed then. The result is the number of sleeps and the number of
  connections left.
\<close>

partial_function (option) close_wait ::
  "(nat \<Rightarrow> nat) \<Rightarrow> (nat \<Rightarrow> duration) \<Rightarrow> duration \<Rightarrow> nat \<Rightarrow> (nat \<times> nat) option" where
  "close_wait alive elapsed limit k =
     (if 0 < alive k then
        (if limit < elapsed (Suc k) then Some (Suc k, alive (Suc k))
         else close_wait alive elapsed limit (Suc k))
      else Some (k, alive k))"

section \<open>The server over time\<close>

inductive server_life :: "rpc_server \<Rightarrow> rpc_server \<Rightarrow> bool" where
  listens: "server_life s (rs_spawn addr s)"
| accepts: "i < length (rs_listeners s) \<Longrightarrow> fst (rs_listeners s ! i) \<noteq> L_Gone \<Longrightarrow> server_life s (rs_accept s)"
| accept_error: "i < length (rs_listeners s) \<Longrightarrow> fst (rs_listeners s ! i) \<noteq> L_Gone \<Longrightarrow>
    server_life s (rs_listener_end i s)"
| conn_ends: "c \<in> set (rs_conns s) \<Longrightarrow> server_life s (rs_conn_end c s)"
| closing: "server_life s (rs_close_begin s)"

inductive_cases server_lifeE: "server_life s s'"

definition live_listeners :: "rpc_server \<Rightarrow> nat" where
  "live_listeners s = length (filter (\<lambda>p. fst p \<noteq> L_Gone) (rs_listeners s))"

definition rs_inv :: "rpc_server \<Rightarrow> bool" where
  "rs_inv s \<longleftrightarrow> rs_ref_count s = 1 + live_listeners s + length (rs_conns s) \<and>
     distinct (rs_conns s) \<and> (\<forall>c \<in> set (rs_conns s). c < rs_accepted s)"

lemma live_update:
  assumes "i < length xs" "fst (xs ! i) \<noteq> L_Gone"
  shows "length (filter (\<lambda>p. fst p \<noteq> L_Gone) xs) = Suc (length (filter (\<lambda>p. fst p \<noteq> L_Gone) (xs[i := (L_Gone, z)])))"
  using assms by (induction xs arbitrary: i) (auto split: nat.splits simp: nth_Cons)

lemma live_abort [simp]: "abort_listener l = L_Gone \<longleftrightarrow> l = L_Gone"
  by (cases l) auto

lemma live_close: "live_listeners (rs_close_begin s) = live_listeners s"
  by (simp add: live_listeners_def rs_close_begin_def filter_map comp_def)

lemma life_inv: "server_life s s' \<Longrightarrow> rs_inv s \<Longrightarrow> rs_inv s'"
proof (induction rule: server_life.induct)
  case (listens s addr)
  then show ?case by (auto simp: rs_spawn_def rs_inv_def live_listeners_def)
next
  case (accepts i s)
  then show ?case by (auto simp: rs_accept_def rs_inv_def live_listeners_def)
next
  case (accept_error i s)
  then show ?case
    using live_update [of i "rs_listeners s" "snd (rs_listeners s ! i)"]
    by (auto simp: rs_listener_end_def rs_inv_def live_listeners_def)
next
  case (conn_ends c s)
  then have "length (rs_conns s) = Suc (length (remove1 c (rs_conns s)))"
    by (metis One_nat_def Suc_pred length_pos_if_in_set length_remove1)
  with conn_ends show ?case
    by (auto simp: rs_conn_end_def rs_inv_def live_listeners_def dest: notin_set_remove1)
next
  case (closing s)
  then show ?case using live_close [of s] by (simp add: rs_inv_def rs_close_begin_def)
qed

lemma life_rtrancl_inv: "server_life\<^sup>*\<^sup>* rs_new s \<Longrightarrow> rs_inv s"
proof (induction rule: rtranclp_induct)
  case base
  then show ?case by (simp add: rs_new_def rs_inv_def live_listeners_def)
next
  case (step s s')
  then show ?case using life_inv by blast
qed

section \<open>Properties\<close>

text \<open>
  When the counter that \<open>close\<close> waits on is zero, the server is really down: no accept loop is left that
  could take a connection, no connection is left, and whatever happens next, short of another
  \<open>listen\<close>, neither appears again.
\<close>

theorem close_count_sound:
  assumes "server_life\<^sup>*\<^sup>* rs_new s" and "get_alive_conn s = 0"
    and "server_life s s'" and "\<forall>addr. s' \<noteq> rs_spawn addr s"
  shows "rs_conns s = [] \<and> (\<forall>p \<in> set (rs_listeners s). fst p = L_Gone) \<and> get_alive_conn s' = 0 \<and> rs_conns s' = []"
proof -
  have "rs_inv s" using assms(1) by (rule life_rtrancl_inv)
  with assms(2) have s: "rs_conns s = []" "\<forall>p \<in> set (rs_listeners s). fst p = L_Gone"
    by (auto simp: rs_inv_def get_alive_conn_def live_listeners_def filter_empty_conv)
  then show ?thesis
    using assms(2,3,4) by (auto elim!: server_lifeE simp: rs_close_begin_def get_alive_conn_def)
qed

definition one_listener :: rpc_server where
  "one_listener = rs_listener_end 0 (rs_conn_end 0 (rs_close_begin (rs_accept (rs_spawn (str ''/a'') rs_new))))"

theorem close_count_sound_witness:
  "get_alive_conn one_listener = 0 \<and> rs_conns (rs_close_begin one_listener) = []"
proof -
  have 1: "server_life rs_new (rs_spawn (str ''/a'') rs_new)" by (rule server_life.listens)
  have 2: "server_life (rs_spawn (str ''/a'') rs_new) (rs_accept (rs_spawn (str ''/a'') rs_new))"
    by (rule server_life.accepts [of 0]) (simp_all add: rs_spawn_def rs_new_def)
  let ?s = "rs_close_begin (rs_accept (rs_spawn (str ''/a'') rs_new))"
  have 3: "server_life (rs_accept (rs_spawn (str ''/a'') rs_new)) ?s" by (rule server_life.closing)
  have 4: "server_life ?s (rs_conn_end 0 ?s)"
    by (rule server_life.conn_ends) (simp add: rs_close_begin_def rs_accept_def rs_spawn_def rs_new_def)
  have 5: "server_life (rs_conn_end 0 ?s) one_listener"
    unfolding one_listener_def
    by (rule server_life.accept_error) (simp_all add: rs_conn_end_def rs_close_begin_def rs_accept_def rs_spawn_def rs_new_def)
  have reach: "server_life\<^sup>*\<^sup>* rs_new one_listener" using 1 2 3 4 5 by (meson converse_rtranclp_into_rtranclp rtranclp.rtrancl_refl)
  have zero: "get_alive_conn one_listener = 0"
    by (simp add: one_listener_def get_alive_conn_def rs_listener_end_def rs_conn_end_def rs_close_begin_def
        rs_accept_def rs_spawn_def rs_new_def)
  have "length (rs_listeners (rs_close_begin one_listener)) \<noteq> length (rs_listeners (rs_spawn addr one_listener))" for addr
    by (simp add: rs_close_begin_def rs_spawn_def)
  then have "\<forall>addr. rs_close_begin one_listener \<noteq> rs_spawn addr one_listener" by metis
  from close_count_sound [OF reach zero server_life.closing this] zero show ?thesis by simp
qed

lemma close_wait_from:
  assumes "\<forall>k. k \<le> elapsed k" "k \<le> limit"
  shows "\<exists>m c. close_wait alive elapsed limit k = Some (m, c) \<and> m \<le> limit + 1 \<and> c = alive m \<and>
    (c = 0 \<or> limit < elapsed m)"
  using assms(2)
proof (induction "limit - k" arbitrary: k)
  case 0
  then have "limit < elapsed (Suc k)" using assms(1) [rule_format, of "Suc k"] by linarith
  then show ?case using 0 by (subst close_wait.simps) auto
next
  case (Suc x)
  then have "x = limit - Suc k" "Suc k \<le> limit" by auto
  from Suc(1) [OF this] Suc.prems show ?case by (subst close_wait.simps) auto
qed

text \<open>
  \<open>close\<close> always returns: after at most \<open>server_close_wait + 1\<close> sleeps, whatever the connections do; and
  when it returns before that time is over, it has seen the counter at zero.
\<close>

theorem close_returns:
  assumes "\<forall>k. k \<le> elapsed k"
  shows "\<exists>m c. close_wait alive elapsed limit 0 = Some (m, c) \<and> m \<le> limit + 1 \<and> c = alive m \<and>
    (c = 0 \<or> limit < elapsed m)"
  using close_wait_from [OF assms, of 0] by simp

theorem close_returns_witness:
  "\<exists>m c. close_wait (\<lambda>k. 3 - k) (\<lambda>k. k) 90 0 = Some (m, c) \<and> m \<le> 91 \<and> c = 3 - m \<and> (c = 0 \<or> 90 < m)"
  using close_returns [of "\<lambda>k. k" "\<lambda>k. 3 - k" 90] by simp

end
