(* ===== verification/Rpc_Sample_Api.thy ===== *)
theory Rpc_Sample_Api
  imports Rpc_Calls Rpc_Endpoint Rpc_Macro Rpc_Listen "HOL-Library.Signed_Division"
begin

text \<open>
  The application of the API layer that the repository carries, \<open>test-suite/src/api\<close>: two service traits
  (\<open>service.rs\<close>), their implementations and the dispatchers made of them (\<open>server.rs\<close>) and the client
  that holds an endpoint of each (\<open>client.rs\<close>). \<open>isize\<close> has 64 bits.
\<close>

section \<open>The services\<close>

type_synonym isize = "64 word"

text \<open>
  \<open>+\<close> and \<open>/\<close> of \<open>isize\<close>. An addition that overflows panics when the build has overflow checks (\<open>oc\<close>), and
  wraps otherwise; a division by zero and the one division that overflows panic in every build.
\<close>

definition isize_add :: "bool \<Rightarrow> isize \<Rightarrow> isize \<Rightarrow> isize outcome" where
  "isize_add oc a b =
     (if oc \<and> (sint a + sint b < - (2 ^ 63) \<or> 2 ^ 63 \<le> sint a + sint b) then Panic else Return (a + b))"

definition isize_div :: "isize \<Rightarrow> isize \<Rightarrow> isize outcome" where
  "isize_div a b =
     (if b = 0 \<or> sint a = - (2 ^ 63) \<and> b = - 1 then Panic else Return (word_of_int (sint a sdiv sint b)))"

text \<open>The methods of \<open>CalServer\<close> and \<open>EchoServer\<close>; \<open>eio\<close> is \<open>Errno::EIO\<close> of the \<open>nix\<close> crate.\<close>

definition cal_inc :: "bool \<Rightarrow> isize \<Rightarrow> (isize, unit rpc_error) result outcome" where
  "cal_inc oc y = map_outcome_value Ok (isize_add oc y 1)"

definition cal_add :: "bool \<Rightarrow> isize \<times> isize \<Rightarrow> (isize, unit rpc_error) result outcome" where
  "cal_add oc args = (case args of (a, b) \<Rightarrow> map_outcome_value Ok (isize_add oc a b))"

definition cal_div :: "isize \<times> isize \<Rightarrow> (isize, rust_str rpc_error) result outcome" where
  "cal_div args =
     (case args of (a, b) \<Rightarrow>
        if b = 0 then Return (Err (Rpc_User (str ''divide by zero'')))
        else map_outcome_value Ok (isize_div a b))"

definition echo_repeat :: "rust_str \<Rightarrow> (rust_str, unit rpc_error) result outcome" where
  "echo_repeat msg = Return (Ok msg)"

definition echo_io_error :: "'errno \<Rightarrow> rust_str \<Rightarrow> (unit, 'errno rpc_error) result outcome" where
  "echo_io_error eio msg = Return (Err (Rpc_User eio))"

text \<open>
  What the sample takes from other crates: \<open>MsgpCodec\<close> at the types of the arguments and results, the numbers
  of \<open>Errno\<close> and its value \<open>EIO\<close>, and the bound of the codec of \<open>Errno\<close>.
\<close>

record 'errno sample_env =
  se_isize :: "isize rmp"
  se_pair :: "(isize \<times> isize) rmp"
  se_string :: "rust_str rmp"
  se_unit :: "unit rmp"
  se_max_addr :: u32
  se_as_i32 :: "'errno \<Rightarrow> i32"
  se_from_raw :: "i32 \<Rightarrow> 'errno"
  se_eio :: 'errno

abbreviation se_errno :: "'errno sample_env \<Rightarrow> 'errno rpc_err_codec" where
  "se_errno env \<equiv> codec_errno (se_max_addr env) (se_as_i32 env) (se_from_raw env)"

text \<open>The handlers that \<open>#[service]\<close> generates for the methods of the two implementations.\<close>

definition cal_handler :: "bool \<Rightarrow> 'errno sample_env \<Rightarrow> string \<Rightarrow> ty \<Rightarrow> api_handler" where
  "cal_handler oc env m t =
     (if m = ''inc'' then handle_method (msgp_codec (se_isize env)) (msgp_codec (se_isize env)) codec_unit (cal_inc oc)
      else if m = ''add'' then handle_method (msgp_codec (se_pair env)) (msgp_codec (se_isize env)) codec_unit (cal_add oc)
      else handle_method (msgp_codec (se_pair env)) (msgp_codec (se_isize env)) codec_string cal_div)"

definition echo_handler :: "'errno sample_env \<Rightarrow> string \<Rightarrow> ty \<Rightarrow> api_handler" where
  "echo_handler env m t =
     (if m = ''repeat'' then
        handle_method (msgp_codec (se_string env)) (msgp_codec (se_string env)) codec_unit echo_repeat
      else handle_method (msgp_codec (se_string env)) (msgp_codec (se_unit env)) (se_errno env) (echo_io_error (se_eio env)))"

text \<open>The items the macros are applied to. \<open>#[async_trait]\<close> stands below them, and so they see the \<open>async fn\<close>s.\<close>

definition result_ty :: "ty \<Rightarrow> ty \<Rightarrow> ty" where
  "result_ty t e = path_ty ''Result'' [Arg_Type t, Arg_Type (path_ty ''RpcError'' [Arg_Type e])]"

definition async_sig :: "string \<Rightarrow> string \<Rightarrow> ty \<Rightarrow> ty \<Rightarrow> fn_sig" where
  "async_sig m arg t out =
     \<lparr>fs_ident = m, fs_async = True, fs_inputs = [Receiver, Typed (Some arg) t], fs_output = Some out\<rparr>"

definition future_sig :: "string \<Rightarrow> string \<Rightarrow> ty \<Rightarrow> ty \<Rightarrow> fn_sig" where
  "future_sig m arg t out =
     \<lparr>fs_ident = m, fs_async = False, fs_inputs = [Receiver, Typed (Some arg) t],
      fs_output = Some (Ty_Impl [Bound_Trait [Seg ''Future'' (Angle [Arg_Binding ''Output'' out])],
        Bound_Trait [Seg ''Send'' No_Args]])\<rparr>"

abbreviation isize_ty :: ty where
  "isize_ty \<equiv> path_ty ''isize'' []"

abbreviation string_ty :: ty where
  "string_ty \<equiv> path_ty ''String'' []"

definition cal_sigs :: "fn_sig list" where
  "cal_sigs =
     [async_sig ''inc'' ''y'' isize_ty (result_ty isize_ty (Ty_Tuple [])),
      async_sig ''add'' ''args'' (Ty_Tuple [isize_ty, isize_ty]) (result_ty isize_ty (Ty_Tuple [])),
      async_sig ''div'' ''args'' (Ty_Tuple [isize_ty, isize_ty]) (result_ty isize_ty string_ty)]"

definition CalService :: item_trait where
  "CalService =
     \<lparr>it_name = ''CalService'', it_attrs = [[''async_trait'', ''async_trait'']], it_items = map Trait_Method cal_sigs\<rparr>"

definition EchoService :: item_trait where
  "EchoService =
     \<lparr>it_name = ''EchoService'', it_attrs = [], it_items = map Trait_Method
       [future_sig ''repeat'' ''msg'' string_ty (result_ty string_ty (Ty_Tuple [])),
        future_sig ''io_error'' ''_msg'' string_ty (result_ty (Ty_Tuple []) (path_ty ''Errno'' []))]\<rparr>"

definition CalServer :: item_impl where
  "CalServer =
     \<lparr>ii_trait = Some [Seg ''CalService'' No_Args], ii_self_ty = path_ty ''CalServer'' [],
      ii_items = map (Impl_Method False) cal_sigs\<rparr>"

definition EchoServer :: item_impl where
  "EchoServer =
     \<lparr>ii_trait = Some [Seg ''EchoService'' No_Args], ii_self_ty = path_ty ''EchoServer'' [],
      ii_items = map (Impl_Method False)
        [async_sig ''repeat'' ''msg'' string_ty (result_ty string_ty (Ty_Tuple [])),
         async_sig ''io_error'' ''_msg'' string_ty (result_ty (Ty_Tuple []) (path_ty ''Errno'' []))]\<rparr>"

text \<open>The services these expand to.\<close>

definition cal_arms :: "bool \<Rightarrow> 'errno sample_env \<Rightarrow> (rust_str \<times> api_handler) list" where
  "cal_arms oc env =
     [(str ''inc'', handle_method (msgp_codec (se_isize env)) (msgp_codec (se_isize env)) codec_unit (cal_inc oc)),
      (str ''add'', handle_method (msgp_codec (se_pair env)) (msgp_codec (se_isize env)) codec_unit (cal_add oc)),
      (str ''div'', handle_method (msgp_codec (se_pair env)) (msgp_codec (se_isize env)) codec_string cal_div)]"

definition echo_arms :: "'errno sample_env \<Rightarrow> (rust_str \<times> api_handler) list" where
  "echo_arms env =
     [(str ''repeat'', handle_method (msgp_codec (se_string env)) (msgp_codec (se_string env)) codec_unit echo_repeat),
      (str ''io_error'', handle_method (msgp_codec (se_string env)) (msgp_codec (se_unit env)) (se_errno env)
        (echo_io_error (se_eio env)))]"

definition cal_service :: "bool \<Rightarrow> 'errno sample_env \<Rightarrow> service" where
  "cal_service oc env = \<lparr>svc_name = str ''CalService'', svc_serve = service_serve (cal_arms oc env)\<rparr>"

definition echo_service :: "'errno sample_env \<Rightarrow> service" where
  "echo_service env = \<lparr>svc_name = str ''EchoService'', svc_serve = service_serve (echo_arms env)\<rparr>"

lemmas sample_syntax = CalService_def EchoService_def CalServer_def EchoServer_def cal_sigs_def async_sig_def
  future_sig_def result_ty_def path_ty_def

lemma cal_expand: "service_expand (cal_handler oc env) CalServer = Return (cal_service oc env)"
  by (simp add: service_expand_def service_name_def service_method_data_def last_opt_def sample_syntax cal_service_def
      cal_arms_def cal_handler_def)

lemma echo_expand: "service_expand (echo_handler env) EchoServer = Return (echo_service env)"
  by (simp add: service_expand_def service_name_def service_method_data_def last_opt_def sample_syntax echo_service_def
      echo_arms_def echo_handler_def)

section \<open>The server\<close>

text \<open>The two dispatchers: over \<open>ServiceMuxDyn\<close>, and over the struct with \<open>#[service_mux_struct]\<close>.\<close>

definition create_service_mux_dispatch ::
  "service \<Rightarrow> service \<Rightarrow> api_server_req \<Rightarrow> (api_server_req, api_server_resp) dispatched" where
  "create_service_mux_dispatch cal_server echo_server =
     (let service_mux = mux_dyn_new;
          service_mux = mux_dyn_add cal_server service_mux;
          service_mux = mux_dyn_add echo_server service_mux
      in inline_dispatch (mux_dyn_serve service_mux))"

definition create_service_mux_struct_dispatch ::
  "service \<Rightarrow> service \<Rightarrow> api_server_req \<Rightarrow> (api_server_req, api_server_resp) dispatched" where
  "create_service_mux_struct_dispatch cal_server echo_server = inline_dispatch (mux_struct_serve [cal_server, echo_server])"

definition create_api_server :: "server_config \<Rightarrow> 'rt \<Rightarrow> 'rt server_default \<times> rpc_server" where
  "create_api_server config rt = (server_default_new config rt, rs_new)"

text \<open>\<open>listen_with_services\<close> gives the server with its address, or the error of \<open>listen\<close>; and what its accept loop dispatches to.\<close>

definition listen_with_services ::
  "(rust_str \<Rightarrow> 'l io_result) \<Rightarrow> ('l \<Rightarrow> rust_str io_result) \<Rightarrow> 'rt server_default \<times> rpc_server \<Rightarrow> rust_str \<Rightarrow>
   service \<Rightarrow> service \<Rightarrow>
   (('rt server_default \<times> rpc_server) \<times> rust_str \<times> (api_server_req \<Rightarrow> (api_server_req, api_server_resp) dispatched), io_kind) result" where
  "listen_with_services bind local_addr server bind_addr cal_server echo_server =
     (let service_mux = mux_dyn_add echo_server (mux_dyn_add cal_server mux_dyn_new);
          dispatch = inline_dispatch (mux_dyn_serve service_mux)
      in case rs_listen bind local_addr bind_addr (snd server) of
           (_, Inl e) \<Rightarrow> Err e
         | (s, Inr actual_addr) \<Rightarrow> Ok ((fst server, s), actual_addr, dispatch))"

section \<open>The client\<close>

text \<open>
  \<open>MyClient\<close> holds a client for each trait over clones of one pool; a clone of a pool is the same
  pool.
\<close>

record ('s, 't) my_client =
  mc_cal :: "('s, 't) client_sys api_client"
  mc_echo :: "('s, 't) client_sys api_client"

definition my_client_new :: "client_config \<Rightarrow> 'rt \<Rightarrow> rust_str \<Rightarrow> ('s, api_client_req) my_client" where
  "my_client_new config rt addr =
     (let facts = client_default_new config rt;
          pool = create_pool_async facts addr
      in \<lparr>mc_cal = api_client_new pool, mc_echo = api_client_new pool\<rparr>)"

text \<open>
  A call of one of the generated methods, and what its caller gets: \<open>deliver\<close> is what the channel of the
  call gives. The results are tagged with the type they have.
\<close>

datatype sample_call = Inc isize | Add "isize \<times> isize" | Div "isize \<times> isize" | Repeat rust_str | Io_Error rust_str

datatype 'errno sample_result =
  Isize "(isize, unit rpc_error) result"
| Quotient "(isize, rust_str rpc_error) result"
| Text "(rust_str, unit rpc_error) result"
| Nothing "(unit, 'errno rpc_error) result"

fun sample_action :: "sample_call \<Rightarrow> rust_str" where
  "sample_action (Inc _) = service_method (str ''CalService'') (str ''inc'')"
| "sample_action (Add _) = service_method (str ''CalService'') (str ''add'')"
| "sample_action (Div _) = service_method (str ''CalService'') (str ''div'')"
| "sample_action (Repeat _) = service_method (str ''EchoService'') (str ''repeat'')"
| "sample_action (Io_Error _) = service_method (str ''EchoService'') (str ''io_error'')"

fun sample_make :: "'errno sample_env \<Rightarrow> sample_call \<Rightarrow> nat \<Rightarrow> api_client_req outcome" where
  "sample_make env (Inc y) n = make_req (msgp_codec (se_isize env)) (sample_action (Inc y)) y n"
| "sample_make env (Add p) n = make_req (msgp_codec (se_pair env)) (sample_action (Add p)) p n"
| "sample_make env (Div p) n = make_req (msgp_codec (se_pair env)) (sample_action (Div p)) p n"
| "sample_make env (Repeat s) n = make_req (msgp_codec (se_string env)) (sample_action (Repeat s)) s n"
| "sample_make env (Io_Error s) n = make_req (msgp_codec (se_string env)) (sample_action (Io_Error s)) s n"

fun sample_finish :: "'errno sample_env \<Rightarrow> sample_call \<Rightarrow> (api_client_req, unit) result \<Rightarrow> 'errno sample_result outcome" where
  "sample_finish env (Inc y) d = map_outcome_value Isize (process_res (msgp_codec (se_isize env)) 0 codec_unit d)"
| "sample_finish env (Add p) d = map_outcome_value Isize (process_res (msgp_codec (se_isize env)) 0 codec_unit d)"
| "sample_finish env (Div p) d = map_outcome_value Quotient (process_res (msgp_codec (se_isize env)) 0 codec_string d)"
| "sample_finish env (Repeat s) d = map_outcome_value Text (process_res (msgp_codec (se_string env)) [] codec_unit d)"
| "sample_finish env (Io_Error s) d = map_outcome_value Nothing (process_res (msgp_codec (se_unit env)) () (se_errno env) d)"

text \<open>The specification: the method run where it is.\<close>

fun sample_run :: "bool \<Rightarrow> 'errno sample_env \<Rightarrow> sample_call \<Rightarrow> 'errno sample_result outcome" where
  "sample_run oc env (Inc y) = map_outcome_value Isize (cal_inc oc y)"
| "sample_run oc env (Add p) = map_outcome_value Isize (cal_add oc p)"
| "sample_run oc env (Div p) = map_outcome_value Quotient (cal_div p)"
| "sample_run oc env (Repeat s) = map_outcome_value Text (echo_repeat s)"
| "sample_run oc env (Io_Error s) = map_outcome_value Nothing (echo_io_error (se_eio env) s)"

section \<open>Every call is answered\<close>

text \<open>
  What MessagePack says of the types used: an integer takes at most 9 bytes and a pair of them at most
  19, a string its length and at most 5, and \<open>()\<close> one; nothing takes none. Of \<open>nix\<close>, that the number of
  \<open>EIO\<close> is turned back into it; and it has to be below the bound of the codec.
\<close>

definition env_ok :: "'errno sample_env \<Rightarrow> bool" where
  "env_ok env \<longleftrightarrow> (\<forall>y. rmp_carries 9 (se_isize env) y) \<and> (\<forall>p. rmp_carries 19 (se_pair env) p) \<and>
     (\<forall>s. utf8_valid s \<longrightarrow> rmp_carries (length s + 5) (se_string env) s) \<and> rmp_carries 1 (se_unit env) () \<and>
     se_as_i32 env (se_eio env) \<le> se_max_addr env \<and> se_from_raw env (se_as_i32 env (se_eio env)) = se_eio env"

text \<open>A \<open>String\<close> argument is UTF-8, and has to leave the length of its message in 32 bits.\<close>

fun call_ok :: "sample_call \<Rightarrow> bool" where
  "call_ok (Repeat s) = (utf8_valid s \<and> length s + 5 \<le> u32_MAX)"
| "call_ok (Io_Error s) = (utf8_valid s \<and> length s + 5 \<le> u32_MAX)"
| "call_ok _ = True"

abbreviation sample_services :: "bool \<Rightarrow> 'errno sample_env \<Rightarrow> service list" where
  "sample_services oc env \<equiv> [cal_service oc env, echo_service env]"

lemma divide_by_zero:
  "utf8_valid (str ''divide by zero'')" "int_err_from_str (str ''divide by zero'') = None" "length (str ''divide by zero'') = 14"
  by (simp_all add: str_def int_err_from_str_def all_int_errs_def)

lemma eio_short: "env_ok env \<Longrightarrow> length (err_body (err_encode (se_errno env) (se_eio env))) \<le> i32_MAX"
  by (simp add: codec_errno_def err_body_def)

lemma eio_codec: "env_ok env \<Longrightarrow> err_codec (se_errno env) (\<lambda>e. e = se_eio env)"
  by unfold_locales (simp_all add: env_ok_def codec_errno_def)

lemma cal_serves:
  "map_of (cal_arms oc env) (str m) = Some (handle_method ca cp ec f) \<Longrightarrow>
   serves_method (sample_services oc env) (str ''CalService'') (str m) ca cp ec f"
  unfolding serves_method_def
  by (intro conjI exI [of _ "cal_arms oc env"]) (simp_all add: cal_service_def echo_service_def str_def dot_def)

lemma echo_serves:
  "map_of (echo_arms env) (str m) = Some (handle_method ca cp ec f) \<Longrightarrow>
   serves_method (sample_services oc env) (str ''EchoService'') (str m) ca cp ec f"
  unfolding serves_method_def
  by (intro conjI exI [of _ "echo_arms env"]) (simp_all add: cal_service_def echo_service_def str_def dot_def)

lemma sample_results:
  assumes "env_ok env"
  shows "cal_inc oc y = Return x \<Longrightarrow> result_ok (se_isize env) codec_unit (\<lambda>_. True) x"
    "cal_add oc p = Return x \<Longrightarrow> result_ok (se_isize env) codec_unit (\<lambda>_. True) x"
    "cal_div p = Return q \<Longrightarrow> result_ok (se_isize env) codec_string (\<lambda>s. utf8_valid s \<and> int_err_from_str s = None) q"
    "utf8_valid s \<Longrightarrow> length s + 5 \<le> u32_MAX \<Longrightarrow> echo_repeat s = Return z \<Longrightarrow> result_ok (se_string env) codec_unit (\<lambda>_. True) z"
    "echo_io_error (se_eio env) s = Return w \<Longrightarrow> result_ok (se_unit env) (se_errno env) (\<lambda>e. e = se_eio env) w"
proof -
  have isize: "result_ok (se_isize env) ec ok (Ok y)" for ec ok y
    using assms by (intro result_ok_carried [where n = 9]) (auto simp: env_ok_def)
  show "cal_inc oc y = Return x \<Longrightarrow> result_ok (se_isize env) codec_unit (\<lambda>_. True) x"
    "cal_add oc p = Return x \<Longrightarrow> result_ok (se_isize env) codec_unit (\<lambda>_. True) x"
    by (auto simp: cal_inc_def cal_add_def isize split: prod.splits)
  show "cal_div p = Return q \<Longrightarrow> result_ok (se_isize env) codec_string (\<lambda>s. utf8_valid s \<and> int_err_from_str s = None) q"
    by (auto simp: cal_div_def isize result_ok_def [of _ _ _ "Inl _"] codec_string_def err_body_def divide_by_zero split: prod.splits if_splits)
  show "utf8_valid s \<Longrightarrow> length s + 5 \<le> u32_MAX \<Longrightarrow> echo_repeat s = Return z \<Longrightarrow> result_ok (se_string env) codec_unit (\<lambda>_. True) z"
    using assms by (auto simp: echo_repeat_def env_ok_def intro!: result_ok_carried)
  show "echo_io_error (se_eio env) s = Return w \<Longrightarrow> result_ok (se_unit env) (se_errno env) (\<lambda>e. e = se_eio env) w"
    using eio_short [OF assms] by (auto simp: echo_io_error_def result_ok_def)
qed

lemmas cal_call = method_call [OF cal_serves]
lemmas echo_call = method_call [OF echo_serves]

lemma sample_call_answered:
  assumes "env_ok env" "call_ok c" "sample_run oc env c = Return res" "sample_make env c n = Return t"
    and "u = ct_set_seq uapi_ops s t"
  shows "\<exists>r. api_reply (mux_struct_serve (sample_services oc env)) noti (to_req (call_wire_req u)) = Some r \<and> resp_fits r \<and>
    (\<exists>v. api_done (event_task (received uapi_ops () r u)) = Return (n, v) \<and> sample_finish env c (Ok v) = Return res)"
proof -
  note env = assms(1) [unfolded env_ok_def rmp_carries_def]
  show ?thesis
  proof (cases c)
    case (Inc y)
    with assms(3) obtain x where x: "cal_inc oc y = Return x" "res = Isize x" by auto
    from cal_call [where f = "cal_inc oc" and m = "''inc''" and rq = "se_isize env" and oc = oc and env = env and n = n and noti = noti
        and d = 0, OF _ x(1) _ sample_results(1) [OF assms(1) x(1)] unit_err.err_codec_axioms _ assms(5)]
    show ?thesis using env assms(4) Inc x(2) by (auto simp: cal_arms_def str_eq_iff)
  next
    case (Add p)
    with assms(3) obtain x where x: "cal_add oc p = Return x" "res = Isize x" by auto
    from cal_call [where f = "cal_add oc" and m = "''add''" and rq = "se_pair env" and oc = oc and env = env and n = n and noti = noti
        and d = 0, OF _ x(1) _ sample_results(2) [OF assms(1) x(1)] unit_err.err_codec_axioms _ assms(5)]
    show ?thesis using env assms(4) Add x(2) by (auto simp: cal_arms_def str_eq_iff)
  next
    case (Div p)
    with assms(3) obtain x where x: "cal_div p = Return x" "res = Quotient x" by auto
    from cal_call [where f = "cal_div" and m = "''div''" and rq = "se_pair env" and oc = oc and env = env and n = n and noti = noti
        and d = 0, OF _ x(1) _ sample_results(3) [OF assms(1) x(1)] string_err.err_codec_axioms _ assms(5)]
    show ?thesis using env assms(4) Div x(2) by (auto simp: cal_arms_def str_eq_iff)
  next
    case (Repeat m)
    with assms(3) obtain x where x: "echo_repeat m = Return x" "res = Text x" by auto
    from echo_call [where f = "echo_repeat" and m = "''repeat''" and rq = "se_string env" and oc = oc and env = env and n = n and noti = noti
        and d = "[]", OF _ x(1) _ sample_results(4) [OF assms(1) _ _ x(1)] unit_err.err_codec_axioms _ assms(5)]
    show ?thesis using env assms(2,4) Repeat x(2) by (auto simp: echo_arms_def str_eq_iff)
  next
    case (Io_Error m)
    with assms(3) obtain x where x: "echo_io_error (se_eio env) m = Return x" "res = Nothing x" by auto
    from echo_call [where f = "echo_io_error (se_eio env)" and m = "''io_error''" and rq = "se_string env" and oc = oc and env = env and n = n and noti = noti
        and d = "()", OF _ x(1) _ sample_results(5) [OF assms(1) x(1)] eio_codec [OF assms(1)] _ assms(5)]
    show ?thesis using env assms(2,4) Io_Error x(2) by (auto simp: echo_arms_def str_eq_iff)
  qed
qed

section \<open>Arithmetic\<close>

lemma sint_isize: "- (2 ^ 63) \<le> sint (a :: isize) \<and> sint a < 2 ^ 63"
  using sint_ge [of a] sint_lt [of a] by simp

lemma sint_isize_of_int: "- (2 ^ 63) \<le> x \<Longrightarrow> x < 2 ^ 63 \<Longrightarrow> sint (word_of_int x :: isize) = x"
  by (simp add: signed_of_int signed_take_bit_int_eq_self)

lemma sint_minus_one [simp]: "sint (b :: isize) = - 1 \<longleftrightarrow> b = - 1"
  by (metis sint_n1 signed_word_eqI)

lemma isize_sdiv_range:
  fixes a b :: isize
  shows "(sint a = - (2 ^ 63) \<and> b = - 1) \<longleftrightarrow> \<not> (- (2 ^ 63) \<le> sint a sdiv sint b \<and> sint a sdiv sint b < 2 ^ 63)"
proof
  assume "sint a = - (2 ^ 63) \<and> b = - 1"
  then show "\<not> (- (2 ^ 63) \<le> sint a sdiv sint b \<and> sint a sdiv sint b < 2 ^ 63)" by simp
next
  assume r: "\<not> (- (2 ^ 63) \<le> sint a sdiv sint b \<and> sint a sdiv sint b < 2 ^ 63)"
  have "- \<bar>sint a\<bar> \<le> sint a sdiv sint b" "sint a sdiv sint b \<le> \<bar>sint a\<bar>"
    using sdiv_int_range [of "sint a" "sint b"] by simp_all
  then have a: "sint a = - (2 ^ 63)" "sint a sdiv sint b = - sint a" "sint a \<noteq> 0"
    using r sint_isize [of a] by linarith+
  from a(2) have "sint b = - 1" by (simp only: int_sdiv_negated_is_minus1 [OF a(3)])
  with a(1) show "sint a = - (2 ^ 63) \<and> b = - 1" by simp
qed

section \<open>Properties\<close>

text \<open>The dispatchers of the sample are the same function, and so is the one \<open>listen_with_services\<close> uses.\<close>

lemma sample_names: "distinct (map svc_name (sample_services oc env))"
  by (simp add: cal_service_def echo_service_def str_eq_iff)

lemma sample_dispatch:
  "create_service_mux_dispatch (cal_service oc env) (echo_service env) = inline_dispatch (mux_struct_serve (sample_services oc env))"
  using mux_dyn_struct [OF sample_names, of oc env] by (simp add: create_service_mux_dispatch_def Let_def)

lemma sample_service: "api_service (mux_struct_serve (sample_services oc env))"
  by (rule mux_struct_ok)
     (auto simp: cal_service_def echo_service_def cal_arms_def echo_arms_def intro!: service_serve_ok handler.api_service_axioms)

lemma sample_action_ok: "utf8_valid (sample_action c) \<and> length (sample_action c) < 2 ^ 31"
  by (cases c) (simp_all add: service_method_def str_def dot_def)

lemma sample_make_action: "sample_make env c n = Return t \<Longrightarrow> ar_action t = sample_action c"
  by (cases c) (auto simp: make_req_def split: sum.splits)

text \<open>A serialisation of fixed width, for a concrete instance.\<close>

definition fixed_env :: "i32 sample_env" where
  "fixed_env =
     \<lparr>se_isize = \<lparr>to_vec_named = (\<lambda>y. Some (le_bytes 8 y)), write_named = (\<lambda>y. (le_bytes 8 y, True)),
        from_slice = (\<lambda>bs. Some (le_word bs))\<rparr>,
      se_pair = \<lparr>to_vec_named = (\<lambda>(a, b). Some (le_bytes 8 a @ le_bytes 8 b)),
        write_named = (\<lambda>(a, b). (le_bytes 8 a @ le_bytes 8 b, True)),
        from_slice = (\<lambda>bs. Some (le_word (take 8 bs), le_word (drop 8 bs)))\<rparr>,
      se_string = \<lparr>to_vec_named = (\<lambda>s. Some (0 # s)), write_named = (\<lambda>s. (0 # s, True)), from_slice = (\<lambda>bs. from_utf8 (tl bs))\<rparr>,
      se_unit = \<lparr>to_vec_named = (\<lambda>_. Some [0xc0]), write_named = (\<lambda>_. ([0xc0], True)), from_slice = (\<lambda>bs. Some ())\<rparr>,
      se_max_addr = - 1, se_as_i32 = (\<lambda>e. e), se_from_raw = (\<lambda>i. i), se_eio = 5\<rparr>"

lemma fixed_env_ok: "env_ok fixed_env"
proof -
  have "le_bytes 8 (y :: isize) \<noteq> []" for y by (simp flip: length_greater_0_conv)
  then show ?thesis by (simp add: env_ok_def fixed_env_def rmp_carries_def rmp_supports_def)
qed

text \<open>
  What the macros make of the traits and implementations of the sample: the clients call the actions
  above, in the form of the trait's methods, and the services are those above, under the names the
  actions carry; both ways to combine the services, and the one that \<open>listen_with_services\<close> installs,
  dispatch alike.
\<close>

theorem sample_expansion:
  "map_outcome_value (\<lambda>c. (ci_async_trait c, map (\<lambda>m. (cme_action m, cme_async m)) (ci_methods c))) (endpoint_async ''CalClient'' CalService) =
     Return (True, [(sample_action (Inc y), True), (sample_action (Add p), True), (sample_action (Div p), True)]) \<and>
   map_outcome_value (\<lambda>c. (ci_async_trait c, map (\<lambda>m. (cme_action m, cme_async m)) (ci_methods c))) (endpoint_async ''EchoClient'' EchoService) =
     Return (False, [(sample_action (Repeat s), False), (sample_action (Io_Error s), False)]) \<and>
   service_expand (cal_handler oc env) CalServer = Return (cal_service oc env) \<and>
   service_expand (echo_handler env) EchoServer = Return (echo_service env) \<and>
   create_service_mux_dispatch (cal_service oc env) (echo_service env) =
     create_service_mux_struct_dispatch (cal_service oc env) (echo_service env) \<and>
   (listen_with_services bind local_addr server addr (cal_service oc env) (echo_service env) = Ok (server', a, d) \<longrightarrow>
     d = create_service_mux_dispatch (cal_service oc env) (echo_service env) \<and> rs_listeners (snd server') =
       rs_listeners (snd server) @ [(L_Running, addr)])"
proof (intro conjI)
  show "map_outcome_value (\<lambda>c. (ci_async_trait c, map (\<lambda>m. (cme_action m, cme_async m)) (ci_methods c))) (endpoint_async ''CalClient'' CalService) =
     Return (True, [(sample_action (Inc y), True), (sample_action (Add p), True), (sample_action (Div p), True)])"
    by (simp add: endpoint_async_def has_async_trait_def endpoint_method_def check_return_type_def returns_impl_future_def last_opt_def sample_syntax)
  show "map_outcome_value (\<lambda>c. (ci_async_trait c, map (\<lambda>m. (cme_action m, cme_async m)) (ci_methods c))) (endpoint_async ''EchoClient'' EchoService) =
     Return (False, [(sample_action (Repeat s), False), (sample_action (Io_Error s), False)])"
    by (simp add: endpoint_async_def has_async_trait_def endpoint_method_def check_return_type_def returns_impl_future_def last_opt_def sample_syntax)
  show "create_service_mux_dispatch (cal_service oc env) (echo_service env) =
     create_service_mux_struct_dispatch (cal_service oc env) (echo_service env)"
    by (simp add: sample_dispatch create_service_mux_struct_dispatch_def)
  show "listen_with_services bind local_addr server addr (cal_service oc env) (echo_service env) = Ok (server', a, d) \<longrightarrow>
     d = create_service_mux_dispatch (cal_service oc env) (echo_service env) \<and> rs_listeners (snd server') =
       rs_listeners (snd server) @ [(L_Running, addr)]"
    by (auto simp: listen_with_services_def create_service_mux_dispatch_def Let_def rs_spawn_def
        split: prod.splits sum.splits dest!: rs_listen_spawns)
qed (rule cal_expand echo_expand)+

theorem sample_expansion_witness:
  "\<exists>server' d. listen_with_services Ok (\<lambda>_. Ok (str ''127.0.0.1:80'')) (create_api_server server_config_default ()) (str ''127.0.0.1:0'')
       (cal_service True fixed_env) (echo_service fixed_env) = Ok (server', str ''127.0.0.1:80'', d) \<and>
     d = create_service_mux_dispatch (cal_service True fixed_env) (echo_service fixed_env) \<and>
     rs_listeners (snd server') = [(L_Running, str ''127.0.0.1:0'')]"
proof -
  let ?server = "create_api_server server_config_default ()"
  let ?l = "listen_with_services Ok (\<lambda>_. Ok (str ''127.0.0.1:80'')) ?server (str ''127.0.0.1:0'') (cal_service True fixed_env) (echo_service fixed_env)"
  obtain server' d where l: "?l = Ok (server', str ''127.0.0.1:80'', d)"
    by (simp add: listen_with_services_def rs_listen_def)
  with sample_expansion [of 0 "(0, 0)" "[]" True fixed_env Ok "\<lambda>_. Ok (str ''127.0.0.1:80'')" ?server "str ''127.0.0.1:0''"
      server' "str ''127.0.0.1:80''" d]
  show ?thesis by (intro exI [of _ server'] exI [of _ d]) (simp add: create_api_server_def rs_new_def)
qed

lemma sample_calls_each:
  fixes oc env noti
  defines "serve \<equiv> mux_struct_serve (sample_services oc env)"
  assumes "env_ok env" "\<forall>(c, n) \<in> set calls. call_ok c \<and> sample_run oc env c \<noteq> Panic"
    and "map (\<lambda>(c, n). sample_make env c n) calls = map Return ts"
    and "list_all2 (\<lambda>t u. \<exists>s. u = ct_set_seq uapi_ops s t) ts us" "i < length calls"
  shows "call_served serve noti (us ! i) \<and>
    (\<exists>v. api_done (event_task (received uapi_ops () (the (api_reply serve noti (to_req (call_wire_req (us ! i))))) (us ! i))) =
        Return (snd (calls ! i), v) \<and> sample_finish env (fst (calls ! i)) (Ok v) = sample_run oc env (fst (calls ! i)))"
proof -
  have len: "length calls = length ts" using arg_cong [OF assms(4), of length] by simp
  obtain c n where c: "calls ! i = (c, n)" by fastforce
  then have "(c, n) \<in> set calls" using assms(6) by (metis nth_mem)
  then obtain res where ok: "call_ok c" "sample_run oc env c = Return res"
    using assms(3) by (cases "sample_run oc env c") auto
  have t: "sample_make env c n = Return (ts ! i)"
    using arg_cong [OF assms(4), of "\<lambda>xs. xs ! i"] assms(6) len c by simp
  obtain s where s: "us ! i = ct_set_seq uapi_ops s (ts ! i)" using list_all2_nthD [OF assms(5)] assms(6) len by auto
  have "ar_action (us ! i) = sample_action c" using sample_make_action [OF t] sent_call [OF s] by simp
  then show ?thesis
    using sample_call_answered [OF assms(2) ok t s, of noti] sample_action_ok [of c] c ok(2)
    by (auto simp: call_served_def serve_def)
qed

text \<open>
  C8: the sample application, end to end. Any calls of the methods of both clients, made back to back over one
  connection to a server with both services, are all answered, in every interleaving of the server's
  reader and writer and however the bytes arrive: each caller gets on its own channel what the method of
  that name gives for its argument when run directly, a value, a user error or a string. The methods must
  not panic, which only arithmetic overflow makes them do.
\<close>

theorem sample_calls_correct:
  assumes "env_ok env" and "\<forall>(c, n) \<in> set calls. call_ok c \<and> sample_run oc env c \<noteq> Panic" and "alloc_ok alloc"
    and "map (\<lambda>(c, n). sample_make env c n) calls = map Return ts"
    and "send_all uapi_ops (tcp_transport alloc uapi_ops) () ts st = Some (st', us)"
    and "stream_inv (tc_stream (cs_conn st))" and "tx (cs_conn st) = []"
    and "tcp_new_conn inp \<lparr>sk_out = [], sk_script = sc\<rparr> config = Return k0"
    and "all_data inp" and "script_data inp = tx (cs_conn st')"
    and "server_run alloc (api_dispatch_req (create_service_mux_dispatch (cal_service oc env) (echo_service env)) noti)
      api_resp_encode () aq_seq ap_seq k0 evs k" and "sn_writer k = W_Closed"
    and "timer_inv uapi_ops tm" and "\<not> tm_reg_stopped tm" and "mset us \<subseteq># timer_tasks tm"
    and "rx (tc_stream conn) (sk_out (bs_out (ts_stream (sn_conn k))))"
  shows "\<exists>conn' tm' handed. read_resps alloc uapi_ops () cl (length calls) tm conn = Fin (conn', tm', handed, Ok ()) \<and>
    timer_tasks tm = mset us + timer_tasks tm' \<and>
    list_all2 (\<lambda>(c, n) ev. \<exists>v. api_done (event_task ev) = Return (n, v) \<and> sample_finish env c (Ok v) = sample_run oc env c)
      calls handed"
proof -
  let ?serve = "mux_struct_serve (sample_services oc env)"
  let ?r = "\<lambda>u. the (api_reply ?serve noti (to_req (call_wire_req u)))"
  have len: "length calls = length ts" using arg_cong [OF assms(4), of length] by simp
  have lu: "list_all2 (\<lambda>t u. \<exists>s. u = ct_set_seq uapi_ops s t) ts us"
    by (rule send_all_numbers [OF api.client_task_axioms assms(6,5)])
  note each = sample_calls_each [OF assms(1,2,4) lu]
  have lens: "length us = length calls" using list_all2_lengthD [OF lu] len by simp
  then have "\<forall>u \<in> set us. call_served ?serve noti u" using each by (metis in_set_conv_nth)
  from calls_answered [OF sample_service assms(3,5,6,7) this assms(8-10) assms(11) [unfolded sample_dispatch] assms(12-16), of cl]
  obtain conn' tm' where "read_resps alloc uapi_ops () cl (length ts) tm conn =
      Fin (conn', tm', map (\<lambda>u. received uapi_ops () (?r u) u) us, Ok ())" "timer_tasks tm = mset us + timer_tasks tm'"
    by blast
  moreover have "list_all2 (\<lambda>(c, n) ev. \<exists>v. api_done (event_task ev) = Return (n, v) \<and> sample_finish env c (Ok v) = sample_run oc env c)
      calls (map (\<lambda>u. received uapi_ops () (?r u) u) us)"
    using each lens by (auto simp: list_all2_conv_all_nth case_prod_beta)
  ultimately show ?thesis unfolding len by blast
qed

text \<open>Three calls, for a concrete instance.\<close>

definition three_calls :: "(sample_call \<times> nat) list" where
  "three_calls = [(Add (2, 3), 7), (Div (1, 0), 8), (Io_Error [], 9)]"

lemma three_made: "\<exists>ts. map (\<lambda>(c, n). sample_make fixed_env c n) three_calls = map Return ts \<and> length ts = 3 \<and>
    (\<forall>t \<in> set ts. \<exists>m. ar_req_msg t = Some m \<and> length m \<le> u32_MAX)"
  by (rule exI [of _ "map (\<lambda>(c, n). case sample_make fixed_env c n of Return t \<Rightarrow> t) three_calls"])
     (simp add: three_calls_def make_req_def fixed_env_def msgp_codec_def msgp_encode_def)

theorem sample_calls_correct_witness:
  "\<exists>tm conn conn' tm' e1 e2 e3 v1 v2 v3.
     read_resps (\<lambda>n. Some (unat n)) uapi_ops () None 3 tm conn = Fin (conn', tm', [e1, e2, e3], Ok ()) \<and>
     api_done (event_task e1) = Return (7, v1) \<and> sample_finish fixed_env (Add (2, 3)) (Ok v1) = Return (Isize (Ok 5)) \<and>
     api_done (event_task e2) = Return (8, v2) \<and>
     sample_finish fixed_env (Div (1, 0)) (Ok v2) = Return (Quotient (Err (Rpc_User (str ''divide by zero'')))) \<and>
     api_done (event_task e3) = Return (9, v3) \<and> sample_finish fixed_env (Io_Error []) (Ok v3) = Return (Nothing (Err (Rpc_User 5)))"
proof -
  let ?alloc = "\<lambda>n :: i32. Some (unat n)" and ?serve = "mux_struct_serve (sample_services True fixed_env)"
  obtain ts where ts: "map (\<lambda>(c, n). sample_make fixed_env c n) three_calls = map Return ts" "length ts = 3"
    "\<forall>t \<in> set ts. \<exists>m. ar_req_msg t = Some m \<and> length m \<le> u32_MAX" using three_made by blast
  obtain st' us where s: "send_all uapi_ops (tcp_transport ?alloc uapi_ops) () ts sample_stream = Some (st', us)"
    using calls_sent [OF sample_stream_willing ts(3)] by blast
  have run: "sample_run True fixed_env (Add (2, 3)) = Return (Isize (Ok 5))"
    "sample_run True fixed_env (Div (1, 0)) = Return (Quotient (Err (Rpc_User (str ''divide by zero''))))"
    "sample_run True fixed_env (Io_Error []) = Return (Nothing (Err (Rpc_User 5)))"
    by (simp_all add: cal_add_def isize_add_def cal_div_def echo_io_error_def fixed_env_def)
  then have ok: "\<forall>(c, n) \<in> set three_calls. call_ok c \<and> sample_run True fixed_env c \<noteq> Panic"
    by (auto simp: three_calls_def)
  note lu = send_all_numbers [OF api.client_task_axioms sample_stream_fresh(1) s]
  have "length us = 3" "length three_calls = 3" using list_all2_lengthD [OF lu] ts(2) by (simp_all add: three_calls_def)
  then have served: "\<forall>u \<in> set us. call_served ?serve 0 u"
    using sample_calls_each [OF fixed_env_ok ok ts(1) lu] by (metis in_set_conv_nth)
  have "ts \<noteq> []" "length ts < 2 ^ 63" using ts(2) by auto
  from calls_instance [OF sample_service this s served]
  obtain inp k0 evs k tm and conn :: tcp_client where
    w: "tcp_new_conn inp \<lparr>sk_out = [], sk_script = []\<rparr> server_config_default = Return k0" "all_data inp"
    "script_data inp = tx (cs_conn st')"
    "server_run ?alloc (api_dispatch_req (inline_dispatch ?serve) 0) api_resp_encode () aq_seq ap_seq k0 evs k"
    "sn_writer k = W_Closed" "timer_inv uapi_ops tm" "\<not> tm_reg_stopped tm" "timer_tasks tm = mset us"
    "rx (tc_stream conn) (sk_out (bs_out (ts_stream (sn_conn k))))"
    by (elim exE conjE) (rule that)
  have sub: "mset us \<subseteq># timer_tasks tm" using w(8) by simp
  from sample_calls_correct [OF fixed_env_ok ok alloc_ok_unat ts(1) s sample_stream_fresh(1,2) w(1-3)
      w(4) [folded sample_dispatch] w(5-7) sub w(9), of None]
  obtain conn' tm' handed where b: "read_resps ?alloc uapi_ops () None (length three_calls) tm conn = Fin (conn', tm', handed, Ok ())"
    "list_all2 (\<lambda>(c, n) ev. \<exists>v. api_done (event_task ev) = Return (n, v) \<and>
      sample_finish fixed_env c (Ok v) = sample_run True fixed_env c) three_calls handed"
    by blast
  obtain e1 e2 e3 where e: "handed = [e1, e2, e3]" using b(2) by (auto simp: three_calls_def list_all2_Cons1)
  obtain v1 v2 v3 where
    "api_done (event_task e1) = Return (7, v1)" "sample_finish fixed_env (Add (2, 3)) (Ok v1) = sample_run True fixed_env (Add (2, 3))"
    "api_done (event_task e2) = Return (8, v2)" "sample_finish fixed_env (Div (1, 0)) (Ok v2) = sample_run True fixed_env (Div (1, 0))"
    "api_done (event_task e3) = Return (9, v3)" "sample_finish fixed_env (Io_Error []) (Ok v3) = sample_run True fixed_env (Io_Error [])"
    using b(2) unfolding e three_calls_def by (simp del: sample_run.simps sample_finish.simps) blast
  moreover have "length three_calls = 3" by (simp add: three_calls_def)
  ultimately show ?thesis using b(1) unfolding e run by metis
qed

text \<open>
  C30: the arithmetic of \<open>CalServer\<close> is exact. \<open>div\<close> answers a value exactly when the divisor is not zero and
  the quotient, rounded towards zero, is that value; it answers \<open>divide by zero\<close> exactly when the divisor is
  zero; and it panics exactly when the quotient is no \<open>isize\<close>, which its test of the divisor misses. With
  overflow checks \<open>add\<close> and \<open>inc\<close> answer the sum or panic, without them they never panic.
\<close>

theorem sample_arithmetic_exact:
  "(cal_div (a, b) = Return (Ok q) \<longleftrightarrow> b \<noteq> 0 \<and> sint q = sint a sdiv sint b) \<and>
   (cal_div (a, b) = Return (Err (Rpc_User (str ''divide by zero''))) \<longleftrightarrow> b = 0) \<and>
   (cal_div (a, b) = Panic \<longleftrightarrow> b \<noteq> 0 \<and> sint a sdiv sint b = 2 ^ 63) \<and>
   (cal_add True (a, b) = Return (Ok s) \<longleftrightarrow> sint s = sint a + sint b) \<and>
   cal_add False (a, b) = Return (Ok (a + b)) \<and> cal_inc oc a = cal_add oc (a, 1)"
proof (intro conjI)
  have q: "sint q = x \<longleftrightarrow> - (2 ^ 63) \<le> x \<and> x < 2 ^ 63 \<and> q = word_of_int x" for q :: isize and x
    using sint_isize [of q] sint_isize_of_int [of x] by auto
  have d: "cal_div (a, b) = (if b = 0 then Return (Err (Rpc_User (str ''divide by zero'')))
      else if - (2 ^ 63) \<le> sint a sdiv sint b \<and> sint a sdiv sint b < 2 ^ 63
        then Return (Ok (word_of_int (sint a sdiv sint b))) else Panic)"
    unfolding cal_div_def isize_div_def isize_sdiv_range by simp
  show "cal_div (a, b) = Return (Ok q) \<longleftrightarrow> b \<noteq> 0 \<and> sint q = sint a sdiv sint b"
    unfolding d q by auto
  show "cal_div (a, b) = Return (Err (Rpc_User (str ''divide by zero''))) \<longleftrightarrow> b = 0"
    unfolding d by simp
  show "cal_div (a, b) = Panic \<longleftrightarrow> b \<noteq> 0 \<and> sint a sdiv sint b = 2 ^ 63"
    unfolding d using isize_sdiv_range [of a b] by auto
  have "word_of_int (sint a + sint b) = a + b" by simp
  then show "cal_add True (a, b) = Return (Ok s) \<longleftrightarrow> sint s = sint a + sint b"
    unfolding q by (auto simp: cal_add_def isize_add_def)
qed (simp_all add: cal_add_def cal_inc_def isize_add_def)

end
