(* ===== verification/Rpc_Task_Macro.thy ===== *)
theory Rpc_Task_Macro
  imports Rpc_Macro
begin

text \<open>
  What the task macros of \<open>stream/macros\<close> accept and extract: \<open>client_task.rs\<close>, \<open>client_task_enum.rs\<close> and
  \<open>server_task_enum.rs\<close>. The code generated from what they extract is in \<open>Rpc_Gen_Task\<close>.
\<close>

section \<open>Attribute arguments\<close>

datatype meta = Lit_Str rust_str | Lit_Int int | Lit_Other | Meta_Path string | Meta_Other

text \<open>An action written in an attribute; \<open>consts\<close> gives the value of a path, cast to \<open>i32\<close>.\<close>

fun meta_action :: "(string \<Rightarrow> i32) \<Rightarrow> meta \<Rightarrow> rpc_action outcome" where
  "meta_action consts (Lit_Str s) = Return (Act_Str s)"
| "meta_action consts (Lit_Int i) = (case to_i32 i of Some n \<Rightarrow> Return (Act_Num n) | None \<Rightarrow> Panic)"
| "meta_action consts (Meta_Path p) = Return (Act_Num (consts p))"
| "meta_action consts Lit_Other = Panic"
| "meta_action consts Meta_Other = Panic"

section \<open>client\_task\<close>

fun check_option_inner_type :: "ty \<Rightarrow> bool" where
  "check_option_inner_type (Ty_Path False False [Seg i (Angle [Arg_Type _])]) = (i = ''Option'')"
| "check_option_inner_type _ = False"

text \<open>The arguments of the attribute: \<open>debug\<close> at most once, and at most one action.\<close>

fun task_args :: "meta list \<Rightarrow> bool \<Rightarrow> meta option \<Rightarrow> (bool \<times> meta option) outcome" where
  "task_args [] dbg act = Return (dbg, act)"
| "task_args (m # ms) dbg act =
     (if m = Meta_Path ''debug'' then (if dbg then Panic else task_args ms True act)
      else if act \<noteq> None then Panic else task_args ms dbg (Some m))"

record task_field =
  tf_name :: string
  tf_ty :: ty
  tf_tags :: "string list"

record task_marks =
  tk_common :: "(string \<times> ty) option"
  tk_req :: "(string \<times> ty) option"
  tk_resp :: "(string \<times> ty) option"
  tk_req_blob :: "(string \<times> ty) option"
  tk_resp_blob :: "(string \<times> ty) option"
  tk_action :: "(string \<times> ty) option"
  tk_res :: "(string \<times> ty) option"
  tk_noti :: "(string \<times> ty) option"

definition no_marks :: task_marks where
  "no_marks = \<lparr>tk_common = None, tk_req = None, tk_resp = None, tk_req_blob = None, tk_resp_blob = None,
     tk_action = None, tk_res = None, tk_noti = None\<rparr>"

datatype field_tag =
  Tag_Common | Tag_Req | Tag_Resp | Tag_Req_Blob | Tag_Resp_Blob | Tag_Action | Tag_Res | Tag_Noti

definition tag_of :: "string \<Rightarrow> field_tag option" where
  "tag_of s = map_of
     [(''common'', Tag_Common), (''req'', Tag_Req), (''resp'', Tag_Resp), (''req_blob'', Tag_Req_Blob),
      (''resp_blob'', Tag_Resp_Blob), (''action'', Tag_Action), (''res'', Tag_Res), (''noti'', Tag_Noti)] s"

text \<open>The effect of one tag; a second \<open>action\<close> panics, any other tag given again replaces the first.\<close>

fun task_tag :: "string \<Rightarrow> ty \<Rightarrow> field_tag \<Rightarrow> task_marks \<Rightarrow> task_marks outcome" where
  "task_tag n t Tag_Common k = Return (k\<lparr>tk_common := Some (n, t)\<rparr>)"
| "task_tag n t Tag_Req k = Return (k\<lparr>tk_req := Some (n, t)\<rparr>)"
| "task_tag n t Tag_Resp k = Return (k\<lparr>tk_resp := Some (n, t)\<rparr>)"
| "task_tag n t Tag_Req_Blob k = Return (k\<lparr>tk_req_blob := Some (n, t)\<rparr>)"
| "task_tag n t Tag_Resp_Blob k = Return (k\<lparr>tk_resp_blob := Some (n, t)\<rparr>)"
| "task_tag n t Tag_Action k = (if tk_action k \<noteq> None then Panic else Return (k\<lparr>tk_action := Some (n, t)\<rparr>))"
| "task_tag n t Tag_Res k = Return (k\<lparr>tk_res := Some (n, t)\<rparr>)"
| "task_tag n t Tag_Noti k = Return (k\<lparr>tk_noti := Some (n, t)\<rparr>)"

text \<open>The tags of the fields in order; tags the macro does not know are ignored.\<close>

fun task_tags :: "(string \<times> ty \<times> field_tag) list \<Rightarrow> task_marks \<Rightarrow> task_marks outcome" where
  "task_tags [] k = Return k"
| "task_tags ((n, t, tag) # ts) k =
     (case task_tag n t tag k of Panic \<Rightarrow> Panic | Return k \<Rightarrow> task_tags ts k)"

definition field_tags :: "task_field list \<Rightarrow> (string \<times> ty \<times> field_tag) list" where
  "field_tags fs =
     concat (map (\<lambda>f. map (\<lambda>tag. (tf_name f, tf_ty f, tag)) (List.map_filter tag_of (tf_tags f))) fs)"

text \<open>The type argument of a path type whose last segment is \<open>i\<close>.\<close>

fun inner_arg :: "string \<Rightarrow> ty \<Rightarrow> ty outcome" where
  "inner_arg i (Ty_Path _ _ segs) =
     (case last_opt segs of
        Some (Seg j (Angle (Arg_Type t # _))) \<Rightarrow> (if j = i then Return t else Panic)
      | _ \<Rightarrow> Panic)"
| "inner_arg i _ = Panic"

text \<open>The two arguments of a \<open>Result\<close>: the first is the unit type, the second a type.\<close>

fun result_err_arg :: "ty \<Rightarrow> ty outcome" where
  "result_err_arg (Ty_Path _ _ segs) =
     (case last_opt segs of
        Some (Seg j (Angle [Arg_Type (Ty_Tuple []), Arg_Type e])) \<Rightarrow> (if j = ''Result'' then Return e else Panic)
      | _ \<Rightarrow> Panic)"
| "result_err_arg _ = Panic"

definition res_error_type :: "ty \<Rightarrow> ty outcome" where
  "res_error_type t =
     (case inner_arg ''Option'' t of
        Panic \<Rightarrow> Panic
      | Return r \<Rightarrow>
          (case result_err_arg r of
             Panic \<Rightarrow> Panic
           | Return e \<Rightarrow> inner_arg ''RpcError'' e))"

definition noti_inner_type :: "ty \<Rightarrow> ty outcome" where
  "noti_inner_type t =
     (case inner_arg ''Option'' t of Panic \<Rightarrow> Panic | Return m \<Rightarrow> inner_arg ''MTx'' m)"

text \<open>Where the action comes from: a field, a \<open>String\<close> or a number, or the attribute, or the user's own code.\<close>

datatype action_source = From_Field string bool | Static_Action rpc_action | No_Action

definition action_source_of ::
  "(string \<Rightarrow> i32) \<Rightarrow> (string \<times> ty) option \<Rightarrow> meta option \<Rightarrow> action_source outcome" where
  "action_source_of consts field_action static_action =
     (case field_action of
        Some (n, t) \<Rightarrow>
          (case t of
             Ty_Path _ _ segs \<Rightarrow>
               (case last_opt segs of
                  Some g \<Rightarrow> Return (From_Field n (seg_ident g = ''String''))
                | None \<Rightarrow> Panic)
           | _ \<Rightarrow> Panic)
      | None \<Rightarrow>
          (case static_action of
             Some m \<Rightarrow> map_outcome_value Static_Action (meta_action consts m)
           | None \<Rightarrow> Return No_Action))"

record task_spec =
  ts_common_field :: string
  ts_req_field :: string
  ts_resp_field :: string
  ts_req_blob_field :: "string option"
  ts_resp_blob_field :: "string option"
  ts_action :: action_source
  ts_done :: "(ty \<times> ty) option"
  ts_debug :: bool

definition task_done_types :: "task_marks \<Rightarrow> (ty \<times> ty) option outcome" where
  "task_done_types k =
     (case (tk_res k, tk_noti k) of
        (Some (_, rt), Some (_, nt)) \<Rightarrow>
          (case res_error_type rt of
             Panic \<Rightarrow> Panic
           | Return e \<Rightarrow> map_outcome_value (\<lambda>n. Some (e, n)) (noti_inner_type nt))
      | _ \<Rightarrow> Return None)"

text \<open>\<open>fields\<close> is \<open>[]\<close> when the item is not a struct with named fields.\<close>

definition client_task_impl ::
  "(string \<Rightarrow> i32) \<Rightarrow> meta list \<Rightarrow> task_field list \<Rightarrow> task_spec outcome" where
  "client_task_impl consts args fs =
     (case (task_args args False None, task_tags (field_tags fs) no_marks) of
        (Return (dbg, static_action), Return k) \<Rightarrow>
          (if tk_action k \<noteq> None \<and> static_action \<noteq> None then Panic
           else if (tk_res k \<noteq> None) \<noteq> (tk_noti k \<noteq> None) then Panic
           else
             (case (tk_common k, tk_req k, tk_resp k) of
                (Some (c, _), Some (q, _), Some (p, pt)) \<Rightarrow>
                  (if \<not> check_option_inner_type pt then Panic
                   else
                     (case (action_source_of consts (tk_action k) static_action, task_done_types k) of
                        (Return a, Return dn) \<Rightarrow>
                          Return \<lparr>ts_common_field = c, ts_req_field = q, ts_resp_field = p,
                            ts_req_blob_field = map_option fst (tk_req_blob k),
                            ts_resp_blob_field = map_option fst (tk_resp_blob k), ts_action = a, ts_done = dn,
                            ts_debug = dbg\<rparr>
                      | _ \<Rightarrow> Panic))
              | _ \<Rightarrow> Panic))
      | _ \<Rightarrow> Panic)"

section \<open>The enum macros\<close>

text \<open>
  A variant: the types of its unnamed fields (\<open>None\<close> for named fields and unit variants), and the
  arguments of its \<open>#[action(..)]\<close> attributes in order.
\<close>

record enum_variant =
  ev_name :: string
  ev_fields :: "ty list option"
  ev_attrs :: "meta list list"

definition variant_inner :: "enum_variant \<Rightarrow> ty outcome" where
  "variant_inner v = (case ev_fields v of Some [t] \<Rightarrow> Return t | _ \<Rightarrow> Panic)"

fun client_action_attr :: "meta list list \<Rightarrow> meta option outcome" where
  "client_action_attr [] = Return None"
| "client_action_attr (ms # attrs) =
     (case ms of
        Lit_Str s # rest \<Rightarrow> (if rest \<noteq> [] then Panic else Return (Some (Lit_Str s)))
      | Lit_Int i # rest \<Rightarrow> (if rest \<noteq> [] then Panic else Return (Some (Lit_Int i)))
      | Lit_Other # rest \<Rightarrow> (if rest \<noteq> [] then Panic else Return (Some Lit_Other))
      | Meta_Path p # rest \<Rightarrow> Return (Some (Meta_Path p))
      | _ \<Rightarrow> client_action_attr attrs)"

fun client_enum_expand ::
  "(string \<Rightarrow> i32) \<Rightarrow> ty list \<Rightarrow> enum_variant list \<Rightarrow> (string \<times> ty \<times> rpc_action option) list outcome" where
  "client_enum_expand consts seen [] = Return []"
| "client_enum_expand consts seen (v # vs) =
     (case (variant_inner v, client_action_attr (ev_attrs v)) of
        (Return t, Return m) \<Rightarrow>
          (if t \<in> set seen then Panic
           else
             (case (case m of None \<Rightarrow> Return None | Some x \<Rightarrow> map_outcome_value Some (meta_action consts x)) of
                Panic \<Rightarrow> Panic
              | Return a \<Rightarrow>
                  map_outcome_value (\<lambda>r. (ev_name v, t, a) # r) (client_enum_expand consts (seen @ [t]) vs)))
      | _ \<Rightarrow> Panic)"

fun server_action_attr :: "meta list list \<Rightarrow> meta list" where
  "server_action_attr [] = []"
| "server_action_attr (ms # attrs) = (if ms \<noteq> [] then ms else server_action_attr attrs)"

fun meta_actions :: "(string \<Rightarrow> i32) \<Rightarrow> meta list \<Rightarrow> rpc_action list outcome" where
  "meta_actions consts [] = Return []"
| "meta_actions consts (m # ms) =
     (case meta_action consts m of
        Panic \<Rightarrow> Panic
      | Return a \<Rightarrow> map_outcome_value (\<lambda>as. a # as) (meta_actions consts ms))"

text \<open>The tokens of \<open>#[server_task_enum(..)]\<close>, with a type as one token.\<close>

datatype attr_token = Tok_Ident string | Tok_Comma | Tok_Eq | Tok_Type ty | Tok_Other

record server_attrs =
  sa_req :: bool
  sa_resp :: bool
  sa_resp_type :: "ty option"
  sa_error :: "ty option"

fun parse_server_attrs :: "attr_token list \<Rightarrow> server_attrs \<Rightarrow> server_attrs option" where
  "parse_server_attrs [] a = (if sa_error a = None then None else Some a)"
| "parse_server_attrs (Tok_Comma # ts) a = parse_server_attrs ts a"
| "parse_server_attrs (Tok_Ident i # ts) a =
     (if i = ''req'' then parse_server_attrs ts (a\<lparr>sa_req := True\<rparr>)
      else if i = ''resp'' then parse_server_attrs ts (a\<lparr>sa_resp := True\<rparr>)
      else if i = ''resp_type'' then
        (case ts of Tok_Eq # Tok_Type t # us \<Rightarrow> parse_server_attrs us (a\<lparr>sa_resp_type := Some t\<rparr>) | _ \<Rightarrow> None)
      else if i = ''error'' then
        (case ts of Tok_Eq # Tok_Type t # us \<Rightarrow> parse_server_attrs us (a\<lparr>sa_error := Some t\<rparr>) | _ \<Rightarrow> None)
      else None)"
| "parse_server_attrs (_ # ts) a = None"

fun server_variants ::
  "(string \<Rightarrow> i32) \<Rightarrow> bool \<Rightarrow> enum_variant list \<Rightarrow> (string \<times> ty \<times> rpc_action list) list outcome" where
  "server_variants consts req [] = Return []"
| "server_variants consts req (v # vs) =
     (case (variant_inner v, if req then meta_actions consts (server_action_attr (ev_attrs v)) else Return []) of
        (Return t, Return as) \<Rightarrow>
          (if req \<and> as = [] then Panic
           else map_outcome_value (\<lambda>r. (ev_name v, t, as) # r) (server_variants consts req vs))
      | _ \<Rightarrow> Panic)"

text \<open>The whole of \<open>server_task_enum_impl\<close>; the sub-types have to be different.\<close>

definition server_enum_expand ::
  "(string \<Rightarrow> i32) \<Rightarrow> server_attrs \<Rightarrow> enum_variant list \<Rightarrow> (string \<times> ty \<times> rpc_action list) list outcome" where
  "server_enum_expand consts a vs =
     (if sa_resp a = (sa_resp_type a \<noteq> None) then Panic
      else
        (case server_variants consts (sa_req a) vs of
           Panic \<Rightarrow> Panic
         | Return ws \<Rightarrow> (if distinct (map (\<lambda>(n, t, as). t) ws) then Return ws else Panic)))"

definition no_server_attrs :: server_attrs where
  "no_server_attrs = \<lparr>sa_req = False, sa_resp = False, sa_resp_type = None, sa_error = None\<rparr>"

text \<open>\<open>#[server_task_enum(..)]\<close> on an item, \<open>None\<close> when the item is not an enum.\<close>

definition server_task_enum_impl ::
  "(string \<Rightarrow> i32) \<Rightarrow> attr_token list \<Rightarrow> enum_variant list option \<Rightarrow> (string \<times> ty \<times> rpc_action list) list outcome" where
  "server_task_enum_impl consts toks item =
     (case item of
        None \<Rightarrow> Panic
      | Some vs \<Rightarrow>
          (case parse_server_attrs toks no_server_attrs of
             None \<Rightarrow> Panic
           | Some a \<Rightarrow> server_enum_expand consts a vs))"

text \<open>
  \<open>#[client_task_enum(..)]\<close>: its only argument is the error type; anything else is left over for the
  parser to reject, and a missing error type panics.
\<close>

definition client_enum_args :: "attr_token list \<Rightarrow> ty outcome" where
  "client_enum_args toks =
     (case toks of
        [Tok_Ident i, Tok_Eq, Tok_Type t] \<Rightarrow> (if i = ''error'' then Return t else Panic)
      | _ \<Rightarrow> Panic)"

definition client_task_enum_impl ::
  "(string \<Rightarrow> i32) \<Rightarrow> attr_token list \<Rightarrow> enum_variant list option \<Rightarrow> (ty \<times> (string \<times> ty \<times> rpc_action option) list) outcome" where
  "client_task_enum_impl consts toks item =
     (case client_enum_args toks of
        Panic \<Rightarrow> Panic
      | Return error_type \<Rightarrow>
          (case item of
             None \<Rightarrow> Panic
           | Some vs \<Rightarrow> map_outcome_value (\<lambda>cs. (error_type, cs)) (client_enum_expand consts [] vs)))"

section \<open>Marked fields\<close>

text \<open>The field a tag has marked.\<close>

fun mark_of :: "field_tag \<Rightarrow> task_marks \<Rightarrow> (string \<times> ty) option" where
  "mark_of Tag_Common k = tk_common k"
| "mark_of Tag_Req k = tk_req k"
| "mark_of Tag_Resp k = tk_resp k"
| "mark_of Tag_Req_Blob k = tk_req_blob k"
| "mark_of Tag_Resp_Blob k = tk_resp_blob k"
| "mark_of Tag_Action k = tk_action k"
| "mark_of Tag_Res k = tk_res k"
| "mark_of Tag_Noti k = tk_noti k"

lemma task_tag_mark:
  "task_tag n t tag k = Return k' \<Longrightarrow> mark_of tag' k' = (if tag' = tag then Some (n, t) else mark_of tag' k)"
  by (cases tag; cases tag') (auto split: if_splits)

text \<open>A mark comes from a field with that tag, and a tag always leaves a mark.\<close>

lemma task_tags_mark:
  "task_tags ts k = Return k' \<Longrightarrow>
    (case mark_of tag k' of
       None \<Rightarrow> mark_of tag k = None \<and> (\<forall>n t. (n, t, tag) \<notin> set ts)
     | Some (n, t) \<Rightarrow> mark_of tag k = Some (n, t) \<or> (n, t, tag) \<in> set ts)"
proof (induction ts k rule: task_tags.induct)
  case (1 k)
  then show ?case by (auto split: option.split)
next
  case (2 n t g ts k)
  then obtain k1 where k1: "task_tag n t g k = Return k1" "task_tags ts k1 = Return k'"
    by (auto split: outcome.splits)
  from 2(1) [OF this] task_tag_mark [OF k1(1)] show ?case
    by (auto split: option.splits if_splits)
qed

lemma marks_from_fields:
  assumes "task_tags (field_tags fs) no_marks = Return k"
  shows "mark_of tag k = None \<longleftrightarrow> (\<forall>n t. (n, t, tag) \<notin> set (field_tags fs))"
    and "mark_of tag k = Some (n, t) \<Longrightarrow> (n, t, tag) \<in> set (field_tags fs)"
proof -
  have "mark_of tag no_marks = None" by (cases tag) (simp_all add: no_marks_def)
  with task_tags_mark [OF assms, of tag]
  show "mark_of tag k = None \<longleftrightarrow> (\<forall>n t. (n, t, tag) \<notin> set (field_tags fs))"
    "mark_of tag k = Some (n, t) \<Longrightarrow> (n, t, tag) \<in> set (field_tags fs)"
    by (auto split: option.splits)
qed

lemma task_args_action:
  "task_args args dbg act = Return (d, st) \<Longrightarrow>
    (case st of
       None \<Rightarrow> act = None \<and> set args \<subseteq> {Meta_Path ''debug''}
     | Some m \<Rightarrow> act = Some m \<or> m \<in> set args)"
  by (induction args dbg act rule: task_args.induct) (auto split: if_splits option.splits)

lemma client_task_implE:
  assumes "client_task_impl consts args fs = Return spec"
  obtains dbg st k c ct q qt p pt a dn where
    "task_args args False None = Return (dbg, st)" "task_tags (field_tags fs) no_marks = Return k"
    "tk_action k = None \<or> st = None" "tk_res k = None \<longleftrightarrow> tk_noti k = None"
    "tk_common k = Some (c, ct)" "tk_req k = Some (q, qt)" "tk_resp k = Some (p, pt)" "check_option_inner_type pt"
    "action_source_of consts (tk_action k) st = Return a" "task_done_types k = Return dn"
    "ts_common_field spec = c" "ts_req_field spec = q" "ts_resp_field spec = p" "ts_action spec = a" "ts_done spec = dn"
proof -
  obtain dbg st where 1: "task_args args False None = Return (dbg, st)"
    using assms by (cases "task_args args False None") (auto simp: client_task_impl_def)
  obtain k where 2: "task_tags (field_tags fs) no_marks = Return k"
    using assms 1 by (cases "task_tags (field_tags fs) no_marks") (auto simp: client_task_impl_def)
  note e = assms [unfolded client_task_impl_def 1 2, simplified]
  have 3: "tk_action k = None \<or> st = None" "tk_res k = None \<longleftrightarrow> tk_noti k = None"
    using e by (cases "tk_action k"; cases st; cases "tk_res k"; cases "tk_noti k"; simp)+
  obtain c ct where 4: "tk_common k = Some (c, ct)" using e by (cases "tk_common k") (auto split: if_splits)
  obtain q qt where 5: "tk_req k = Some (q, qt)" using e 4 by (cases "tk_req k") (auto split: if_splits)
  obtain p pt where 6: "tk_resp k = Some (p, pt)" using e 4 5 by (cases "tk_resp k") (auto split: if_splits)
  obtain a where 7: "action_source_of consts (tk_action k) st = Return a"
    using e 4 5 6 by (cases "action_source_of consts (tk_action k) st") (auto split: if_splits)
  obtain dn where 8: "task_done_types k = Return dn"
    using e 4 5 6 7 by (cases "task_done_types k") (auto split: if_splits)
  from e 4 5 6 7 8 have "check_option_inner_type pt" "ts_common_field spec = c" "ts_req_field spec = q"
    "ts_resp_field spec = p" "ts_action spec = a" "ts_done spec = dn"
    by (auto split: if_splits)
  with 1 2 3 4 5 6 7 8 show thesis by (intro that)
qed

lemma done_types:
  assumes "task_done_types k = Return dn" "tk_res k = None \<longleftrightarrow> tk_noti k = None"
  shows "case dn of
      None \<Rightarrow> tk_res k = None \<and> tk_noti k = None
    | Some (e, x) \<Rightarrow> (\<exists>n t. tk_res k = Some (n, t) \<and> res_error_type t = Return e) \<and>
        (\<exists>n t. tk_noti k = Some (n, t) \<and> noti_inner_type t = Return x)"
  using assms by (auto simp: task_done_types_def split: option.splits outcome.splits prod.splits)

lemma action_source_cases:
  assumes "action_source_of consts act st = Return a" "act = None \<or> st = None"
  shows "case a of
      From_Field n b \<Rightarrow> (\<exists>t. act = Some (n, t)) \<and> st = None
    | Static_Action x \<Rightarrow> act = None \<and> (\<exists>m. st = Some m \<and> meta_action consts m = Return x)
    | No_Action \<Rightarrow> act = None"
  using assms by (auto simp: action_source_of_def split: option.splits ty.splits)

lemma attr_actions_agree:
  assumes "client_action_attr attrs = Return (Some x)" "meta_action consts x = Return a"
    and "meta_actions consts (server_action_attr attrs) = Return as"
  shows "a \<in> set as"
  using assms
proof (induction attrs)
  case (Cons ms attrs)
  show ?case
  proof (cases ms)
    case (Cons m rest)
    with Cons.prems show ?thesis by (cases m) (auto split: if_splits option.splits outcome.splits)
  qed (use Cons in auto)
qed simp

lemma variants_agree:
  assumes "client_enum_expand consts seen vs = Return cs" "server_variants consts True ws = Return ss"
    and "map ev_attrs vs = map ev_attrs ws"
  shows "list_all2 (\<lambda>(n, t, a) (n', t', as). \<forall>x. a = Some x \<longrightarrow> x \<in> set as) cs ss"
  using assms
proof (induction vs arbitrary: seen ws cs ss)
  case (Cons v vs)
  then obtain w ws' where ws: "ws = w # ws'" "ev_attrs v = ev_attrs w" "map ev_attrs vs = map ev_attrs ws'" by auto
  from Cons.prems(1) obtain t m a cs' where c: "client_action_attr (ev_attrs v) = Return m"
    "(case m of None \<Rightarrow> Return None | Some x \<Rightarrow> map_outcome_value Some (meta_action consts x)) = Return a"
    "client_enum_expand consts (seen @ [t]) vs = Return cs'" "cs = (ev_name v, t, a) # cs'"
    by (auto split: outcome.splits if_splits)
  from Cons.prems(2) obtain t' as ss' where s: "meta_actions consts (server_action_attr (ev_attrs w)) = Return as"
    "server_variants consts True ws' = Return ss'" "ss = (ev_name w, t', as) # ss'"
    unfolding ws(1) by (auto split: outcome.splits if_splits)
  have "\<forall>x. a = Some x \<longrightarrow> x \<in> set as"
    using c(1,2) s(1) attr_actions_agree ws(2) by (auto split: option.splits)
  with Cons.IH [OF c(3) s(2) ws(3)] c(4) s(3) show ?case by simp
qed auto

section \<open>Properties\<close>

text \<open>
  C32: a struct that \<open>#[client_task]\<close> accepts has the fields the generated code uses: one marked for the
  common part, the request and the response, the last of the type \<open>Option\<close>; a result field exactly
  when it has a notification field, with the error type taken from \<open>Option<Result<(), RpcError<E>>>\<close>;
  and its action comes from a marked field or from the attribute, never from both.
\<close>

theorem client_task_accepts:
  assumes "client_task_impl consts args fs = Return spec"
  shows "(\<exists>t. (ts_common_field spec, t, Tag_Common) \<in> set (field_tags fs)) \<and>
    (\<exists>t. (ts_req_field spec, t, Tag_Req) \<in> set (field_tags fs)) \<and>
    (\<exists>t. (ts_resp_field spec, t, Tag_Resp) \<in> set (field_tags fs) \<and> check_option_inner_type t) \<and>
    (case ts_done spec of
       None \<Rightarrow> \<forall>n t. (n, t, Tag_Res) \<notin> set (field_tags fs) \<and> (n, t, Tag_Noti) \<notin> set (field_tags fs)
     | Some (e, x) \<Rightarrow> (\<exists>n t. (n, t, Tag_Res) \<in> set (field_tags fs) \<and> res_error_type t = Return e) \<and>
         (\<exists>n t. (n, t, Tag_Noti) \<in> set (field_tags fs) \<and> noti_inner_type t = Return x)) \<and>
    (case ts_action spec of
       From_Field n b \<Rightarrow> (\<exists>t. (n, t, Tag_Action) \<in> set (field_tags fs)) \<and> set args \<subseteq> {Meta_Path ''debug''}
     | Static_Action a \<Rightarrow> (\<forall>n t. (n, t, Tag_Action) \<notin> set (field_tags fs)) \<and>
         (\<exists>m \<in> set args. meta_action consts m = Return a)
     | No_Action \<Rightarrow> \<forall>n t. (n, t, Tag_Action) \<notin> set (field_tags fs))"
proof -
  from assms obtain dbg st k c ct q qt p pt a dn where k:
    "task_args args False None = Return (dbg, st)" "task_tags (field_tags fs) no_marks = Return k"
    "tk_action k = None \<or> st = None" "tk_res k = None \<longleftrightarrow> tk_noti k = None"
    "tk_common k = Some (c, ct)" "tk_req k = Some (q, qt)" "tk_resp k = Some (p, pt)" "check_option_inner_type pt"
    "action_source_of consts (tk_action k) st = Return a" "task_done_types k = Return dn"
    "ts_common_field spec = c" "ts_req_field spec = q" "ts_resp_field spec = p" "ts_action spec = a" "ts_done spec = dn"
    by (rule client_task_implE)
  note none = marks_from_fields(1) [OF k(2)] and some = marks_from_fields(2) [OF k(2)]
  have "(c, ct, Tag_Common) \<in> set (field_tags fs)" "(q, qt, Tag_Req) \<in> set (field_tags fs)"
    "(p, pt, Tag_Resp) \<in> set (field_tags fs)"
    using some [of Tag_Common] some [of Tag_Req] some [of Tag_Resp] k(5-7) by simp_all
  moreover have "case dn of
       None \<Rightarrow> \<forall>n t. (n, t, Tag_Res) \<notin> set (field_tags fs) \<and> (n, t, Tag_Noti) \<notin> set (field_tags fs)
     | Some (e, x) \<Rightarrow> (\<exists>n t. (n, t, Tag_Res) \<in> set (field_tags fs) \<and> res_error_type t = Return e) \<and>
         (\<exists>n t. (n, t, Tag_Noti) \<in> set (field_tags fs) \<and> noti_inner_type t = Return x)"
    using done_types [OF k(10,4)] none [of Tag_Res] none [of Tag_Noti] some [of Tag_Res] some [of Tag_Noti]
    by (fastforce split: option.splits)
  moreover have "case a of
       From_Field n b \<Rightarrow> (\<exists>t. (n, t, Tag_Action) \<in> set (field_tags fs)) \<and> set args \<subseteq> {Meta_Path ''debug''}
     | Static_Action x \<Rightarrow> (\<forall>n t. (n, t, Tag_Action) \<notin> set (field_tags fs)) \<and>
         (\<exists>m \<in> set args. meta_action consts m = Return x)
     | No_Action \<Rightarrow> \<forall>n t. (n, t, Tag_Action) \<notin> set (field_tags fs)"
    using action_source_cases [OF k(9,3)] task_args_action [OF k(1)] none [of Tag_Action] some [of Tag_Action]
    by (fastforce split: action_source.splits)
  ultimately show ?thesis using k(8,11-15) by blast
qed

text \<open>The struct of the macro's documentation, for a concrete instance.\<close>

definition open_fields :: "task_field list" where
  "open_fields =
     [\<lparr>tf_name = ''common'', tf_ty = path_ty ''ClientTaskCommon'' [], tf_tags = [''common'']\<rparr>,
      \<lparr>tf_name = ''req'', tf_ty = path_ty ''FileOpenReq'' [], tf_tags = [''req'']\<rparr>,
      \<lparr>tf_name = ''resp'', tf_ty = path_ty ''Option'' [Arg_Type (path_ty ''FileOpenResp'' [])], tf_tags = [''resp'']\<rparr>,
      \<lparr>tf_name = ''res'', tf_ty = path_ty ''Option'' [Arg_Type (path_ty ''Result'' [Arg_Type (Ty_Tuple []),
         Arg_Type (path_ty ''RpcError'' [Arg_Type (path_ty ''Errno'' [])])])], tf_tags = [''res'']\<rparr>,
      \<lparr>tf_name = ''noti'', tf_ty = path_ty ''Option'' [Arg_Type (path_ty ''MTx'' [Arg_Type (path_ty ''Self'' [])])],
        tf_tags = [''noti'']\<rparr>]"

lemma open_fields_tags:
  "field_tags open_fields =
     [(''common'', path_ty ''ClientTaskCommon'' [], Tag_Common), (''req'', path_ty ''FileOpenReq'' [], Tag_Req),
      (''resp'', path_ty ''Option'' [Arg_Type (path_ty ''FileOpenResp'' [])], Tag_Resp),
      (''res'', path_ty ''Option'' [Arg_Type (path_ty ''Result'' [Arg_Type (Ty_Tuple []),
         Arg_Type (path_ty ''RpcError'' [Arg_Type (path_ty ''Errno'' [])])])], Tag_Res),
      (''noti'', path_ty ''Option'' [Arg_Type (path_ty ''MTx'' [Arg_Type (path_ty ''Self'' [])])], Tag_Noti)]"
  by (simp add: field_tags_def open_fields_def tag_of_def List.map_filter_def)

theorem client_task_accepts_witness:
  "\<exists>spec. client_task_impl (\<lambda>p. 0) [Lit_Int 1] open_fields = Return spec \<and> ts_common_field spec = ''common'' \<and>
     ts_done spec = Some (path_ty ''Errno'' [], path_ty ''Self'' []) \<and> ts_action spec = Static_Action (Act_Num 1) \<and>
     (\<exists>t. (ts_resp_field spec, t, Tag_Resp) \<in> set (field_tags open_fields) \<and> check_option_inner_type t)"
proof -
  obtain spec where s: "client_task_impl (\<lambda>p. 0) [Lit_Int 1] open_fields = Return spec" "ts_common_field spec = ''common''"
    "ts_done spec = Some (path_ty ''Errno'' [], path_ty ''Self'' [])" "ts_action spec = Static_Action (Act_Num 1)"
    by (simp add: client_task_impl_def open_fields_tags no_marks_def action_source_of_def task_done_types_def
        res_error_type_def noti_inner_type_def path_ty_def last_opt_def to_i32_def)
  from client_task_accepts [OF s(1)] s show ?thesis by blast
qed

text \<open>
  C33: the enum macros agree on the actions: when a client enum and a server enum carry the same attributes on
  their variants, an action that the client's variant sends is one that the server's variant at the
  same place lists.
\<close>

theorem enum_macros_agree:
  assumes "client_task_enum_impl consts toks (Some vs) = Return (e, cs)"
    and "server_task_enum_impl consts toks' (Some ws) = Return ss"
    and "parse_server_attrs toks' no_server_attrs = Some at" and "sa_req at" and "map ev_attrs vs = map ev_attrs ws"
  shows "length cs = length ss \<and>
    (\<forall>i < length cs. \<forall>n t a. cs ! i = (n, t, Some a) \<longrightarrow> a \<in> set (snd (snd (ss ! i))))"
proof -
  have "client_enum_expand consts [] vs = Return cs"
    using assms(1) by (auto simp: client_task_enum_impl_def split: outcome.splits)
  moreover have "server_variants consts True ws = Return ss"
    using assms(2-4) by (auto simp: server_task_enum_impl_def server_enum_expand_def split: if_splits outcome.splits)
  ultimately show ?thesis
    using variants_agree [OF _ _ assms(5)] by (fastforce simp: list_all2_conv_all_nth)
qed

definition file_variants :: "enum_variant list" where
  "file_variants =
     [\<lparr>ev_name = ''Open'', ev_fields = Some [path_ty ''OpenTask'' []], ev_attrs = [[Lit_Int 1]]\<rparr>,
      \<lparr>ev_name = ''Read'', ev_fields = Some [path_ty ''ReadTask'' []], ev_attrs = [[Meta_Path ''Read'']]\<rparr>]"

theorem enum_macros_agree_witness:
  "\<exists>cs ss. client_task_enum_impl (\<lambda>p. 7) [Tok_Ident ''error'', Tok_Eq, Tok_Type Ty_Other] (Some file_variants) =
       Return (Ty_Other, cs) \<and>
     server_task_enum_impl (\<lambda>p. 7) [Tok_Ident ''req'', Tok_Comma, Tok_Ident ''resp'', Tok_Comma, Tok_Ident ''error'', Tok_Eq,
       Tok_Type Ty_Other] (Some file_variants) = Return ss \<and>
     length cs = length ss \<and> Act_Num 7 \<in> set (snd (snd (ss ! 1)))"
proof -
  let ?ct = "[Tok_Ident ''error'', Tok_Eq, Tok_Type Ty_Other]"
  let ?st = "[Tok_Ident ''req'', Tok_Comma, Tok_Ident ''resp'', Tok_Comma] @ ?ct"
  let ?cs = "[(''Open'', path_ty ''OpenTask'' [], Some (Act_Num 1)), (''Read'', path_ty ''ReadTask'' [], Some (Act_Num 7))]"
  have c: "client_task_enum_impl (\<lambda>p. 7) ?ct (Some file_variants) = Return (Ty_Other, ?cs)"
    by (simp add: client_task_enum_impl_def client_enum_args_def file_variants_def variant_inner_def to_i32_def path_ty_def)
  obtain at where at: "parse_server_attrs ?st no_server_attrs = Some at" "sa_req at"
    by (simp add: no_server_attrs_def)
  obtain ss where s: "server_task_enum_impl (\<lambda>p. 7) ?st (Some file_variants) = Return ss"
    by (simp add: server_task_enum_impl_def no_server_attrs_def server_enum_expand_def file_variants_def variant_inner_def to_i32_def path_ty_def)
  from enum_macros_agree [OF c s at(1,2) refl] c s show ?thesis by force
qed

end
