(* ===== verification/Rpc_Sample_File.thy ===== *)
theory Rpc_Sample_File
  imports Rpc_Pipeline Rpc_Task_Macro Rpc_Endpoint Rpc_Listen
begin

text \<open>
  The application of the stream layer that the repository carries, \<open>test-suite/src/stream\<close>: the tasks of a
  file client (\<open>client.rs\<close>), the server's task enum and its dispatcher (\<open>server.rs\<close>), and the server of
  \<open>basic/test_normal.rs\<close>, which keeps one buffer that is written and read.
\<close>

section \<open>Actions and messages\<close>

datatype file_action = FA_Open | FA_Read | FA_Write

text \<open>\<open>as u8\<close>, and back.\<close>

fun file_action_num :: "file_action \<Rightarrow> u8" where
  "file_action_num FA_Open = 1"
| "file_action_num FA_Read = 2"
| "file_action_num FA_Write = 3"

definition file_action_try_from :: "u8 \<Rightarrow> (file_action, 'errno rpc_error) result" where
  "file_action_try_from v =
     (if v = 1 then Ok FA_Open else if v = 2 then Ok FA_Read else if v = 3 then Ok FA_Write
      else Err (rpc_error_from_int Method))"

definition file_act :: "file_action \<Rightarrow> rpc_action" where
  "file_act a = Act_Num (ucast (file_action_num a))"

record file_open_req =
  or_path :: rust_str

record file_io_req =
  ir_inode :: u64
  ir_offset :: "64 word"
  ir_len :: "64 word"

record file_io_resp =
  ret_size :: u64

section \<open>The items of the client\<close>

text \<open>The values of the paths in the attributes, and the three structs with their marked fields.\<close>

definition file_consts :: "string \<Rightarrow> i32" where
  "file_consts p =
     (if p = ''FileAction::Open'' then ucast (file_action_num FA_Open)
      else if p = ''FileAction::Read'' then ucast (file_action_num FA_Read)
      else if p = ''FileAction::Write'' then ucast (file_action_num FA_Write)
      else 0)"

definition option_ty :: "ty \<Rightarrow> ty" where
  "option_ty t = path_ty ''Option'' [Arg_Type t]"

definition file_res_ty :: ty where
  "file_res_ty = option_ty (path_ty ''Result'' [Arg_Type (Ty_Tuple []),
     Arg_Type (path_ty ''RpcError'' [Arg_Type (path_ty ''Errno'' [])])])"

definition file_noti_ty :: ty where
  "file_noti_ty = option_ty (path_ty ''MTx'' [Arg_Type (path_ty ''FileClientTask'' [])])"

definition FileClientTaskOpen :: "task_field list" where
  "FileClientTaskOpen =
     [\<lparr>tf_name = ''common'', tf_ty = path_ty ''ClientTaskCommon'' [], tf_tags = [''common'']\<rparr>,
      \<lparr>tf_name = ''req'', tf_ty = path_ty ''FileOpenReq'' [], tf_tags = [''req'']\<rparr>,
      \<lparr>tf_name = ''resp'', tf_ty = option_ty (Ty_Tuple []), tf_tags = [''resp'']\<rparr>,
      \<lparr>tf_name = ''res'', tf_ty = file_res_ty, tf_tags = [''res'']\<rparr>,
      \<lparr>tf_name = ''sender'', tf_ty = file_noti_ty, tf_tags = [''noti'']\<rparr>]"

definition FileClientTaskRead :: "task_field list" where
  "FileClientTaskRead =
     [\<lparr>tf_name = ''common'', tf_ty = path_ty ''ClientTaskCommon'' [], tf_tags = [''common'']\<rparr>,
      \<lparr>tf_name = ''req'', tf_ty = path_ty ''FileIOReq'' [], tf_tags = [''req'']\<rparr>,
      \<lparr>tf_name = ''resp'', tf_ty = option_ty (path_ty ''FileIOResp'' []), tf_tags = [''resp'']\<rparr>,
      \<lparr>tf_name = ''read_data'', tf_ty = option_ty (path_ty ''Buffer'' []), tf_tags = [''resp_blob'']\<rparr>,
      \<lparr>tf_name = ''res'', tf_ty = file_res_ty, tf_tags = [''res'']\<rparr>,
      \<lparr>tf_name = ''sender'', tf_ty = file_noti_ty, tf_tags = [''noti'']\<rparr>]"

definition FileClientTaskWrite :: "task_field list" where
  "FileClientTaskWrite =
     [\<lparr>tf_name = ''common'', tf_ty = path_ty ''ClientTaskCommon'' [], tf_tags = [''common'']\<rparr>,
      \<lparr>tf_name = ''req'', tf_ty = path_ty ''FileIOReq'' [], tf_tags = [''req'']\<rparr>,
      \<lparr>tf_name = ''data'', tf_ty = path_ty ''Buffer'' [], tf_tags = [''req_blob'']\<rparr>,
      \<lparr>tf_name = ''resp'', tf_ty = option_ty (path_ty ''FileIOResp'' []), tf_tags = [''resp'']\<rparr>,
      \<lparr>tf_name = ''res'', tf_ty = file_res_ty, tf_tags = [''res'']\<rparr>,
      \<lparr>tf_name = ''sender'', tf_ty = file_noti_ty, tf_tags = [''noti'']\<rparr>]"

definition FileClientTask :: "enum_variant list" where
  "FileClientTask =
     [\<lparr>ev_name = ''Open'', ev_fields = Some [path_ty ''FileClientTaskOpen'' []], ev_attrs = [[Meta_Path ''FileAction::Open'']]\<rparr>,
      \<lparr>ev_name = ''Read'', ev_fields = Some [path_ty ''FileClientTaskRead'' []], ev_attrs = [[Meta_Path ''FileAction::Read'']]\<rparr>,
      \<lparr>ev_name = ''Write'', ev_fields = Some [path_ty ''FileClientTaskWrite'' []], ev_attrs = [[Meta_Path ''FileAction::Write'']]\<rparr>]"

definition FileServerTask :: "enum_variant list" where
  "FileServerTask =
     [\<lparr>ev_name = ''Open'', ev_fields = Some [path_ty ''ServerTaskOpen'' []], ev_attrs = [[Meta_Path ''FileAction::Open'']]\<rparr>,
      \<lparr>ev_name = ''IO'', ev_fields = Some [path_ty ''ServerTaskIO'' []],
       ev_attrs = [[Meta_Path ''FileAction::Read'', Meta_Path ''FileAction::Write'']]\<rparr>]"

text \<open>What the attributes of a struct select, as the macro read them.\<close>

definition attrs_of_spec :: "task_spec \<Rightarrow> gen_attrs" where
  "attrs_of_spec s =
     \<lparr>ga_action = (case ts_action s of Static_Action a \<Rightarrow> Some a | _ \<Rightarrow> None),
      ga_req_blob = (ts_req_blob_field s \<noteq> None), ga_resp_blob = (ts_resp_blob_field s \<noteq> None)\<rparr>"

definition file_attrs :: "file_action \<Rightarrow> gen_attrs" where
  "file_attrs a = \<lparr>ga_action = None, ga_req_blob = (a = FA_Write), ga_resp_blob = (a = FA_Read)\<rparr>"

lemmas file_syntax = FileClientTaskOpen_def FileClientTaskRead_def FileClientTaskWrite_def FileClientTask_def
  FileServerTask_def option_ty_def file_res_ty_def file_noti_ty_def path_ty_def

lemma file_struct_expand:
  "map_outcome_value attrs_of_spec (client_task_impl file_consts [Meta_Path ''debug''] FileClientTaskOpen) = Return (file_attrs FA_Open)"
  "map_outcome_value attrs_of_spec (client_task_impl file_consts [Meta_Path ''debug''] FileClientTaskRead) = Return (file_attrs FA_Read)"
  "map_outcome_value attrs_of_spec (client_task_impl file_consts [Meta_Path ''debug''] FileClientTaskWrite) = Return (file_attrs FA_Write)"
  by (simp_all add: client_task_impl_def field_tags_def List.map_filter_simps tag_of_def file_syntax no_marks_def action_source_of_def
      task_done_types_def res_error_type_def noti_inner_type_def last_opt_def attrs_of_spec_def file_attrs_def)

lemma file_client_expand:
  "client_task_enum_impl file_consts [Tok_Ident ''error'', Tok_Eq, Tok_Type (path_ty ''Errno'' [])] (Some FileClientTask) =
     Return (path_ty ''Errno'' [],
       [(''Open'', path_ty ''FileClientTaskOpen'' [], Some (file_act FA_Open)),
        (''Read'', path_ty ''FileClientTaskRead'' [], Some (file_act FA_Read)),
        (''Write'', path_ty ''FileClientTaskWrite'' [], Some (file_act FA_Write))])"
  by (simp add: client_task_enum_impl_def client_enum_args_def file_syntax variant_inner_def file_consts_def file_act_def)

lemma file_server_expand:
  "server_task_enum_impl file_consts
      [Tok_Ident ''req'', Tok_Comma, Tok_Ident ''resp'', Tok_Comma, Tok_Ident ''error'', Tok_Eq, Tok_Type (path_ty ''Errno'' [])]
      (Some FileServerTask) =
     Return [(''Open'', path_ty ''ServerTaskOpen'' [], [file_act FA_Open]),
       (''IO'', path_ty ''ServerTaskIO'' [], [file_act FA_Read, file_act FA_Write])]"
  by (simp add: server_task_enum_impl_def server_enum_expand_def no_server_attrs_def file_syntax variant_inner_def file_consts_def
      file_act_def)

section \<open>The tasks of the client\<close>

text \<open>
  What the sample takes from other crates: \<open>MsgpCodec\<close> at the types of its messages, the allocation of
  \<open>io_buffer\<close>, and of \<open>nix\<close> the numbers of \<open>Errno\<close> and two of its values, with the bound of the codec of
  \<open>Errno\<close>.
\<close>

record 'errno file_env =
  fe_open :: "file_open_req rmp"
  fe_unit :: "unit rmp"
  fe_io :: "file_io_req rmp"
  fe_resp :: "file_io_resp rmp"
  fe_buffer :: "i32 \<Rightarrow> rvec option"
  fe_max_addr :: u32
  fe_as_i32 :: "'errno \<Rightarrow> i32"
  fe_from_raw :: "i32 \<Rightarrow> 'errno"
  fe_einval :: 'errno
  fe_enosys :: 'errno

abbreviation fe_errno :: "'errno file_env \<Rightarrow> 'errno rpc_err_codec" where
  "fe_errno env \<equiv> codec_errno (fe_max_addr env) (fe_as_i32 env) (fe_from_raw env)"

type_synonym 'errno file_client_task =
  "((file_open_req, unit, 'errno) gen_task,
    ((file_io_req, file_io_resp, 'errno) gen_task, (file_io_req, file_io_resp, 'errno) gen_task) task_enum) task_enum"

type_synonym file_codecs =
  "(file_open_req rmp \<times> unit rmp) \<times> ((file_io_req rmp \<times> file_io_resp rmp) \<times> (file_io_req rmp \<times> file_io_resp rmp))"

definition file_client_ops :: "'errno file_env \<Rightarrow> (file_codecs, 'errno file_client_task) client_task_ops" where
  "file_client_ops env =
     client_enum_ops (Some (file_act FA_Open)) None (gen_ops (fe_buffer env) (file_attrs FA_Open) (fe_errno env))
       (client_enum_ops (Some (file_act FA_Read)) (Some (file_act FA_Write))
         (gen_ops (fe_buffer env) (file_attrs FA_Read) (fe_errno env))
         (gen_ops (fe_buffer env) (file_attrs FA_Write) (fe_errno env)))"

definition file_codecs_of :: "'errno file_env \<Rightarrow> file_codecs" where
  "file_codecs_of env = ((fe_open env, fe_unit env), ((fe_io env, fe_resp env), (fe_io env, fe_resp env)))"

text \<open>\<open>ClientTaskCommon::default()\<close> has number 0; the field for an action, which the structs do not have, is left at 0.\<close>

definition task_new :: "nat \<Rightarrow> 'q \<Rightarrow> bytes \<Rightarrow> ('q, 'p, 'e) gen_task" where
  "task_new sender req blob =
     \<lparr>gt_common = \<lparr>cm_seq = 0\<rparr>, gt_req = req, gt_resp = None, gt_req_blob = blob, gt_resp_blob = None,
      gt_resp_data = [], gt_action = Act_Num 0, gt_res = None, gt_noti = Some sender\<rparr>"

definition file_open_new :: "nat \<Rightarrow> rust_str \<Rightarrow> (file_open_req, unit, 'errno) gen_task" where
  "file_open_new sender path = task_new sender \<lparr>or_path = path\<rparr> []"

definition file_read_new :: "nat \<Rightarrow> u64 \<Rightarrow> 64 word \<Rightarrow> 64 word \<Rightarrow> (file_io_req, file_io_resp, 'errno) gen_task" where
  "file_read_new sender inode offset len = task_new sender \<lparr>ir_inode = inode, ir_offset = offset, ir_len = len\<rparr> []"

definition file_write_new :: "nat \<Rightarrow> u64 \<Rightarrow> 64 word \<Rightarrow> bytes \<Rightarrow> (file_io_req, file_io_resp, 'errno) gen_task" where
  "file_write_new sender inode offset data =
     task_new sender \<lparr>ir_inode = inode, ir_offset = offset, ir_len = of_nat (length data)\<rparr> data"

text \<open>What a caller does: it makes a task of one of the three kinds and wraps it with \<open>into()\<close>.\<close>

datatype file_call = Open_Call rust_str | Read_Call u64 "64 word" "64 word" | Write_Call u64 "64 word" bytes

fun file_task :: "nat \<Rightarrow> file_call \<Rightarrow> 'errno file_client_task" where
  "file_task sender (Open_Call path) = Variant_A (file_open_new sender path)"
| "file_task sender (Read_Call inode offset len) = Variant_B (Variant_A (file_read_new sender inode offset len))"
| "file_task sender (Write_Call inode offset data) = Variant_B (Variant_B (file_write_new sender inode offset data))"

definition file_get_result :: "'errno file_client_task \<Rightarrow> (unit, 'errno rpc_error) result" where
  "file_get_result = client_enum_get_result gen_get_result (client_enum_get_result gen_get_result gen_get_result)"

definition init_client ::
  "(rust_str \<Rightarrow> client_config \<Rightarrow> ('s, rpc_int_err) result async) \<Rightarrow> client_config \<Rightarrow> 'rt \<Rightarrow> rust_str \<Rightarrow> u64 option \<Rightarrow>
   (('s, 't) client_stream, rpc_int_err) result async" where
  "init_client connect config rt addr last_resp_ts =
     (let facts = client_default_new config rt in
      stream_connect connect (client_get_config facts) (get_client_id facts) addr last_resp_ts)"

definition init_failover_client :: "client_config \<Rightarrow> 'rt \<Rightarrow> rust_str list \<Rightarrow> bool \<Rightarrow> ('s, 't) failover_sys" where
  "init_failover_client config rt addrs round_robin =
     (let facts = client_default_new config rt in
      failover_sys_new (client_get_config facts) addrs round_robin 3 100)"

section \<open>The server\<close>

type_synonym 'errno file_server_task =
  "((file_open_req, unit, 'errno) server_task_full, (file_io_req, file_io_resp, 'errno) server_task_full) task_enum"

definition file_decode :: "'errno file_env \<Rightarrow> (unit, 'errno file_server_task) server_decode" where
  "file_decode env _ =
     server_enum_decode [file_act FA_Open] [file_act FA_Read, file_act FA_Write] full_decode_req full_decode_req
       (msgp_codec (fe_open env), msgp_codec (fe_io env))"

definition file_encode :: "'errno file_env \<Rightarrow> (unit, 'errno file_server_task) server_encode" where
  "file_encode env _ =
     server_enum_encode (full_encode_resp (fe_errno env)) (full_encode_resp (fe_errno env))
       (msgp_codec (fe_unit env), msgp_codec (fe_resp env))"

definition new_closure_dispatcher ::
  "'errno file_env \<Rightarrow> ('errno file_server_task \<Rightarrow> ('errno file_server_task, 'errno file_server_task) dispatched) \<Rightarrow> nat \<Rightarrow>
   (unit, 'errno file_server_task, 'errno file_server_task) dispatch" where
  "new_closure_dispatcher env handle =
     closure_dispatch (file_decode env) (dk_task_handle (dispatch_closure_new handle))"

definition init_server :: "server_config \<Rightarrow> 'rt \<Rightarrow> 'rt server_default \<times> rpc_server" where
  "init_server config rt = (let facts = server_default_new config rt in (facts, rs_new))"

definition init_server_closure ::
  "(rust_str \<Rightarrow> 'l io_result) \<Rightarrow> ('l \<Rightarrow> rust_str io_result) \<Rightarrow> 'errno file_env \<Rightarrow>
   ('errno file_server_task \<Rightarrow> ('errno file_server_task, 'errno file_server_task) dispatched) \<Rightarrow> server_config \<Rightarrow> 'rt \<Rightarrow> rust_str \<Rightarrow>
   (('rt server_default \<times> rpc_server) \<times> rust_str \<times>
     (nat \<Rightarrow> (unit, 'errno file_server_task, 'errno file_server_task) dispatch), io_kind) result" where
  "init_server_closure bind local_addr env server_handle config rt addr =
     (let (facts, server) = init_server config rt;
          dispatch = new_closure_dispatcher env server_handle
      in case rs_listen bind local_addr addr server of
           (_, Inl e) \<Rightarrow> Err e
         | (server, Inr a) \<Rightarrow> Ok ((facts, server), a, dispatch))"

text \<open>
  The handler of \<open>test_client_server\<close>, with the buffer it shares; it gives the buffer afterwards, the
  tasks it answered and its result. \<open>set_result\<close> is \<open>full_set_result\<close> and the sending of the task.
\<close>

definition answer_io ::
  "bytes option \<Rightarrow> (unit, 'errno) result \<Rightarrow> (file_io_req, file_io_resp, 'errno) server_task_full \<Rightarrow> (unit, unit) result \<Rightarrow>
   (bytes option \<times> 'errno file_server_task list \<times> (unit, unit) result) outcome" where
  "answer_io store res t out =
     map_outcome_value (\<lambda>(t, noti). (store, [Variant_B t], out)) (full_set_result res t)"

definition file_handle ::
  "'errno file_env \<Rightarrow> bytes option \<Rightarrow> 'errno file_server_task \<Rightarrow>
   (bytes option \<times> 'errno file_server_task list \<times> (unit, unit) result) outcome" where
  "file_handle env store task =
     (case task of
        Variant_A open_task \<Rightarrow>
          map_outcome_value (\<lambda>(t, noti). (store, [Variant_A t], Ok ())) (full_set_result (Ok ()) open_task)
      | Variant_B io_task \<Rightarrow>
          (case full_get_action io_task of
             Act_Num action_num \<Rightarrow>
               (case file_action_try_from (ucast action_num) :: (file_action, 'errno rpc_error) result of
                  Inl _ \<Rightarrow> Return (store, [], Err ())
                | Inr FA_Read \<Rightarrow>
                    (let data_to_read = (case store of Some d \<Rightarrow> d | None \<Rightarrow> []) in
                     answer_io None (Ok ())
                       (io_task\<lparr>sf_resp_blob := Some data_to_read, sf_resp := Some \<lparr>ret_size = of_nat (length data_to_read)\<rparr>\<rparr>) (Ok ()))
                | Inr FA_Write \<Rightarrow>
                    (case sf_req_blob io_task of
                       Some blob \<Rightarrow>
                         answer_io (Some blob) (Ok ())
                           (io_task\<lparr>sf_req_blob := None, sf_resp := Some \<lparr>ret_size = of_nat (length blob)\<rparr>\<rparr>) (Ok ())
                     | None \<Rightarrow> answer_io store (Err (fe_einval env)) io_task (Ok ()))
                | Inr FA_Open \<Rightarrow> Panic)
           | Act_Str _ \<Rightarrow> answer_io store (Err (fe_enosys env)) io_task (Err ())))"

section \<open>What a call does\<close>

text \<open>The specification of a call: the buffer of the server afterwards, and what the caller finds in its task.\<close>

type_synonym 'errno file_found = "(unit, 'errno rpc_error) result \<times> u64 option \<times> bytes"

fun file_spec :: "'errno \<Rightarrow> bytes option \<Rightarrow> file_call \<Rightarrow> bytes option \<times> 'errno file_found" where
  "file_spec einval store (Open_Call path) = (store, Ok (), None, [])"
| "file_spec einval store (Read_Call inode offset len) =
     (None, Ok (), Some (of_nat (length (blob_bytes store))), blob_bytes store)"
| "file_spec einval store (Write_Call inode offset data) =
     (if data = [] then (store, Err (Rpc_User einval), None, [])
      else (Some data, Ok (), Some (of_nat (length data)), []))"

fun file_found :: "'errno file_client_task \<Rightarrow> 'errno file_found" where
  "file_found (Variant_A t) = (gen_get_result t, None, [])"
| "file_found (Variant_B (Variant_A t)) = (gen_get_result t, map_option ret_size (gt_resp t), gt_resp_data t)"
| "file_found (Variant_B (Variant_B t)) = (gen_get_result t, map_option ret_size (gt_resp t), [])"

text \<open>What is documented of the other crates.\<close>

definition file_env_ok :: "'errno file_env \<Rightarrow> bool" where
  "file_env_ok env \<longleftrightarrow> (\<forall>q. utf8_valid (or_path q) \<longrightarrow> rmp_supports (fe_open env) q) \<and> (\<forall>q. rmp_supports (fe_io env) q) \<and>
     (\<forall>p. rmp_carries u32_MAX (fe_resp env) p) \<and>
     (\<forall>n. \<exists>v. fe_buffer env n = Some v \<and> rlen v = i32_as_usize n) \<and>
     fe_as_i32 env (fe_einval env) \<le> fe_max_addr env \<and> fe_from_raw env (fe_as_i32 env (fe_einval env)) = fe_einval env"

fun file_call_ok :: "file_call \<Rightarrow> bool" where
  "file_call_ok (Open_Call path) = utf8_valid path"
| "file_call_ok _ = True"

lemmas file_ops_defs = file_client_ops_def client_enum_ops_def enum_get_action_def gen_ops_def file_codecs_of_def
  file_attrs_def

interpretation file_io: client_enum "gen_ops al at ec" gen_msg
  "client_enum_ops a b (gen_ops al' at' ec') (gen_ops al'' at'' ec'')" "enum_msg gen_msg gen_msg"
  for al at ec a b al' at' ec' al'' at'' ec''
  by unfold_locales

abbreviation file_msg :: "file_codecs \<Rightarrow> 'errno file_client_task \<Rightarrow> bytes" where
  "file_msg \<equiv> enum_msg gen_msg (enum_msg gen_msg gen_msg)"

lemma file_client_task: "client_task (file_client_ops env) file_msg"
  unfolding file_client_ops_def by (rule file_io.enum_client_task)

interpretation file_resp: server_enum "full_encode_resp ec" "msgp_codec r" sf_seq "full_answer ec r"
  "full_encode_resp ec'" "msgp_codec r'" sf_seq "full_answer ec' r'" for ec r ec' r'
  by unfold_locales

definition file_answer :: "'errno file_env \<Rightarrow> 'errno file_server_task \<Rightarrow> response option" where
  "file_answer env =
     case_task_enum (full_answer (fe_errno env) (fe_unit env)) (full_answer (fe_errno env) (fe_resp env))"

lemma file_server_task: "server_task (file_encode env) () (case_task_enum sf_seq sf_seq) (file_answer env)"
  using file_resp.enum_server_task [where ec = "fe_errno env" and r = "fe_unit env" and ec' = "fe_errno env" and r' = "fe_resp env"]
  by (simp add: server_task_def file_encode_def file_answer_def)

lemma gen_reserve_exact:
  assumes "\<forall>n. \<exists>v. al n = Some v \<and> rlen v = i32_as_usize n"
    and "gen_reserve_resp_blob al at t (of_nat k) = (t', Some n)" "k \<le> i32_MAX"
  shows "n = k"
proof -
  have k: "i32_as_usize (of_nat k) = k" using assms(3) by (intro i32_as_usize_small) simp
  obtain v where "al (of_nat k) = Some v" "rlen v = k" using assms(1) k by metis
  then show ?thesis
    using assms(2) k
    by (auto simp: gen_reserve_resp_blob_def reserve_opt_buffer_def Let_def split: if_splits option.splits)
qed

lemma file_reserve_ok: "file_env_ok env \<Longrightarrow> reserve_ok (file_client_ops env)"
  unfolding reserve_ok_def
  by (auto simp: file_ops_defs file_env_ok_def split: task_enum.splits prod.splits dest!: gen_reserve_exact)

section \<open>A call on its way\<close>

text \<open>The task that arrives at the server.\<close>

definition arrived :: "u64 \<Rightarrow> file_action \<Rightarrow> 'q \<Rightarrow> bytes \<Rightarrow> nat \<Rightarrow> ('q, 'p, 'errno) server_task_full" where
  "arrived seq a req blob noti =
     \<lparr>sf_seq = seq, sf_action = file_act a, sf_req = req, sf_req_blob = some_blob blob, sf_resp = None, sf_resp_blob = None,
      sf_res = None, sf_noti = Some noti\<rparr>"

fun file_request :: "u64 \<Rightarrow> nat \<Rightarrow> file_call \<Rightarrow> 'errno file_server_task" where
  "file_request seq noti (Open_Call path) = Variant_A (arrived seq FA_Open \<lparr>or_path = path\<rparr> [] noti)"
| "file_request seq noti (Read_Call inode offset len) =
     Variant_B (arrived seq FA_Read \<lparr>ir_inode = inode, ir_offset = offset, ir_len = len\<rparr> [] noti)"
| "file_request seq noti (Write_Call inode offset data) =
     Variant_B (arrived seq FA_Write \<lparr>ir_inode = inode, ir_offset = offset, ir_len = of_nat (length data)\<rparr> data noti)"

lemmas file_task_defs = file_ops_defs ct_set_seq_def file_open_new_def file_read_new_def file_write_new_def task_new_def

lemma supports_decode: "rmp_supports r m \<Longrightarrow> cd_decode (msgp_codec r) (fst (write_named r m)) = Ok m"
  by (auto simp: rmp_supports_def msgp_codec_def msgp_decode_def)

lemma full_decode_arrived:
  "cd_decode codec msg = Ok req \<Longrightarrow> full_decode_req codec (file_act a) seq msg (some_blob blob) noti = Ok (arrived seq a req blob noti)"
  by (simp add: full_decode_req_def arrived_def)

lemma file_act_inject [simp]: "file_act a = file_act b \<longleftrightarrow> a = b"
  by (cases a; cases b) (simp_all add: file_act_def)

lemma file_task_action:
  assumes "t = ct_set_seq (file_client_ops env) seq (file_task sender call)"
  shows "action_ok (ct_get_action (file_client_ops env) t) \<and> action_valid (ct_get_action (file_client_ops env) t)"
  using assms by (cases call) (simp_all add: file_task_defs file_act_def)

lemma file_request_decoded:
  assumes "file_env_ok env" "file_call_ok call" "t = ct_set_seq (file_client_ops env) seq (file_task sender call)"
  shows "file_decode env () (ct_get_action (file_client_ops env) t) seq (file_msg (file_codecs_of env) t)
      (some_blob (blob_bytes (ct_get_req_blob (file_client_ops env) t))) noti = Ok (file_request seq noti call)"
proof -
  have "utf8_valid path \<Longrightarrow> rmp_supports (fe_open env) \<lparr>or_path = path\<rparr>" "rmp_supports (fe_io env) q" for path q
    using assms(1) by (simp_all add: file_env_ok_def)
  note dec = this [THEN supports_decode]
  show ?thesis
    using assms(2,3)
    by (cases call)
       (simp_all add: file_task_defs enum_msg_def gen_msg_def gen_get_req_blob_def file_decode_def server_enum_decode_def
         decode_arm_def full_decode_arrived dec blob_bytes_def)
qed

text \<open>A response with a message that was stored, and what the task of the caller holds then.\<close>

lemma try_from_num [simp]:
  "file_action_try_from 1 = Ok FA_Open" "file_action_try_from 2 = Ok FA_Read" "file_action_try_from 3 = Ok FA_Write"
  by (simp_all add: file_action_try_from_def)

lemma get_action_arrived: "full_get_action (arrived seq a req blob noti) = Act_Num (ucast (file_action_num a))"
  by (simp add: full_get_action_def arrived_def file_act_def)

lemma carried_answer:
  assumes "file_env_ok env"
  obtains w where "write_named (fe_resp env) p = (w, True)" "from_slice (fe_resp env) w = Some p" "w \<noteq> []" "length w \<le> u32_MAX"
  using assms by (fastforce simp: file_env_ok_def rmp_carries_def rmp_supports_def)

lemma file_served:
  assumes "file_env_ok env" "t = ct_set_seq (file_client_ops env) seq (file_task sender call)"
    and "length (blob_bytes store) \<le> i32_MAX"
  shows "\<exists>v r. file_handle env store (file_request seq noti call) = Return (fst (file_spec (fe_einval env) store call), [v], Ok ()) \<and>
    case_task_enum sf_seq sf_seq v = seq \<and> file_answer env v = Some r \<and> resp_fits r \<and>
    file_found (event_task (received (file_client_ops env) (file_codecs_of env) r t)) = snd (file_spec (fe_einval env) store call)"
proof (cases call)
  case (Open_Call path)
  then show ?thesis
    using assms(2)
    by (simp add: file_handle_def full_set_result_def arrived_def file_answer_def full_answer_def blob_bytes_def received_msg_def
        file_task_defs gen_set_ok_def gen_get_result_def)
next
  case (Read_Call inode offset len)
  let ?d = "blob_bytes store"
  obtain w where w: "write_named (fe_resp env) \<lparr>ret_size = of_nat (length ?d)\<rparr> = (w, True)"
    "from_slice (fe_resp env) w = Some \<lparr>ret_size = of_nat (length ?d)\<rparr>" "w \<noteq> []" "length w \<le> u32_MAX"
    using carried_answer [OF assms(1)] by metis
  obtain b where b: "fe_buffer env (of_nat (length ?d)) = Some b" using assms(1) unfolding file_env_ok_def by blast
  have d: "(case store of None \<Rightarrow> [] | Some d \<Rightarrow> d) = ?d" by (simp add: blob_bytes_def split: option.split)
  show ?thesis
    using Read_Call assms(2,3) w b
    by (simp add: file_handle_def get_action_arrived answer_io_def Let_def d full_set_result_def)
       (simp add: arrived_def file_answer_def full_answer_def msg_answer_def blob_bytes_def [of "Some _"] received_msg_def
        file_task_defs gen_decode_resp_def gen_reserve_resp_blob_def reserve_opt_buffer_def msgp_codec_def msgp_decode_def
        gen_set_ok_def gen_get_result_def)
next
  case (Write_Call inode offset data)
  obtain w where w: "write_named (fe_resp env) \<lparr>ret_size = of_nat (length data)\<rparr> = (w, True)"
    "from_slice (fe_resp env) w = Some \<lparr>ret_size = of_nat (length data)\<rparr>" "w \<noteq> []" "length w \<le> u32_MAX"
    using carried_answer [OF assms(1)] by metis
  show ?thesis
    using Write_Call assms(1,2) w
    by (cases "data = []";
        simp add: file_handle_def get_action_arrived answer_io_def full_set_result_def;
        simp add: arrived_def some_blob_def file_answer_def full_answer_def msg_answer_def blob_bytes_def received_msg_def
        file_task_defs gen_decode_resp_def msgp_codec_def msgp_decode_def gen_set_ok_def gen_get_result_def codec_errno_def
        gen_set_custom_error_def file_env_ok_def err_body_def rpc_error_from_user_def answer_io_def full_set_result_def)
qed

section \<open>Properties\<close>

text \<open>
  What the macros make of the items of the sample: the generated structs have the blobs that the
  fields mark, the client enum sends the actions 1, 2 and 3, and the server enum lists the same actions,
  the first for one variant and the other two for the other; converting a number to an action gives it
  exactly for these three.
\<close>

theorem file_expansion:
  "map_outcome_value attrs_of_spec (client_task_impl file_consts [Meta_Path ''debug''] FileClientTaskOpen) = Return (file_attrs FA_Open) \<and>
   map_outcome_value attrs_of_spec (client_task_impl file_consts [Meta_Path ''debug''] FileClientTaskRead) = Return (file_attrs FA_Read) \<and>
   map_outcome_value attrs_of_spec (client_task_impl file_consts [Meta_Path ''debug''] FileClientTaskWrite) = Return (file_attrs FA_Write) \<and>
   client_task_enum_impl file_consts [Tok_Ident ''error'', Tok_Eq, Tok_Type (path_ty ''Errno'' [])] (Some FileClientTask) =
     Return (path_ty ''Errno'' [],
       [(''Open'', path_ty ''FileClientTaskOpen'' [], Some (file_act FA_Open)),
        (''Read'', path_ty ''FileClientTaskRead'' [], Some (file_act FA_Read)),
        (''Write'', path_ty ''FileClientTaskWrite'' [], Some (file_act FA_Write))]) \<and>
   server_task_enum_impl file_consts
      [Tok_Ident ''req'', Tok_Comma, Tok_Ident ''resp'', Tok_Comma, Tok_Ident ''error'', Tok_Eq, Tok_Type (path_ty ''Errno'' [])]
      (Some FileServerTask) =
     Return [(''Open'', path_ty ''ServerTaskOpen'' [], [file_act FA_Open]),
       (''IO'', path_ty ''ServerTaskIO'' [], [file_act FA_Read, file_act FA_Write])] \<and>
   (file_action_try_from n = (Ok a :: (file_action, 'errno rpc_error) result) \<longleftrightarrow> n = file_action_num a)"
  using file_struct_expand file_client_expand file_server_expand
  by (cases a) (auto simp: file_action_try_from_def)

text \<open>
  C9: the file service, end to end. A call of one of the three kinds is sent; what it puts on the wire makes
  the server read it, decode it into the variant for its action with its number, message and blob, and
  the handler answer it; the bytes of that answer, when they reach the client while the task is
  registered, hand exactly that task back, and the caller finds in it what the specification says: for
  an open success, for a read the buffer of the server with its size, for a write the size, the
  buffer then being the data, except that an empty write is refused with \<open>EINVAL\<close>.
\<close>

theorem file_exchange:
  fixes env :: "'errno file_env"
  defines "ops \<equiv> file_client_ops env" and "codecs \<equiv> file_codecs_of env"
  assumes "file_env_ok env" and "file_call_ok call" and "length (blob_bytes store) \<le> i32_MAX" and "alloc_ok alloc"
    and "send_request ops (tcp_transport alloc ops) codecs (file_task sender call) fl st = Fin (st', evs, Ok t)"
    and "stream_inv (tc_stream (cs_conn st))"
  shows "\<exists>wire resp. tx (cs_conn st') = tx (cs_conn st) @ wire \<and>
    (\<forall>k rest cancel. rx (ts_stream k) (wire @ rest) \<longrightarrow>
      (\<exists>k' req w v. srv_read_req alloc cancel k = Fin (k', Ok req) \<and> rx (ts_stream k') rest \<and>
        file_decode env () (sq_action req) (sq_seq req) (sq_msg req) (sq_blob req) noti = Ok w \<and>
        file_handle env store w = Return (fst (file_spec (fe_einval env) store call), [v], Ok ()) \<and>
        (\<forall>k. willing (ts_stream k) \<longrightarrow>
          (\<exists>k'. srv_write_resp (file_encode env) () v k = Fin (k', Ok ()) \<and> srv_tx k' = srv_tx k @ resp)))) \<and>
    (\<forall>c tm rest cl. timer_inv ops tm \<and> t \<in># timer_tasks tm \<and> (\<not> tm_reg_stopped tm \<or> t \<notin> set (tm_chan tm)) \<and>
        rx (tc_stream c) (resp @ rest) \<longrightarrow>
      (\<exists>c' tm' ev. tcp_read_resp alloc ops codecs cl tm c = Fin (c', tm', [ev], Ok True) \<and>
        rx (tc_stream c') rest \<and> timer_tasks tm = add_mset t (timer_tasks tm') \<and>
        file_found (event_task ev) = snd (file_spec (fe_einval env) store call)))"
proof -
  let ?seq = "ct_seq ops t" and ?a = "ct_get_action ops t" and ?m = "file_msg codecs t" and ?b = "ct_get_req_blob ops t"
  note ct = file_client_task [of env, folded ops_def]
  note s = send_request_wire [OF ct assms(7,8)]
  then have t: "t = ct_set_seq (file_client_ops env) ?seq (file_task sender call)"
    using client_task.seq_set_seq [OF ct] by (metis ops_def)
  have act: "action_ok ?a" "action_valid ?a" using file_task_action [OF t] by (simp_all add: ops_def)
  have "req_fits (Act_Num 0) ?m ?b" using s by blast
  then have fits: "req_fits ?a ?m ?b" using act(1) by (simp add: req_fits_def)
  note dec = file_request_decoded [OF assms(3,4) t, folded ops_def codecs_def]
  from file_served [OF assms(3) t assms(5), of noti, folded ops_def codecs_def]
  obtain v r where v: "file_handle env store (file_request ?seq noti call) = Return (fst (file_spec (fe_einval env) store call), [v], Ok ())"
    "case_task_enum sf_seq sf_seq v = ?seq" "file_answer env v = Some r" "resp_fits r"
    "file_found (event_task (received ops codecs r t)) = snd (file_spec (fe_einval env) store call)"
    by (elim exE conjE) (rule that)
  let ?wire = "req_wire (cs_client_id st) ?seq ?a ?m ?b" and ?resp = "resp_wire ?seq r"
  have writes: "\<exists>k'. srv_write_resp (file_encode env) () v k = Fin (k', Ok ()) \<and> srv_tx k' = srv_tx k @ ?resp"
    if "willing (ts_stream k)" for k
    using server_task.write_resp_willing [OF file_server_task that v(3,4)] v(2) by auto
  have server: "\<exists>k' req w v. srv_read_req alloc cancel k = Fin (k', Ok req) \<and> rx (ts_stream k') rest \<and>
        file_decode env () (sq_action req) (sq_seq req) (sq_msg req) (sq_blob req) noti = Ok w \<and>
        file_handle env store w = Return (fst (file_spec (fe_einval env) store call), [v], Ok ()) \<and>
        (\<forall>k. willing (ts_stream k) \<longrightarrow>
          (\<exists>k'. srv_write_resp (file_encode env) () v k = Fin (k', Ok ()) \<and> srv_tx k' = srv_tx k @ ?resp))"
    if at: "rx (ts_stream k) (?wire @ rest)" for k rest cancel
  proof -
    let ?req = "\<lparr>sq_seq = ?seq, sq_action = ?a, sq_msg = ?m, sq_blob = some_blob (blob_bytes ?b)\<rparr>"
    obtain k' where k': "srv_read_req alloc cancel k = Fin (k', Ok ?req)" "rx (ts_stream k') rest"
      using srv_read_req_rx [OF at fits act(2) assms(6)] by blast
    have "file_decode env () (sq_action ?req) (sq_seq ?req) (sq_msg ?req) (sq_blob ?req) noti = Ok (file_request ?seq noti call)"
      using dec by simp
    with k' v(1) writes show ?thesis by blast
  qed
  have client: "\<exists>c' tm' ev. tcp_read_resp alloc ops codecs cl tm c = Fin (c', tm', [ev], Ok True) \<and>
        rx (tc_stream c') rest \<and> timer_tasks tm = add_mset t (timer_tasks tm') \<and>
        file_found (event_task ev) = snd (file_spec (fe_einval env) store call)"
    if "timer_inv ops tm" "t \<in># timer_tasks tm" "\<not> tm_reg_stopped tm \<or> t \<notin> set (tm_chan tm)"
      "rx (tc_stream c) (?resp @ rest)" for c tm rest cl
    using tcp_read_resp_rx [OF that v(4) assms(6) file_reserve_ok [OF assms(3), folded ops_def], of codecs cl] v(5) by blast
  have sent: "tx (cs_conn st') = tx (cs_conn st) @ ?wire" using s by blast
  show ?thesis
    by (intro exI [of _ ?wire] exI [of _ ?resp] conjI allI impI sent; (elim conjE)?) (rule server client; assumption)+
qed

text \<open>A serialisation of fixed width, and a read of three bytes that were written before, for a concrete instance.\<close>

definition fixed_file_env :: "i32 file_env" where
  "fixed_file_env =
     \<lparr>fe_open = \<lparr>to_vec_named = (\<lambda>q. Some (or_path q)), write_named = (\<lambda>q. (or_path q, True)), from_slice = (\<lambda>bs. Some \<lparr>or_path = bs\<rparr>)\<rparr>,
      fe_unit = \<lparr>to_vec_named = (\<lambda>_. Some []), write_named = (\<lambda>_. ([], True)), from_slice = (\<lambda>bs. Some ())\<rparr>,
      fe_io = \<lparr>to_vec_named = (\<lambda>q. Some (le_bytes 8 (ir_inode q) @ le_bytes 8 (ir_offset q) @ le_bytes 8 (ir_len q))),
        write_named = (\<lambda>q. (le_bytes 8 (ir_inode q) @ le_bytes 8 (ir_offset q) @ le_bytes 8 (ir_len q), True)),
        from_slice = (\<lambda>bs. Some \<lparr>ir_inode = le_word (take 8 bs), ir_offset = le_word (take 8 (drop 8 bs)), ir_len = le_word (drop 16 bs)\<rparr>)\<rparr>,
      fe_resp = \<lparr>to_vec_named = (\<lambda>p. Some (le_bytes 8 (ret_size p))), write_named = (\<lambda>p. (le_bytes 8 (ret_size p), True)),
        from_slice = (\<lambda>bs. Some \<lparr>ret_size = le_word bs\<rparr>)\<rparr>,
      fe_buffer = (\<lambda>n. Some \<lparr>rlen = i32_as_usize n, rcap = i32_as_usize n\<rparr>),
      fe_max_addr = - 1, fe_as_i32 = (\<lambda>e. e), fe_from_raw = (\<lambda>i. i), fe_einval = 22, fe_enosys = 38\<rparr>"

lemma fixed_file_env_ok: "file_env_ok fixed_file_env"
proof -
  have "le_bytes 8 (y :: u64) \<noteq> []" for y by (simp flip: length_greater_0_conv)
  then show ?thesis by (simp add: file_env_ok_def fixed_file_env_def rmp_carries_def rmp_supports_def)
qed

abbreviation fixed_ops :: "(file_codecs, i32 file_client_task) client_task_ops" where
  "fixed_ops \<equiv> file_client_ops fixed_file_env"

abbreviation fixed_codecs :: file_codecs where
  "fixed_codecs \<equiv> file_codecs_of fixed_file_env"

lemma fixed_client:
  "\<exists>st :: (tcp_client, i32 file_client_task) client_stream.
     init_client (\<lambda>_ _. Fin (Ok (fresh_client [0]))) client_config_default () (str ''a'') None = Fin (Ok st) \<and>
     willing (tc_stream (cs_conn st)) \<and> cs_seq st = 1"
  using rx_fresh [of "[0]"]
  by (simp add: init_client_def stream_connect_def client_stream_new_def Let_def willing_def rx_def fresh_client_def fresh_stream_def)

theorem file_exchange_witness:
  "\<exists>st st' t wire resp k' req w v c' tm' ev.
     init_client (\<lambda>_ _. Fin (Ok (fresh_client [0]))) client_config_default () (str ''a'') None = Fin (Ok st) \<and>
     send_request fixed_ops (tcp_transport (\<lambda>n. Some (unat n)) fixed_ops) fixed_codecs (file_task 5 (Read_Call 1 0 3)) False st =
       Fin (st', [], Ok t) \<and> tx (cs_conn st') = tx (cs_conn st) @ wire \<and>
     srv_read_req (\<lambda>n. Some (unat n)) False (fresh_server (wire @ [0])) = Fin (k', Ok req) \<and>
     file_decode fixed_file_env () (sq_action req) (sq_seq req) (sq_msg req) (sq_blob req) 0 = Ok w \<and>
     file_handle fixed_file_env (fst (file_spec (22 :: i32) None (Write_Call 1 0 [7, 8, 9]))) w = Return (None, [v], Ok ()) \<and>
     tcp_read_resp (\<lambda>n. Some (unat n)) fixed_ops fixed_codecs None ((timer_new 1 0)\<lparr>tm_chan := [t]\<rparr>) (fresh_client (resp @ [0])) =
       Fin (c', tm', [ev], Ok True) \<and> file_found (event_task ev) = (Ok (), Some 3, [7, 8, 9])"
proof -
  let ?alloc = "\<lambda>n :: i32. Some (unat n)" and ?store = "Some [7, 8, 9] :: bytes option" and ?t0 = "file_task 5 (Read_Call 1 0 3) :: i32 file_client_task"
  obtain st :: "(tcp_client, i32 file_client_task) client_stream" where
    st: "init_client (\<lambda>_ _. Fin (Ok (fresh_client [0]))) client_config_default () (str ''a'') None = Fin (Ok st)"
    "willing (tc_stream (cs_conn st))" "cs_seq st = 1" using fixed_client by blast
  obtain buf where "req_encode fixed_ops fixed_codecs (cs_encode_buf st) (cs_client_id st) (ct_set_seq fixed_ops (cs_seq st) ?t0) = (buf, Ok None)"
    by (simp add: req_encode_def file_task_defs file_act_def gen_encode_req_def msgp_codec_def msgp_encode_into_def fixed_file_env_def
        gen_get_req_blob_def Let_def)
  from send_willing [OF st(2) this, of ?alloc] obtain st' where
    s: "send_request fixed_ops (tcp_transport ?alloc fixed_ops) fixed_codecs ?t0 False st = Fin (st', [], Ok (ct_set_seq fixed_ops (cs_seq st) ?t0))"
    by blast
  let ?t = "ct_set_seq fixed_ops (cs_seq st) ?t0" and ?tm = "(timer_new 1 0)\<lparr>tm_chan := [ct_set_seq fixed_ops (cs_seq st) ?t0]\<rparr>"
  have inv: "stream_inv (tc_stream (cs_conn st))" using st(2) by (simp add: willing_def)
  have "length (blob_bytes ?store) \<le> i32_MAX" by (simp add: blob_bytes_def)
  from file_exchange [OF fixed_file_env_ok _ this alloc_ok_unat s inv, of 0] obtain wire resp where
    w: "tx (cs_conn st') = tx (cs_conn st) @ wire"
    "\<forall>k rest cancel. rx (ts_stream k) (wire @ rest) \<longrightarrow>
      (\<exists>k' req w v. srv_read_req ?alloc cancel k = Fin (k', Ok req) \<and> rx (ts_stream k') rest \<and>
        file_decode fixed_file_env () (sq_action req) (sq_seq req) (sq_msg req) (sq_blob req) 0 = Ok w \<and>
        file_handle fixed_file_env ?store w = Return (fst (file_spec (fe_einval fixed_file_env) ?store (Read_Call 1 0 3)), [v], Ok ()) \<and>
        (\<forall>k. willing (ts_stream k) \<longrightarrow>
          (\<exists>k'. srv_write_resp (file_encode fixed_file_env) () v k = Fin (k', Ok ()) \<and> srv_tx k' = srv_tx k @ resp)))"
    "\<forall>(c :: tcp_client) tm rest cl. timer_inv fixed_ops tm \<and> ?t \<in># timer_tasks tm \<and> (\<not> tm_reg_stopped tm \<or> ?t \<notin> set (tm_chan tm)) \<and>
        rx (tc_stream c) (resp @ rest) \<longrightarrow>
      (\<exists>c' tm' ev. tcp_read_resp ?alloc fixed_ops fixed_codecs cl tm c = Fin (c', tm', [ev], Ok True) \<and>
        rx (tc_stream c') rest \<and> timer_tasks tm = add_mset ?t (timer_tasks tm') \<and>
        file_found (event_task ev) = snd (file_spec (fe_einval fixed_file_env) ?store (Read_Call 1 0 3)))"
    unfolding file_call_ok.simps by (elim meta_impE [OF _ TrueI] exE conjE) (rule that)
  have "rx (ts_stream (fresh_server (wire @ [0]))) (wire @ [0])" by (simp add: fresh_server_def rx_fresh)
  with w(2) obtain k' req x v where r: "srv_read_req ?alloc False (fresh_server (wire @ [0])) = Fin (k', Ok req)"
    "file_decode fixed_file_env () (sq_action req) (sq_seq req) (sq_msg req) (sq_blob req) 0 = Ok x"
    "file_handle fixed_file_env ?store x = Return (None, [v], Ok ())" by fastforce
  have "ct_seq fixed_ops ?t = 1" using client_task.seq_set_seq [OF file_client_task] st(3) by metis
  then have "timer_inv fixed_ops ?tm" "?t \<in># timer_tasks ?tm" "\<not> tm_reg_stopped ?tm"
    by (simp_all add: timer_inv_def timer_new_def Let_def timer_tasks_def)
  moreover have "rx (tc_stream (fresh_client (resp @ [0]))) (resp @ [0])" by (simp add: fresh_client_def rx_fresh)
  ultimately obtain c' tm' ev where c: "tcp_read_resp ?alloc fixed_ops fixed_codecs None ?tm (fresh_client (resp @ [0])) = Fin (c', tm', [ev], Ok True)"
    "file_found (event_task ev) = snd (file_spec (fe_einval fixed_file_env) ?store (Read_Call 1 0 3))" using w(3) by metis
  have spec: "fst (file_spec (22 :: i32) None (Write_Call 1 0 [7, 8, 9])) = ?store"
    "snd (file_spec (fe_einval fixed_file_env) ?store (Read_Call 1 0 3)) = (Ok (), Some 3, [7, 8, 9])"
    by (simp_all add: blob_bytes_def)
  show ?thesis unfolding spec(1) using st(1) s w(1) r c [unfolded spec(2)] by blast
qed

end
