(* ===== verification/Rpc_Shutdown.thy ===== *)
theory Rpc_Shutdown
  imports Rpc_Listen
begin

text \<open>
  A server with all its connections, \<open>stream/src/server/server.rs\<close>: the listeners of \<open>Rpc_Listen\<close>
  accept connections, every connection is the reader and the writer of \<open>Rpc_Server\<close>, and a
  connection is given up (its \<open>conn_count\<close> dropped) when both have ended. This is what the graceful
  \<open>close\<close> waits for.
\<close>

section \<open>The server and its connections\<close>

text \<open>A connection: its number, the transport it started with, what happened on it, and its state.\<close>

type_synonym ('t, 'r) conn_entry = "nat \<times> tcp_server \<times> 'r conn_event list \<times> ('t, 'r) server_conn"

record ('t, 'r) server_sys =
  vy_server :: rpc_server
  vy_conns :: "('t, 'r) conn_entry list"

definition server_sys_new :: "('t, 'r) server_sys" where
  "server_sys_new = \<lparr>vy_server = rs_new, vy_conns = []\<rparr>"

definition conn_ended :: "('t, 'r) server_conn \<Rightarrow> bool" where
  "conn_ended c \<longleftrightarrow> \<not> sn_reader c \<and> (sn_writer c = W_Closed \<or> sn_writer c = W_Failed)"

inductive server_sys_step ::
  "server_config \<Rightarrow> (i32 \<Rightarrow> nat option) \<Rightarrow> ('c, 't, 'r) dispatch \<Rightarrow> ('c, 'r) server_encode \<Rightarrow> 'c \<Rightarrow> ('t \<Rightarrow> u64) \<Rightarrow>
   ('r \<Rightarrow> u64) \<Rightarrow> ('t, 'r) server_sys \<Rightarrow> ('t, 'r) server_sys \<Rightarrow> bool"
  for config alloc disp enc codec tseq rseq where
  listen: "server_sys_step config alloc disp enc codec tseq rseq v (v\<lparr>vy_server := rs_spawn addr (vy_server v)\<rparr>)"
| accept: "i < length (rs_listeners (vy_server v)) \<Longrightarrow> fst (rs_listeners (vy_server v) ! i) \<noteq> L_Gone \<Longrightarrow>
    tcp_new_conn inp \<lparr>sk_out = [], sk_script = sc\<rparr> config = Return k0 \<Longrightarrow>
    server_sys_step config alloc disp enc codec tseq rseq v
      (v\<lparr>vy_server := rs_accept (vy_server v), vy_conns := (rs_accepted (vy_server v), k0, [], conn_start k0) # vy_conns v\<rparr>)"
| accept_error: "i < length (rs_listeners (vy_server v)) \<Longrightarrow> fst (rs_listeners (vy_server v) ! i) \<noteq> L_Gone \<Longrightarrow>
    server_sys_step config alloc disp enc codec tseq rseq v (v\<lparr>vy_server := rs_listener_end i (vy_server v)\<rparr>)"
| work: "j < length (vy_conns v) \<Longrightarrow> vy_conns v ! j = (n, k0, evs, c) \<Longrightarrow> n \<in> set (rs_conns (vy_server v)) \<Longrightarrow>
    server_step alloc disp enc codec tseq rseq c evs' c' \<Longrightarrow>
    server_sys_step config alloc disp enc codec tseq rseq v (v\<lparr>vy_conns := (vy_conns v)[j := (n, k0, evs @ evs', c')]\<rparr>)"
| conn_end: "(n, k0, evs, c) \<in> set (vy_conns v) \<Longrightarrow> n \<in> set (rs_conns (vy_server v)) \<Longrightarrow> conn_ended c \<Longrightarrow>
    server_sys_step config alloc disp enc codec tseq rseq v (v\<lparr>vy_server := rs_conn_end n (vy_server v)\<rparr>)"
| closing: "server_sys_step config alloc disp enc codec tseq rseq v (v\<lparr>vy_server := rs_close_begin (vy_server v)\<rparr>)"

section \<open>Every connection is one of the server\<close>

definition entry_ok ::
  "server_config \<Rightarrow> (i32 \<Rightarrow> nat option) \<Rightarrow> ('c, 't, 'r) dispatch \<Rightarrow> ('c, 'r) server_encode \<Rightarrow> 'c \<Rightarrow> ('t \<Rightarrow> u64) \<Rightarrow>
   ('r \<Rightarrow> u64) \<Rightarrow> rpc_server \<Rightarrow> ('t, 'r) conn_entry \<Rightarrow> bool" where
  "entry_ok config alloc disp enc codec tseq rseq s e \<longleftrightarrow>
     (case e of (n, k0, evs, c) \<Rightarrow>
        n < rs_accepted s \<and> (\<exists>inp sc. tcp_new_conn inp \<lparr>sk_out = [], sk_script = sc\<rparr> config = Return k0) \<and>
        server_run alloc disp enc codec tseq rseq k0 evs c \<and> (n \<notin> set (rs_conns s) \<longrightarrow> conn_ended c))"

definition server_sys_ok ::
  "server_config \<Rightarrow> (i32 \<Rightarrow> nat option) \<Rightarrow> ('c, 't, 'r) dispatch \<Rightarrow> ('c, 'r) server_encode \<Rightarrow> 'c \<Rightarrow> ('t \<Rightarrow> u64) \<Rightarrow>
   ('r \<Rightarrow> u64) \<Rightarrow> ('t, 'r) server_sys \<Rightarrow> bool" where
  "server_sys_ok config alloc disp enc codec tseq rseq v \<longleftrightarrow>
     rs_inv (vy_server v) \<and> distinct (map fst (vy_conns v)) \<and>
     (\<forall>e \<in> set (vy_conns v). entry_ok config alloc disp enc codec tseq rseq (vy_server v) e)"

lemma sys_life:
  "server_sys_step config alloc disp enc codec tseq rseq v v' \<Longrightarrow>
   vy_server v' = vy_server v \<or> server_life (vy_server v) (vy_server v')"
  by (induction rule: server_sys_step.induct) (auto intro: server_life.intros)

lemma entry_ok_cong:
  "entry_ok config alloc disp enc codec tseq rseq s e \<Longrightarrow> rs_accepted s \<le> rs_accepted s' \<Longrightarrow>
   set (rs_conns s) \<inter> {fst e} \<subseteq> set (rs_conns s') \<Longrightarrow> entry_ok config alloc disp enc codec tseq rseq s' e"
  by (auto simp: entry_ok_def)

lemma server_sys_ok_step:
  assumes "server_sys_step config alloc disp enc codec tseq rseq v v'" "server_sys_ok config alloc disp enc codec tseq rseq v"
  shows "server_sys_ok config alloc disp enc codec tseq rseq v'"
proof -
  note ok = assms(2) [unfolded server_sys_ok_def]
  have inv: "rs_inv (vy_server v')" using sys_life [OF assms(1)] ok life_inv by metis
  from assms(1) show ?thesis
  proof cases
    case (listen addr)
    then show ?thesis using ok inv by (auto simp: server_sys_ok_def rs_spawn_def intro: entry_ok_cong)
  next
    case (accept i inp sc k0)
    have "entry_ok config alloc disp enc codec tseq rseq (rs_accept (vy_server v)) (rs_accepted (vy_server v), k0, [], conn_start k0)"
      using accept(4) by (auto simp: entry_ok_def rs_accept_def intro: server_run.start)
    moreover have "\<forall>e \<in> set (vy_conns v). entry_ok config alloc disp enc codec tseq rseq (rs_accept (vy_server v)) e"
      using ok by (auto simp: rs_accept_def intro: entry_ok_cong)
    moreover have "rs_accepted (vy_server v) \<notin> fst ` set (vy_conns v)" using ok by (force simp: entry_ok_def)
    ultimately show ?thesis using ok inv accept(1) by (simp add: server_sys_ok_def)
  next
    case (accept_error i)
    then show ?thesis using ok inv by (auto simp: server_sys_ok_def rs_listener_end_def intro: entry_ok_cong)
  next
    case (work j n k0 evs c evs' c')
    have "entry_ok config alloc disp enc codec tseq rseq (vy_server v) (n, k0, evs, c)"
      using ok work(2,3) by (metis nth_mem)
    then have "entry_ok config alloc disp enc codec tseq rseq (vy_server v) (n, k0, evs @ evs', c')"
      using work(4,5) by (auto simp: entry_ok_def intro: server_run.more)
    moreover have "map fst ((vy_conns v)[j := (n, k0, evs @ evs', c')]) = map fst (vy_conns v)"
      using work(2,3) by (simp add: map_update list_update_same_conv)
    ultimately show ?thesis
      using ok inv work(1) by (auto simp: server_sys_ok_def dest!: set_update_subset_insert [THEN subsetD])
  next
    case (conn_end n k0 evs c)
    have "entry_ok config alloc disp enc codec tseq rseq (rs_conn_end n (vy_server v)) e" if e: "e \<in> set (vy_conns v)" for e
    proof (cases "fst e = n")
      case True
      then have "e = (n, k0, evs, c)" using ok conn_end(2) e by (metis eq_key_imp_eq_value prod.collapse)
      with ok e conn_end(4) show ?thesis by (auto simp: entry_ok_def rs_conn_end_def)
    next
      case False
      have "entry_ok config alloc disp enc codec tseq rseq (vy_server v) e" using ok e by blast
      then show ?thesis
        by (rule entry_ok_cong) (use False in \<open>auto simp: rs_conn_end_def in_set_remove1\<close>)
    qed
    then show ?thesis using ok inv conn_end(1) by (simp add: server_sys_ok_def)
  next
    case closing
    then show ?thesis using ok inv by (auto simp: server_sys_ok_def rs_close_begin_def intro: entry_ok_cong)
  qed
qed

lemma server_sys_run_ok:
  "(server_sys_step config alloc disp enc codec tseq rseq)\<^sup>*\<^sup>* server_sys_new v \<Longrightarrow>
   server_sys_ok config alloc disp enc codec tseq rseq v"
proof (induction rule: rtranclp_induct)
  case base
  show ?case by (simp add: server_sys_ok_def server_sys_new_def rs_inv_def rs_new_def live_listeners_def)
qed (rule server_sys_ok_step)

section \<open>Properties\<close>

text \<open>A connection that is done: its writer failed, or its work is complete.\<close>

definition conn_finished :: "('r \<Rightarrow> u64) \<Rightarrow> ('r \<Rightarrow> response option) \<Rightarrow> ('t, 'r) conn_entry \<Rightarrow> bool" where
  "conn_finished rseq answer e \<longleftrightarrow>
     (case e of (n, k0, evs, c) \<Rightarrow>
        sn_writer c = W_Failed \<or>
        sn_tasks c = [] \<and> ts_shut (sn_conn c) \<and>
        mset (accepted evs) = mset (map (item_seq rseq) (written evs)) + mset (abandoned evs) \<and>
        sk_out (bs_out (ts_stream (sn_conn c))) = concat (map (item_wire rseq answer) (written evs)))"

text \<open>
  C6: the graceful close of a server completes its work: \<open>close\<close> returns after at most
  \<open>server_close_wait + 1\<close> sleeps, and when it has not run out of time, then on every connection the
  server ever accepted, unless its socket failed, every request that was read has been answered or
  dropped by the user, all responses have reached the socket completely and in order, and its
  write direction is shut down.
\<close>

theorem graceful_close_complete:
  assumes "dispatcher disp codec tseq rseq" and "server_task enc codec rseq answer"
    and "\<forall>k. (server_sys_step config alloc disp enc codec tseq rseq)\<^sup>*\<^sup>* server_sys_new (h k)"
    and "\<forall>k. \<forall>(n, k0, evs, c) \<in> set (vy_conns (h k)). \<forall>it \<in> set (written evs). item_good answer it"
    and "\<forall>k. k \<le> elapsed k"
  shows "\<exists>m c. close_wait (\<lambda>k. get_alive_conn (vy_server (h k))) elapsed (sc_server_close_wait config) 0 = Some (m, c) \<and>
    m \<le> sc_server_close_wait config + 1 \<and> (c = 0 \<or> sc_server_close_wait config < elapsed m) \<and>
    (c = 0 \<longrightarrow> (\<forall>e \<in> set (vy_conns (h m)). conn_finished rseq answer e))"
proof -
  obtain m c where m: "close_wait (\<lambda>k. get_alive_conn (vy_server (h k))) elapsed (sc_server_close_wait config) 0 = Some (m, c)"
    "m \<le> sc_server_close_wait config + 1" "c = get_alive_conn (vy_server (h m))" "c = 0 \<or> sc_server_close_wait config < elapsed m"
    using close_wait_from [OF assms(5), of 0 "sc_server_close_wait config" "\<lambda>k. get_alive_conn (vy_server (h k))"] by auto
  have "conn_finished rseq answer e" if "c = 0" and e: "e \<in> set (vy_conns (h m))" for e
  proof -
    obtain n k0 evs c where e': "e = (n, k0, evs, c)" by (cases e)
    have ok: "server_sys_ok config alloc disp enc codec tseq rseq (h m)" by (rule server_sys_run_ok) (use assms(3) in blast)
    then have "rs_conns (vy_server (h m)) = []"
      using that(1) m(3) by (auto simp: server_sys_ok_def rs_inv_def get_alive_conn_def)
    then have en: "conn_ended c" "server_run alloc disp enc codec tseq rseq k0 evs c"
      "\<exists>inp sc. tcp_new_conn inp \<lparr>sk_out = [], sk_script = sc\<rparr> config = Return k0"
      using ok e e' by (auto simp: server_sys_ok_def entry_ok_def)
    have good: "\<forall>it \<in> set (written evs). item_good answer it" using assms(4) e e' by fastforce
    show ?thesis
    proof (cases "sn_writer c = W_Failed")
      case False
      then have "sn_writer c = W_Closed" using en(1) by (simp add: conn_ended_def)
      with closed_complete [OF assms(1,2) _ en(2) _ good] en(3) show ?thesis by (auto simp: conn_finished_def e')
    qed (simp add: conn_finished_def e')
  qed
  with m show ?thesis by blast
qed

text \<open>What happens on one connection happens on it in the server.\<close>

lemma sys_follows_run:
  assumes "server_run alloc disp enc codec tseq rseq k0 evs c" and "n \<in> set (rs_conns (vy_server v))"
    and "vy_conns v = [(n, k0, [], conn_start k0)]"
  shows "(server_sys_step config alloc disp enc codec tseq rseq)\<^sup>*\<^sup>* v (v\<lparr>vy_conns := [(n, k0, evs, c)]\<rparr>)"
  using assms(1)
proof (induction rule: server_run.induct)
  case start
  have "v = v\<lparr>vy_conns := [(n, k0, [], conn_start k0)]\<rparr>" using assms(3) by simp
  then show ?case by simp
next
  case (more evs c evs' c')
  have "server_sys_step config alloc disp enc codec tseq rseq (v\<lparr>vy_conns := [(n, k0, evs, c)]\<rparr>)
      (v\<lparr>vy_conns := [(n, k0, evs @ evs', c')]\<rparr>)"
    using server_sys_step.work [of 0 "v\<lparr>vy_conns := [(n, k0, evs, c)]\<rparr>" n k0 evs c alloc disp enc codec tseq rseq evs' c'] more assms(2)
    by simp
  with more show ?case by (meson rtranclp.rtrancl_into_rtrancl)
qed

text \<open>
  A server that accepts the connection of a client that sends one ping and leaves, and that is closed
  while the connection is alive, for a concrete instance.
\<close>

definition ping_config :: server_config where
  "ping_config = server_config_default\<lparr>sc_stream_buf_size := 64\<rparr>"

abbreviation ping_sys_step where
  "ping_sys_step \<equiv> server_sys_step ping_config (\<lambda>n. Some (unat n)) keep_dispatch (variant_encode_resp codec_string)
     (msgp_codec byte_rmp) sv_seq sv_seq"

definition ping_server :: rpc_server where
  "ping_server = rs_close_begin (rs_accept (rs_spawn (str ''/a'') rs_new))"

lemma ping_sys_accept: "ping_sys_step\<^sup>*\<^sup>* server_sys_new \<lparr>vy_server = ping_server, vy_conns = [(0, ping_conn, [], conn_start ping_conn)]\<rparr>"
proof -
  let ?v1 = "\<lparr>vy_server = rs_spawn (str ''/a'') rs_new, vy_conns = []\<rparr>"
  let ?v2 = "\<lparr>vy_server = rs_accept (rs_spawn (str ''/a'') rs_new), vy_conns = [(0, ping_conn, [], conn_start ping_conn)]\<rparr>"
  have "ping_sys_step server_sys_new ?v1"
    using server_sys_step.listen [of _ _ _ _ _ _ _ server_sys_new] by (simp add: server_sys_new_def)
  moreover have "ping_sys_step ?v1 ?v2"
    using server_sys_step.accept [of 0 ?v1, OF _ _ ping_conn_new]
    by (simp add: rs_spawn_def rs_new_def ping_config_def)
  moreover have "ping_sys_step ?v2 \<lparr>vy_server = ping_server, vy_conns = [(0, ping_conn, [], conn_start ping_conn)]\<rparr>"
    using server_sys_step.closing [of _ _ _ _ _ _ _ ?v2] by (simp add: ping_server_def)
  ultimately show ?thesis by (meson rtranclp.rtrancl_into_rtrancl rtranclp.rtrancl_refl)
qed

lemma ping_sys_done:
  assumes "server_run (\<lambda>n. Some (unat n)) keep_dispatch (variant_encode_resp codec_string) (msgp_codec byte_rmp) sv_seq sv_seq
      ping_conn evs c" and "conn_ended c"
  shows "ping_sys_step\<^sup>*\<^sup>* server_sys_new
    \<lparr>vy_server = rs_listener_end 0 (rs_conn_end 0 ping_server), vy_conns = [(0, ping_conn, evs, c)]\<rparr>"
proof -
  let ?v = "\<lparr>vy_server = ping_server, vy_conns = [(0, ping_conn, evs, c)]\<rparr>"
  have "ping_sys_step\<^sup>*\<^sup>* server_sys_new ?v"
    using ping_sys_accept sys_follows_run [OF assms(1), of 0 "\<lparr>vy_server = ping_server, vy_conns = [(0, ping_conn, [], conn_start ping_conn)]\<rparr>"]
    by (fastforce simp: ping_server_def rs_close_begin_def rs_accept_def rs_spawn_def rs_new_def intro: rtranclp_trans)
  moreover have "ping_sys_step ?v (?v\<lparr>vy_server := rs_conn_end 0 ping_server\<rparr>)"
    using server_sys_step.conn_end [of 0 ping_conn evs c ?v] assms(2)
    by (simp add: ping_server_def rs_close_begin_def rs_accept_def rs_spawn_def rs_new_def)
  moreover have "ping_sys_step (?v\<lparr>vy_server := rs_conn_end 0 ping_server\<rparr>)
      (?v\<lparr>vy_server := rs_listener_end 0 (rs_conn_end 0 ping_server)\<rparr>)"
    using server_sys_step.accept_error [of 0 "?v\<lparr>vy_server := rs_conn_end 0 ping_server\<rparr>"]
    by (simp add: ping_server_def rs_conn_end_def rs_close_begin_def rs_accept_def rs_spawn_def rs_new_def)
  ultimately show ?thesis by (simp add: rtranclp.rtrancl_into_rtrancl)
qed

theorem graceful_close_complete_witness:
  "\<exists>h m e. (\<forall>k. ping_sys_step\<^sup>*\<^sup>* server_sys_new (h k)) \<and> get_alive_conn (vy_server (h 0)) = 2 \<and>
     close_wait (\<lambda>k. get_alive_conn (vy_server (h k))) (\<lambda>k. k) (sc_server_close_wait ping_config) 0 = Some (m, 0) \<and>
     vy_conns (h m) = [e] \<and> conn_finished sv_seq (variant_answer codec_string byte_rmp) e"
proof -
  obtain evs c where c: "server_run (\<lambda>n. Some (unat n)) keep_dispatch (variant_encode_resp codec_string) (msgp_codec byte_rmp)
      sv_seq sv_seq ping_conn ([Accepted 7] @ evs) c" "sn_writer c = W_Closed" "written evs = [Err (7, None)]"
    using ping_run by blast
  have good: "\<forall>it \<in> set (written ([Accepted 7] @ evs)). item_good (variant_answer codec_string byte_rmp) it" using c(3) by simp
  have "conn_ended c"
    using closed_complete [OF keep_dispatcher variant.server_task_axioms ping_conn_new c(1,2) good] c(2) by (simp add: conn_ended_def)
  define h where "h k = (if k = 0 then \<lparr>vy_server = ping_server, vy_conns = [(0, ping_conn, [], conn_start ping_conn)]\<rparr>
    else \<lparr>vy_server = rs_listener_end 0 (rs_conn_end 0 ping_server), vy_conns = [(0, ping_conn, [Accepted 7] @ evs, c)]\<rparr>)" for k :: nat
  have run: "\<forall>k. ping_sys_step\<^sup>*\<^sup>* server_sys_new (h k)"
    using ping_sys_accept ping_sys_done [OF c(1) \<open>conn_ended c\<close>] by (simp add: h_def)
  have alive: "get_alive_conn (vy_server (h k)) = (if k = 0 then 2 else 0)" for k
    by (simp add: h_def get_alive_conn_def ping_server_def rs_listener_end_def rs_conn_end_def rs_close_begin_def
        rs_accept_def rs_spawn_def rs_new_def)
  have good': "\<forall>k. \<forall>(n, k0, evs, c) \<in> set (vy_conns (h k)). \<forall>it \<in> set (written evs). item_good (variant_answer codec_string byte_rmp) it"
    using good by (simp add: h_def)
  have one: "close_wait (\<lambda>k. get_alive_conn (vy_server (h k))) (\<lambda>k. k) (sc_server_close_wait ping_config) 0 = Some (1, 0)"
    by (simp add: close_wait.simps alive ping_config_def server_config_default_def)
  with graceful_close_complete [OF keep_dispatcher variant.server_task_axioms run good', of "\<lambda>k. k"]
  have "\<forall>e \<in> set (vy_conns (h 1)). conn_finished sv_seq (variant_answer codec_string byte_rmp) e" by simp
  moreover have "vy_conns (h 1) = [(0, ping_conn, [Accepted 7] @ evs, c)]" by (simp add: h_def)
  moreover have "get_alive_conn (vy_server (h 0)) = 2" using alive [of 0] by simp
  ultimately show ?thesis using run one by (metis list.set_intros(1))
qed

end
