(* ===== verification/Rpc_Graceful.thy ===== *)
theory Rpc_Graceful
  imports Rpc_Net
begin

text \<open>
  Graceful restart, \<open>core/src/graceful.rs\<close>: handing the listening descriptors to a new program through
  the environment, recovering them there, and the signal loop. The operating system is a parameter:
  opening the pid file of the child, spawning it and waiting for it, binding and adopting sockets.
\<close>

section \<open>Decimal numbers\<close>

text \<open>\<open>i32::to_string\<close> and \<open>str::parse::<i32>\<close> of the standard library; a \<open>RawFd\<close> is an \<open>i32\<close>.\<close>

fun nat_to_dec :: "nat \<Rightarrow> rust_str" where
  "nat_to_dec n = (if n < 10 then [of_nat (48 + n)] else nat_to_dec (n div 10) @ [of_nat (48 + n mod 10)])"

declare nat_to_dec.simps [simp del]

definition i32_to_string :: "i32 \<Rightarrow> rust_str" where
  "i32_to_string w = (if sint w < 0 then 45 # nat_to_dec (nat (- sint w)) else nat_to_dec (nat (sint w)))"

definition digit_value :: "byte \<Rightarrow> nat option" where
  "digit_value b = (if 48 \<le> b \<and> b \<le> 57 then Some (unat b - 48) else None)"

fun parse_digits :: "nat \<Rightarrow> rust_str \<Rightarrow> nat option" where
  "parse_digits acc [] = Some acc"
| "parse_digits acc (b # bs) =
     (case digit_value b of Some d \<Rightarrow> parse_digits (acc * 10 + d) bs | None \<Rightarrow> None)"

definition parse_nat :: "rust_str \<Rightarrow> nat option" where
  "parse_nat s = (if s = [] then None else parse_digits 0 s)"

definition parse_i32 :: "rust_str \<Rightarrow> i32 option" where
  "parse_i32 s =
     (case s of
        [] \<Rightarrow> None
      | b # bs \<Rightarrow>
          (if b = 45 then Option.bind (parse_nat bs) (\<lambda>n. to_i32 (- int n))
           else if b = 43 then Option.bind (parse_nat bs) (\<lambda>n. to_i32 (int n))
           else Option.bind (parse_nat s) (\<lambda>n. to_i32 (int n))))"

text \<open>\<open>slice::join\<close> with a comma.\<close>

fun join_comma :: "rust_str list \<Rightarrow> rust_str" where
  "join_comma [] = []"
| "join_comma [x] = x"
| "join_comma (x # xs) = x @ [44] @ join_comma xs"

section \<open>GracefulServer\<close>

record graceful =
  gf_run_dir :: rust_str
  gf_prog_name :: rust_str
  gf_listen_fds :: "rust_str list"
  gf_recovered :: bool
  gf_recover_listen_fds :: "i32 list"
  gf_restart_timeout :: duration
  gf_close_signals :: "i32 list"

text \<open>
  \<open>check_recover\<close>: \<open>env\<close> is the value of \<open>_GRACEFUL_RESTART\<close>. The conversions are unwrapped, so a
  value that is not UTF-8 and a part that is not a number panic.
\<close>

fun push_fds :: "rust_str list \<Rightarrow> graceful \<Rightarrow> graceful outcome" where
  "push_fds [] g = Return g"
| "push_fds (s # ss) g =
     (case parse_i32 s of
        None \<Rightarrow> Panic
      | Some fd \<Rightarrow> push_fds ss (g\<lparr>gf_recover_listen_fds := gf_recover_listen_fds g @ [fd]\<rparr>))"

definition check_recover :: "bytes option \<Rightarrow> graceful \<Rightarrow> graceful outcome" where
  "check_recover env g =
     (case env of
        None \<Rightarrow> Return g
      | Some v \<Rightarrow>
          (case from_utf8 v of
             None \<Rightarrow> Panic
           | Some s \<Rightarrow>
               (case push_fds (split_at 44 s) g of
                  Panic \<Rightarrow> Panic
                | Return g \<Rightarrow> Return (g\<lparr>gf_recovered := True\<rparr>))))"

definition graceful_new ::
  "bytes option \<Rightarrow> rust_str \<Rightarrow> rust_str \<Rightarrow> duration \<Rightarrow> i32 list \<Rightarrow> graceful outcome" where
  "graceful_new env run_dir prog_name restart_timeout close_signals =
     check_recover env
       \<lparr>gf_run_dir = run_dir, gf_prog_name = prog_name, gf_listen_fds = [], gf_recovered = False,
        gf_recover_listen_fds = [], gf_restart_timeout = restart_timeout, gf_close_signals = close_signals\<rparr>"

text \<open>
  \<open>new_listener\<close>: \<open>adopt\<close> is \<open>try_from_raw_fd\<close>, \<open>bind\<close> the ordinary way, \<open>raw_fd\<close> the descriptor of a
  listener.
\<close>

definition new_listener ::
  "(rust_str \<Rightarrow> i32 \<Rightarrow> 'l io_result) \<Rightarrow> (rust_str \<Rightarrow> 'l io_result) \<Rightarrow> ('l \<Rightarrow> i32) \<Rightarrow> rust_str \<Rightarrow> graceful \<Rightarrow>
   graceful \<times> 'l io_result" where
  "new_listener adopt bind raw_fd addr g =
     (let fallback = (\<lambda>g. case bind addr of
            Inl e \<Rightarrow> (g, Err e)
          | Inr l \<Rightarrow> (g\<lparr>gf_listen_fds := gf_listen_fds g @ [i32_to_string (raw_fd l)]\<rparr>, Ok l)) in
      case gf_recover_listen_fds g of
        fd # fds \<Rightarrow>
          (let g = g\<lparr>gf_recover_listen_fds := fds\<rparr> in
           case adopt addr fd of
             Inr l \<Rightarrow> (g\<lparr>gf_listen_fds := gf_listen_fds g @ [i32_to_string fd]\<rparr>, Ok l)
           | Inl e \<Rightarrow> fallback g)
      | [] \<Rightarrow> fallback g)"

section \<open>Restarting\<close>

text \<open>
  The loop that waits for the child's file: \<open>opened k\<close> tells whether it can be opened after \<open>k\<close> sleeps of
  a second, \<open>elapsed k\<close> the time that has passed then. \<open>True\<close> is a child that has started.
\<close>

partial_function (option) restart_wait :: "(nat \<Rightarrow> bool) \<Rightarrow> (nat \<Rightarrow> duration) \<Rightarrow> duration \<Rightarrow> nat \<Rightarrow> bool option" where
  "restart_wait opened elapsed limit k =
     (if elapsed k \<le> limit then
        (if opened k then Some True else restart_wait opened elapsed limit (Suc k))
      else Some False)"

text \<open>
  \<open>restart\<close>. The child gets the environment and inherits the descriptors in \<open>keep\<close>; \<open>spawn\<close> gives its
  pid, \<open>try_wait\<close> tells whether it has exited. The result has the environment and the descriptors
  kept, when the child was spawned, and the result of the call.
\<close>

fun parse_all :: "rust_str list \<Rightarrow> i32 list option" where
  "parse_all [] = Some []"
| "parse_all (s # ss) =
     (case parse_i32 s of None \<Rightarrow> None | Some fd \<Rightarrow> map_option (\<lambda>fds. fd # fds) (parse_all ss))"

definition restart ::
  "(rust_str \<Rightarrow> i32 list \<Rightarrow> nat io_result) \<Rightarrow> (nat \<Rightarrow> nat \<Rightarrow> bool) \<Rightarrow> (nat \<Rightarrow> duration) \<Rightarrow> (nat \<Rightarrow> bool io_result) \<Rightarrow>
   graceful \<Rightarrow> ((rust_str \<times> i32 list) option \<times> unit io_result) outcome option" where
  "restart spawn opened elapsed try_wait g =
     (case parse_all (gf_listen_fds g) of
        None \<Rightarrow> Some Panic
      | Some preserved \<Rightarrow>
          (let env = join_comma (gf_listen_fds g); keep = sort_key sint preserved in
           case spawn env keep of
             Inl e \<Rightarrow> Some (Return (None, Err e))
           | Inr pid \<Rightarrow>
               (case restart_wait (opened pid) elapsed (gf_restart_timeout g) 0 of
                  None \<Rightarrow> None
                | Some True \<Rightarrow> Some (Return (Some (env, keep), Ok ()))
                | Some False \<Rightarrow>
                    Some (Return (Some (env, keep),
                      (case try_wait pid of
                         Inr True \<Rightarrow> Err (Other_Kind 0)
                       | Inr False \<Rightarrow> Ok ()
                       | Inl e \<Rightarrow> Err e))))))"

text \<open>
  The signal loop of \<open>ready\<close>, over the signals that arrive: \<open>do_restart k\<close> is the result of the restart
  that the \<open>k\<close>-th signal asks for. The value is the number of signals taken when the loop ends, after
  which the exit closure runs; \<open>None\<close> is still waiting.
\<close>

fun signal_loop :: "i32 option \<Rightarrow> (nat \<Rightarrow> unit io_result) \<Rightarrow> nat \<Rightarrow> i32 list \<Rightarrow> nat option" where
  "signal_loop restart_signal do_restart k [] = None"
| "signal_loop restart_signal do_restart k (sig # sigs) =
     (if restart_signal = Some sig then
        (case do_restart k of
           Inr _ \<Rightarrow> Some (Suc k)
         | Inl _ \<Rightarrow> signal_loop restart_signal do_restart (Suc k) sigs)
      else Some (Suc k))"

text \<open>The signals \<open>ready\<close> waits for.\<close>

definition ready_signals :: "i32 option \<Rightarrow> graceful \<Rightarrow> i32 list" where
  "ready_signals restart_signal g =
     (case restart_signal of
        Some sig \<Rightarrow> if sig \<in> set (gf_close_signals g) then gf_close_signals g else gf_close_signals g @ [sig]
      | None \<Rightarrow> gf_close_signals g)"

text \<open>The paths of the two pid files.\<close>

definition pid_file_path :: "(rust_str \<Rightarrow> rust_str \<Rightarrow> rust_str) \<Rightarrow> graceful \<Rightarrow> rust_str" where
  "pid_file_path join g = join (gf_run_dir g) (gf_prog_name g @ str ''.pid'')"

definition child_pid_file_path :: "(rust_str \<Rightarrow> rust_str \<Rightarrow> rust_str) \<Rightarrow> nat \<Rightarrow> graceful \<Rightarrow> rust_str" where
  "child_pid_file_path join pid g = join (gf_run_dir g) (gf_prog_name g @ str ''_'' @ nat_to_dec pid)"

text \<open>
  \<open>ready\<close>: the results of writing the two pid files, the signals that arrive and the restarts they cause
  are parameters. The events tell which file was written and whether the exit closure ran.
\<close>

datatype ready_event = Pid_File | Child_File | Exit_Called

definition ready ::
  "unit io_result \<Rightarrow> unit io_result \<Rightarrow> i32 option \<Rightarrow> (nat \<Rightarrow> unit io_result) \<Rightarrow> i32 list \<Rightarrow> graceful \<Rightarrow>
   ready_event list \<times> unit io_result option" where
  "ready write_pid write_child restart_signal do_restart sigs g =
     (case write_pid of
        Inl e \<Rightarrow> ([], Some (Err e))
      | Inr _ \<Rightarrow>
          (let evs = Pid_File # (if gf_recovered g \<and> is_ok write_child then [Child_File] else []) in
           case signal_loop restart_signal do_restart 0 sigs of
             None \<Rightarrow> (evs, None)
           | Some _ \<Rightarrow> (evs @ [Exit_Called], Some (Ok ()))))"

section \<open>Printing and parsing\<close>

lemma unat_digit: "d < 10 \<Longrightarrow> unat (of_nat (48 + d) :: byte) = 48 + d"
  by (simp only: unat_of_nat) simp

lemma digit_value_of [simp]: "d < 10 \<Longrightarrow> digit_value (of_nat (48 + d)) = Some d"
proof -
  assume d: "d < 10"
  then have "48 \<le> (of_nat (48 + d) :: byte)" "(of_nat (48 + d) :: byte) \<le> 57"
    unfolding word_le_nat_alt unat_digit [OF d] by simp_all
  then show ?thesis unfolding digit_value_def unat_digit [OF d] by simp
qed

lemma parse_digits_append:
  "parse_digits acc (xs @ ys) = Option.bind (parse_digits acc xs) (\<lambda>a. parse_digits a ys)"
  by (induction xs arbitrary: acc) (auto split: option.splits)

lemma parse_nat_to_dec: "parse_digits 0 (nat_to_dec n) = Some n"
proof (induction n rule: nat_to_dec.induct)
  case (1 n)
  show ?case
  proof (cases "n < 10")
    case True
    then show ?thesis using digit_value_of [of n] by (simp add: nat_to_dec.simps [of n])
  next
    case False
    then show ?thesis
      using 1 digit_value_of [of "n mod 10"] by (simp add: nat_to_dec.simps [of n] parse_digits_append)
  qed
qed

lemma nat_to_dec_digits: "b \<in> set (nat_to_dec n) \<Longrightarrow> 48 \<le> b \<and> b \<le> 57"
proof (induction n rule: nat_to_dec.induct)
  case (1 n)
  have "48 \<le> (of_nat (48 + d) :: byte) \<and> (of_nat (48 + d) :: byte) \<le> 57" if "d < 10" for d
    unfolding word_le_nat_alt unat_digit [OF that] using that by simp
  from this [of n] this [of "n mod 10"] 1 show ?case
    by (cases "n < 10") (auto simp: nat_to_dec.simps [of n])
qed

lemma nat_to_dec_nonempty [simp]: "nat_to_dec n \<noteq> []"
  by (simp add: nat_to_dec.simps [of n])

lemma parse_i32_to_string [simp]: "parse_i32 (i32_to_string w) = Some w"
proof -
  have range: "to_i32 (sint w) = Some w"
    using sint_lt [of w] sint_ge [of w] by (simp add: to_i32_def)
  show ?thesis
  proof (cases "sint w < 0")
    case True
    then show ?thesis using range parse_nat_to_dec [of "nat (- sint w)"]
      by (simp add: i32_to_string_def parse_i32_def parse_nat_def)
  next
    case False
    obtain b bs where d: "nat_to_dec (nat (sint w)) = b # bs" by (cases "nat_to_dec (nat (sint w))") simp_all
    then have "b \<noteq> 45" "b \<noteq> 43" using nat_to_dec_digits [of b "nat (sint w)"] by auto
    with False d range parse_nat_to_dec [of "nat (sint w)"] show ?thesis
      by (simp add: i32_to_string_def parse_i32_def parse_nat_def)
  qed
qed

lemma i32_to_string_bytes: "b \<in> set (i32_to_string w) \<Longrightarrow> b \<noteq> 44 \<and> b < 0x80"
  using nat_to_dec_digits [of b] by (auto simp: i32_to_string_def split: if_splits dest!: nat_to_dec_digits)
     (auto simp: word_le_nat_alt word_less_nat_alt)

lemma split_at_no: "c \<notin> set x \<Longrightarrow> split_at c x = [x]"
  by (induction x) auto

lemma split_at_append: "c \<notin> set x \<Longrightarrow> split_at c (x @ c # y) = x # split_at c y"
  by (induction x) auto

lemma split_join_comma: "xs \<noteq> [] \<Longrightarrow> \<forall>x \<in> set xs. 44 \<notin> set x \<Longrightarrow> split_at 44 (join_comma xs) = xs"
  by (induction xs rule: join_comma.induct) (simp_all add: split_at_no split_at_append)

lemma push_fds_strings:
  "push_fds (map i32_to_string fds) g = Return (g\<lparr>gf_recover_listen_fds := gf_recover_listen_fds g @ fds\<rparr>)"
  by (induction fds arbitrary: g) simp_all

lemma parse_all_strings: "parse_all (map i32_to_string fds) = Some fds"
  by (induction fds) simp_all

lemma join_comma_utf8:
  "\<forall>x \<in> set xs. \<forall>b \<in> set x. b < 0x80 \<Longrightarrow> \<forall>b \<in> set (join_comma xs). b < 0x80"
  by (induction xs rule: join_comma.induct) auto

section \<open>From parent to child\<close>

text \<open>The listeners a program opens one after the other.\<close>

fun new_listeners ::
  "(rust_str \<Rightarrow> i32 \<Rightarrow> 'l io_result) \<Rightarrow> (rust_str \<Rightarrow> 'l io_result) \<Rightarrow> ('l \<Rightarrow> i32) \<Rightarrow> rust_str list \<Rightarrow> graceful \<Rightarrow>
   graceful \<times> 'l io_result list" where
  "new_listeners adopt bind raw_fd [] g = (g, [])"
| "new_listeners adopt bind raw_fd (a # as) g =
     (case new_listener adopt bind raw_fd a g of (g, r) \<Rightarrow>
        (case new_listeners adopt bind raw_fd as g of (g, rs) \<Rightarrow> (g, r # rs)))"

text \<open>The descriptors the program has recorded, which are always printed numbers.\<close>

definition holds_fds :: "i32 list \<Rightarrow> graceful \<Rightarrow> bool" where
  "holds_fds fds g \<longleftrightarrow> gf_listen_fds g = map i32_to_string fds"

lemma new_listener_holds:
  "holds_fds fds g \<Longrightarrow> new_listener adopt bind raw_fd a g = (g', r) \<Longrightarrow> \<exists>fds'. holds_fds (fds @ fds') g'"
  by (auto simp: holds_fds_def new_listener_def Let_def split: list.splits sum.splits
      intro: exI [of _ "[]"] exI [of _ "[_]"])

lemma new_listeners_hold:
  "holds_fds fds g \<Longrightarrow> new_listeners adopt bind raw_fd as g = (g', rs) \<Longrightarrow> \<exists>fds'. holds_fds fds' g'"
proof (induction as arbitrary: fds g rs)
  case Nil
  then show ?case by auto
next
  case (Cons a as)
  obtain g1 r where 1: "new_listener adopt bind raw_fd a g = (g1, r)" by fastforce
  with new_listener_holds [OF Cons.prems(1) 1] Cons show ?case by (auto split: prod.splits)
qed

lemma adopt_all:
  "length as = length fds \<Longrightarrow> gf_recover_listen_fds g = fds \<Longrightarrow> \<forall>(a, fd) \<in> set (zip as fds). is_ok (adopt a fd) \<Longrightarrow>
   new_listeners adopt bind raw_fd as g =
     (g\<lparr>gf_recover_listen_fds := [], gf_listen_fds := gf_listen_fds g @ map i32_to_string fds\<rparr>, map2 adopt as fds)"
proof (induction as fds arbitrary: g rule: list_induct2)
  case Nil
  then show ?case by simp
next
  case (Cons a as fd fds)
  obtain l where l: "adopt a fd = Ok l" using Cons.prems(2) by (cases "adopt a fd") auto
  let ?g = "g\<lparr>gf_recover_listen_fds := fds, gf_listen_fds := gf_listen_fds g @ [i32_to_string fd]\<rparr>"
  have "new_listener adopt bind raw_fd a g = (?g, Ok l)"
    using l Cons.prems(1) by (simp add: new_listener_def)
  with Cons.IH [of ?g] Cons.prems l show ?case by auto
qed

lemma restart_wait_from:
  assumes "\<forall>k. k \<le> elapsed k" "k \<le> Suc limit"
  shows "\<exists>b. restart_wait opened elapsed limit k = Some b"
  using assms(2)
proof (induction "Suc limit - k" arbitrary: k)
  case 0
  then have "\<not> elapsed k \<le> limit" using assms(1) [rule_format, of k] by linarith
  then show ?case by (subst restart_wait.simps) auto
next
  case (Suc x)
  then have "x = Suc limit - Suc k" "Suc k \<le> Suc limit" by auto
  from Suc(1) [OF this] show ?case by (subst restart_wait.simps) auto
qed

lemma recover_strings:
  assumes "fds \<noteq> []"
  shows "check_recover (Some (join_comma (map i32_to_string fds))) g =
    Return (g\<lparr>gf_recover_listen_fds := gf_recover_listen_fds g @ fds, gf_recovered := True\<rparr>)"
proof -
  have "utf8_valid (join_comma (map i32_to_string fds))"
    using i32_to_string_bytes by (intro utf8_valid_ascii join_comma_utf8) auto
  moreover have "split_at 44 (join_comma (map i32_to_string fds)) = map i32_to_string fds"
    using assms i32_to_string_bytes by (intro split_join_comma) auto
  ultimately show ?thesis by (simp add: check_recover_def from_utf8_def push_fds_strings)
qed

section \<open>Properties\<close>


definition parent :: graceful where
  "parent = \<lparr>gf_run_dir = [], gf_prog_name = [], gf_listen_fds = [i32_to_string 5, i32_to_string 12], gf_recovered = False,
     gf_recover_listen_fds = [], gf_restart_timeout = 3, gf_close_signals = [15]\<rparr>"


text \<open>
  A program without listeners restarts into a child that panics: the empty list is passed on as an empty
  string, which is parsed as one number.
\<close>

theorem empty_restart_panics:
  assumes "gf_listen_fds g = []" and "\<forall>k. k \<le> elapsed k" and "\<forall>env keep. spawn env keep = Ok pid"
  shows "\<exists>env r. restart spawn opened elapsed try_wait g = Some (Return (Some (env, []), r)) \<and>
    graceful_new (Some env) dir prog tmo sigs = Panic"
proof -
  obtain b where "restart_wait (opened pid) elapsed (gf_restart_timeout g) 0 = Some b"
    using restart_wait_from [OF assms(2), of 0] by blast
  then have "\<exists>r. restart spawn opened elapsed try_wait g = Some (Return (Some ([], []), r))"
    using assms(1,3) by (cases b) (simp_all add: restart_def)
  moreover have "graceful_new (Some []) dir prog tmo sigs = Panic"
    by (simp add: graceful_new_def check_recover_def from_utf8_def parse_i32_def)
  ultimately show ?thesis by blast
qed

theorem empty_restart_panics_witness:
  "\<exists>env r. restart (\<lambda>env keep. Ok 100) (\<lambda>pid k. True) (\<lambda>k. k) (\<lambda>pid. Ok False) (parent\<lparr>gf_listen_fds := []\<rparr>) =
      Some (Return (Some (env, []), r)) \<and> graceful_new (Some env) [] [] 3 [15] = Panic"
  using empty_restart_panics [of "parent\<lparr>gf_listen_fds := []\<rparr>" "\<lambda>k. k" "\<lambda>env keep. Ok 100" 100] by simp

end
