(* ===== verification/Spec2Isabelle.thy ===== *)
theory Spec2Isabelle
  imports Rpc_Calls Rpc_Sample_Api Rpc_Sample_File Rpc_Gen_Task Rpc_Shutdown Rpc_Graceful Rpc_Task_Macro
begin

text \<open>
  Verification of occams-rpc, an RPC framework in Rust: clients submit tasks to pools of connections,
  a task is numbered, encoded and written to a TCP or Unix socket, a server reads and dispatches it,
  and the response finds its task by number. File names are relative to the repository.

  \<^bold>\<open>The program and its theories\<close>, from the bottom up.

  \<^item> \<open>Rpc_Prelude\<close>: machine integers, Rust's \<open>Result\<close>, \<open>Poll\<close> and panics as values, little-endian
    integers, UTF-8, hash maps with their iteration order as a parameter, and shared lemmas.
  \<^item> \<open>Rpc_Error\<close>, \<open>Rpc_Config\<close>, \<open>Rpc_Alloc_Buf\<close>: \<open>core/src/error.rs\<close> (the three kinds of errors and
    their codecs), \<open>core/src/config.rs\<close>, \<open>core/src/io/buffer.rs\<close>.
  \<^item> \<open>Rpc_Buf_Io\<close>: \<open>core/src/io/mod.rs\<close> and \<open>buf_io.rs\<close>, the loops \<open>read_exact\<close> and \<open>write_all\<close>, the time
    limit and the buffered stream, over a socket that is a script of what its reads and writes do.
    \<open>Rpc_Async\<close> has what the two transports share over it.
  \<^item> \<open>Rpc_Task\<close>, \<open>Rpc_Client_Task\<close>, \<open>Rpc_Server_Task\<close>: the task traits as dictionaries of their methods
    (\<open>stream/src/client/task.rs\<close>, \<open>stream/src/server/task.rs\<close>, \<open>core/src/codec.rs\<close>), the codec
    \<open>codec/src/msgpack.rs\<close>, \<open>APIClientReq\<close> of \<open>src/client/task.rs\<close>, and the server's task containers.
  \<^item> \<open>Rpc_Proto\<close>: the wire format, \<open>stream/src/proto.rs\<close>.
  \<^item> \<open>Rpc_Timer\<close>: the registry of requests in flight and the throttler, \<open>stream/src/client/timer.rs\<close>
    and \<open>throttler.rs\<close>.
  \<^item> \<open>Rpc_Net\<close>, \<open>Rpc_Tcp_Client\<close>, \<open>Rpc_Tcp_Server\<close>: the TCP transport, \<open>transport/tcp/src\<close>.
  \<^item> \<open>Rpc_Stream\<close>, \<open>Rpc_Pool\<close>, \<open>Rpc_Failover\<close>: a client connection, a pool of them, and a failover pool
    over several addresses (\<open>stream/src/client/stream.rs\<close>, \<open>pool.rs\<close>, \<open>failover.rs\<close>), each as its
    operations and a step relation that interleaves its coroutines. \<open>Rpc_Ledger\<close> is the abstract
    specification that all three promise, and \<open>Rpc_Client\<close> puts them on top of each other.
  \<^item> \<open>Rpc_Server\<close>, \<open>Rpc_Listen\<close>, \<open>Rpc_Shutdown\<close>: \<open>stream/src/server/server.rs\<close> and \<open>dispatch.rs\<close>: the
    reader and the writer of a connection, the listeners and \<open>close\<close>, and the server with all its
    connections.
  \<^item> \<open>Rpc_Api\<close>, \<open>Rpc_Api_Conn\<close>, \<open>Rpc_Call\<close>, \<open>Rpc_Pipeline\<close>, \<open>Rpc_Calls\<close>: the API layer of \<open>src/server\<close> and
    \<open>src/client/mod.rs\<close>, a server connection over it, the pieces of a call, and many calls on one
    connection.
  \<^item> \<open>Rpc_Runtime\<close>, \<open>Rpc_Endpoint\<close>: \<open>core/src/runtime.rs\<close> with its adaptors \<open>runtime/tokio\<close> and
    \<open>runtime/smol\<close>, and the client a user holds.
  \<^item> \<open>Rpc_Gen_Task\<close>, \<open>Rpc_Macro\<close>, \<open>Rpc_Task_Macro\<close>: what the macros of \<open>macros/src\<close> and
    \<open>stream/macros/src\<close> accept and what the code they generate does.
  \<^item> \<open>Rpc_Graceful\<close>: the restart without closing a listener, \<open>core/src/graceful.rs\<close>.
  \<^item> \<open>Rpc_Sample_Api\<close>, \<open>Rpc_Sample_File\<close>: the two applications of \<open>test-suite/src\<close>, a calculator and an echo
    service over the API layer, and a file service over the stream layer. They tie the macros, the
    generated code, the transport and the runtime's constructors together.
  \<^item> This theory: the properties that span client and server.

  \<^bold>\<open>How code is modelled.\<close> A struct is a record and an enum a data type, named after the source with a
  prefix on the fields. A method is a function of the state it changes, which it returns; \<open>&mut\<close>
  arguments come back in the result. \<open>Err\<close> is \<open>Inl\<close>, a panic the value \<open>Panic\<close> or \<open>Crash\<close>. An
  \<open>async\<close> function is \<open>Fin\<close> with its result, or \<open>Suspend\<close> when it does not return. What a task's
  completion does (\<open>done\<close>, \<open>error_handle\<close>) is recorded as an event. Coroutines that run side by side
  are an inductive step relation whose steps are what happens between two suspension points; the
  operations in the steps are the functions above. Integers have the width of the source, and
  arithmetic wraps where the release build wraps. A trait with several implementations is a
  dictionary record, and what its users rely on is a locale (\<open>client_task\<close>, \<open>client_transport\<close>,
  \<open>server_task\<close>, \<open>dispatcher\<close>, \<open>inline_serving\<close>, \<open>api_service\<close>, \<open>err_codec\<close>, \<open>byte_source\<close>, \<open>byte_sink\<close>,
  \<open>async_runtime\<close>, \<open>ledger_system\<close> and others), interpreted on the implementations of the
  source: for the client tasks \<open>APIClientReq\<close>, the generated structs and enums and \<open>FailoverTask\<close>.

  \<^bold>\<open>What is proved.\<close>

  \<^item> End to end: a call of a generated method returns what the method of that name returned on the
    server (\<open>rpc_call_correct\<close>); calls in flight together are each answered with their own answer
    (\<open>pipelined_calls_answered\<close>, \<open>calls_multiplexed\<close>); a connection of the API server is a function
    from the requests it reads to the bytes it sends, in every interleaving
    (\<open>api_connection_answers\<close>); a generated enum request arrives in the right variant
    (\<open>enum_request_delivered\<close>).
  \<^item> Applications: the callers of the sample services get what the methods give when run directly
    (\<open>sample_calls_correct\<close>), with exact arithmetic (\<open>sample_arithmetic_exact\<close>); a file task is answered as
    its specification says, so that what was written is read (\<open>file_exchange\<close>). The macros applied to
    their items give exactly the services, actions and tasks these theorems are about
    (\<open>sample_expansion\<close>, \<open>file_expansion\<close>).
  \<^item> Exactly once: a connection, a pool with its connections, and a failover pool with its pools
    implement the account of \<open>Rpc_Ledger\<close>, in which nothing comes back that was not submitted, nor
    more often, and what is not back is held (\<open>stream_exactly_once\<close>, \<open>client_refines\<close>,
    \<open>failover_refines\<close>); hence no caller is answered twice (\<open>callers_answered_once\<close>). On the server,
    the requests read are the tasks with the user, the responses queued or written, and the tasks
    dropped (\<open>server_exactly_once\<close>).
  \<^item> Shutting down: a connection that closes has sent everything (\<open>server_close_complete\<close>), can always
    drain (\<open>server_drains\<close>), and a server whose \<open>close\<close> saw the counter at zero has finished the work
    of all connections it ever accepted (\<open>graceful_close_complete\<close>).
  \<^item> Framing and buffers: headers, requests and responses survive the wire (\<open>head_bijection\<close>,
    \<open>read_req_roundtrip\<close>, \<open>read_resp_delivers\<close>), reading is total on any input (\<open>read_req_total\<close>), and
    the buffered stream delivers exactly the bytes in order (\<open>stream_read_exact\<close>, \<open>stream_write_flush\<close>).
  \<^item> The registry: a response finds its task wherever it sits, a timed-out or cleaned-up task is
    failed once (\<open>take_task_finds\<close>, \<open>ticks_timeout\<close>, \<open>clean_pending_tasks_complete\<close>).
  \<^item> Selection and retry, services and their multiplexing, connecting through the runtimes, restart,
    and the macros have their own theorems in their theories.
  \<^item> Where the code does not do what it means to, a theorem says what it does instead
    (\<open>reserve_vec_overruns\<close>, \<open>encode_failure_leaks\<close>, \<open>cancelled_header_lost\<close>, \<open>num_err_roundtrip\<close>).

  \<^bold>\<open>Bounds.\<close> Loops that can wait for a peer are \<open>partial_function (option)\<close>, and that they return is
  proved: \<open>read_exact\<close> and \<open>write_all\<close> because every step uses up the script of the socket,
  \<open>close_wait\<close> and \<open>restart_wait\<close> because a sleep takes at least its second. Theorems on runs assume
  fewer than \<open>2 ^ 62\<close> steps, so that the 64-bit sequence number and the counter of pending tasks do
  not wrap; each step moves them by at most one.

  \<^bold>\<open>Parameters.\<close> Code outside the repository is an argument, with what is documented of it as a
  hypothesis: \<open>rmp_serde\<close> (a decoder inverts the encoder on supported values), the allocator of
  \<open>io_buffer\<close>, the numbers of \<open>nix::errno\<close>, the growth of \<open>Vec\<close>, the iteration order of hash maps, \<open>str::parse\<close> and
  \<open>to_socket_addrs\<close>, system calls, and of the runtimes their connect, registration, executor and timers.
  \<open>crossfire\<close> channels are lists with their capacity.

  \<^bold>\<open>Compositions.\<close> In \<open>Rpc_Client\<close> a pool and its connections run side by side; which worker owns
  which connection is left open, so the relation has the steps of the code and more, and what holds
  for it holds for the code. The same is true of the health flags a failover pool reads.

  \<^bold>\<open>Not modelled\<close>: logging, and the \<open>Display\<close> and \<open>Debug\<close> output that only logs use; the printing of
  tokens and generics by the macros (what they generate is modelled by its meaning); \<open>unsafe\<close> access to
  \<open>UnsafeCell\<close> fields, which is modelled as the sequence of accesses the step relations interleave;
  the memory model of atomics, which are read and written in one global order; the test functions,
  benchmarks and their runner, which only run the two applications against sockets and clocks; the
  QUIC and RDMA transports, which are empty crates.
\<close>

section \<open>A whole call\<close>

text \<open>
  C1: a call of a generated client method returns what the method of that name returned on the server.
  The client makes a task from the argument and sends it; what it puts on the wire makes the
  server read a request whose dispatch sends one response; that response is written as bytes that,
  when they reach the client while the task is registered, complete exactly that task, and its
  caller gets the method's own result, a value as well as a user error or an internal error.
\<close>

theorem rpc_call_correct:
  assumes "serves_method ss sn mn (msgp_codec rq) (msgp_codec rp) ec f" and "f arg = Return res"
    and "rmp_supports rq arg" and "result_ok rp ec ok res" and "err_codec ec ok"
    and "utf8_valid (service_method sn mn)" and "length (service_method sn mn) < 2 ^ 31"
    and "make_req (msgp_codec rq) (service_method sn mn) arg n = Return t0"
    and "send_request uapi_ops (tcp_transport alloc uapi_ops) () t0 fl st = Fin (st', evs, Ok t)"
    and "stream_inv (tc_stream (cs_conn st))" and "alloc_ok alloc"
  shows "\<exists>wire resp. tx (cs_conn st') = tx (cs_conn st) @ wire \<and>
    (\<forall>k rest ch cancel. rx (ts_stream k) (wire @ rest) \<and> dc_open ch \<longrightarrow>
      (\<exists>k' req r. srv_read_req alloc cancel k = Fin (k', Ok req) \<and> rx (ts_stream k') rest \<and>
        serve_req (api_dispatch_req (inline_dispatch (mux_struct_serve ss)) noti) () req ch =
          Return ([], ch\<lparr>dc_queue := dc_queue ch @ [Ok r]\<rparr>, True) \<and>
        (\<forall>k. willing (ts_stream k) \<longrightarrow>
          (\<exists>k'. srv_write_resp api_resp_encode () r k = Fin (k', Ok ()) \<and> srv_tx k' = srv_tx k @ resp)))) \<and>
    (\<forall>c tm rest cl. timer_inv uapi_ops tm \<and> t \<in># timer_tasks tm \<and>
        (\<not> tm_reg_stopped tm \<or> t \<notin> set (tm_chan tm)) \<and> rx (tc_stream c) (resp @ rest) \<longrightarrow>
      (\<exists>c' tm' ev u. tcp_read_resp alloc uapi_ops () cl tm c = Fin (c', tm', [ev], Ok True) \<and>
        rx (tc_stream c') rest \<and> timer_tasks tm = add_mset t (timer_tasks tm') \<and>
        api_done (event_task ev) = Return (n, u) \<and>
        endpoint_call (msgp_codec rq) (msgp_codec rp) dflt ec (service_method sn mn) arg n (\<lambda>_. Ok u) = Return res))"
proof -
  obtain m where m: "to_vec_named rq arg = Some m" "from_slice rq m = Some arg"
    using assms(3) by (auto simp: rmp_supports_def)
  have t0: "t0 = \<lparr>ar_common = \<lparr>cm_seq = 0\<rparr>, ar_req_msg = Some m, ar_action = service_method sn mn,
      ar_resp = None, ar_res = None, ar_noti = Some n\<rparr>"
    using assms(8) m(1) by (simp add: make_req_def msgp_codec_def msgp_encode_def)
  let ?a = "Act_Str (service_method sn mn)" and ?seq = "ct_seq uapi_ops t"
  let ?wire = "req_wire (cs_client_id st) ?seq ?a m None"
  let ?resp = "resp_wire ?seq (result_response (msgp_codec rp) ec res)"
  have s: "t = ct_set_seq uapi_ops (cs_seq st) t0" "req_fits (Act_Num 0) (api_msg () t) (ct_get_req_blob uapi_ops t)"
    "tx (cs_conn st') = tx (cs_conn st) @
      req_wire (cs_client_id st) ?seq (ct_get_action uapi_ops t) (api_msg () t) (ct_get_req_blob uapi_ops t)"
    using send_request_wire [OF api.client_task_axioms assms(9,10)] by auto
  have t: "ar_action t = service_method sn mn" "ar_req_msg t = Some m" "ar_noti t = Some n" "ar_resp t = None"
    using s(1) t0 by (simp_all add: ct_set_seq_def api_defs)
  have wire: "tx (cs_conn st') = tx (cs_conn st) @ ?wire" and fits: "req_fits ?a m None"
    using s(2,3) t assms(7) by (simp_all add: api_defs req_fits_def)
  have server: "\<exists>k' req r. srv_read_req alloc cancel k = Fin (k', Ok req) \<and> rx (ts_stream k') rest \<and>
      serve_req (api_dispatch_req (inline_dispatch (mux_struct_serve ss)) noti) () req ch =
        Return ([], ch\<lparr>dc_queue := dc_queue ch @ [Ok r]\<rparr>, True) \<and>
      (\<forall>k. willing (ts_stream k) \<longrightarrow>
        (\<exists>k'. srv_write_resp api_resp_encode () r k = Fin (k', Ok ()) \<and> srv_tx k' = srv_tx k @ ?resp))"
    if "rx (ts_stream k) (?wire @ rest)" "dc_open ch" for k rest ch cancel
  proof -
    note at_server = that
    let ?req = "\<lparr>sq_seq = ?seq, sq_action = ?a, sq_msg = m, sq_blob = some_blob (blob_bytes None)\<rparr>"
    obtain k' where k': "srv_read_req alloc cancel k = Fin (k', Ok ?req)" "rx (ts_stream k') rest"
      using srv_read_req_rx [OF at_server(1) fits _ assms(11)] assms(6) by auto
    have "cd_decode (msgp_codec rq) (sq_msg ?req) = Ok arg"
      using m(2) by (simp add: msgp_codec_def msgp_decode_def)
    from serve_call [OF assms(1) at_server(2) _ this assms(2), of noti "()"]
    obtain r where r: "serve_req (api_dispatch_req (inline_dispatch (mux_struct_serve ss)) noti) () ?req ch =
        Return ([], ch\<lparr>dc_queue := dc_queue ch @ [Ok r]\<rparr>, True)" "ap_seq r = ?seq"
        "api_answer r = Some (result_response (msgp_codec rp) ec res)"
      by (auto simp: replies_def)
    have "\<forall>k. willing (ts_stream k) \<longrightarrow>
        (\<exists>k'. srv_write_resp api_resp_encode () r k = Fin (k', Ok ()) \<and> srv_tx k' = srv_tx k @ ?resp)"
      using api_resp.write_resp_willing [OF _ r(3) result_fits [OF assms(4)], of _ "()"] r(2) by metis
    with k' r(1) show ?thesis by blast
  qed
  have call: "endpoint_call (msgp_codec rq) (msgp_codec rp) dflt ec (service_method sn mn) arg n (\<lambda>_. Ok u) =
      process_res (msgp_codec rp) dflt ec (Ok u)" for u
    using assms(8) by (simp add: endpoint_call_def)
  have client: "\<exists>c' tm' ev u. tcp_read_resp alloc uapi_ops () cl tm c = Fin (c', tm', [ev], Ok True) \<and>
        rx (tc_stream c') rest \<and> timer_tasks tm = add_mset t (timer_tasks tm') \<and>
        api_done (event_task ev) = Return (n, u) \<and>
        endpoint_call (msgp_codec rq) (msgp_codec rp) dflt ec (service_method sn mn) arg n (\<lambda>_. Ok u) = Return res"
    if "timer_inv uapi_ops tm" "t \<in># timer_tasks tm" "\<not> tm_reg_stopped tm \<or> t \<notin> set (tm_chan tm)"
      "rx (tc_stream c) (?resp @ rest)" for c tm rest cl
    unfolding call using tcp_read_resp_rx [OF that result_fits [OF assms(4)] assms(11) api_reserve_ok, of "()" cl]
      received_result [OF assms(4,5) t(3,4), of "()" dflt] by metis
  show ?thesis using wire server client by blast
qed

text \<open>The call \<open>Calc.inc\<close> with 4 on a fresh connection, for a concrete instance.\<close>

definition inc_call :: api_client_req where
  "inc_call = \<lparr>ar_common = \<lparr>cm_seq = 0\<rparr>, ar_req_msg = Some [4], ar_action = str ''Calc.inc'', ar_resp = None,
     ar_res = None, ar_noti = Some 3\<rparr>"

lemma calc_serves:
  "serves_method [calc, echo] (str ''Calc'') (str ''inc'') (msgp_codec byte_rmp) (msgp_codec byte_rmp) codec_string inc"
  unfolding serves_method_def
  by (intro conjI exI [of _ inc_arms]) (simp_all add: calc_def echo_def inc_arms_def str_def dot_def)

lemma calc_inc_action: "service_method (str ''Calc'') (str ''inc'') = str ''Calc.inc''"
  by (simp add: service_method_def str_def dot_def)

lemma send_inc:
  "\<exists>st'. send_request uapi_ops (tcp_transport (\<lambda>n. Some (unat n)) uapi_ops) () inc_call False sample_stream =
     Fin (st', [], Ok (ct_set_seq uapi_ops 1 inc_call))"
proof -
  have w: "willing (tc_stream (cs_conn sample_stream))"
    using rx_fresh [of "[0]"] by (simp add: willing_def rx_def sample_stream_def client_stream_new_def Let_def
        fresh_client_def fresh_stream_def)
  obtain buf where e: "req_encode uapi_ops () (cs_encode_buf sample_stream) (cs_client_id sample_stream)
      (ct_set_seq uapi_ops 1 inc_call) = (buf, Ok None)"
    by (simp add: req_encode_def api_defs inc_call_def ct_set_seq_def Let_def)
  obtain s' where "tcp_write_all buf (cs_conn sample_stream) = Fin ((cs_conn sample_stream)\<lparr>tc_stream := s'\<rparr>, Ok ())"
    using timed_write_all_willing [OF w, of "tc_write_timeout (cs_conn sample_stream)" buf]
    by (auto simp: tcp_write_all_def)
  moreover have "cs_seq sample_stream = 1" by (simp add: sample_stream_def client_stream_new_def Let_def)
  ultimately show ?thesis
    using e by (simp add: send_request_def seq_update_def Let_def tcp_transport_def tcp_write_req_def)
qed

theorem rpc_call_correct_witness:
  "\<exists>wire. \<exists>k' req r. srv_read_req (\<lambda>n. Some (unat n)) False (fresh_server wire) = Fin (k', Ok req) \<and>
     serve_req (api_dispatch_req (inline_dispatch (mux_struct_serve [calc, echo])) 0) () req
       \<lparr>dc_queue = [], dc_open = True\<rparr> = Return ([], \<lparr>dc_queue = [Ok r], dc_open = True\<rparr>, True)"
proof -
  let ?alloc = "\<lambda>n :: i32. Some (unat n)"
  obtain st' where st': "send_request uapi_ops (tcp_transport ?alloc uapi_ops) () inc_call False sample_stream =
     Fin (st', [], Ok (ct_set_seq uapi_ops 1 inc_call))" using send_inc by blast
  have make: "make_req (msgp_codec byte_rmp) (str ''Calc.inc'') 4 3 = Return inc_call"
    by (simp add: make_req_def msgp_codec_def msgp_encode_def byte_rmp_def inc_call_def)
  have inv: "stream_inv (tc_stream (cs_conn sample_stream))"
    using rx_fresh [of "[0]"] by (simp add: rx_def sample_stream_def client_stream_new_def Let_def fresh_client_def)
  have "inc 4 = Return (Ok 5)" "result_ok byte_rmp codec_string (\<lambda>s. utf8_valid s \<and> int_err_from_str s = None) (Ok 5)"
    by (simp_all add: inc_def result_ok_def) (simp add: byte_rmp_def)
  moreover have "utf8_valid (str ''Calc.inc'')" "length (str ''Calc.inc'') < 2 ^ 31"
    by (simp_all add: str_def)
  ultimately obtain wire resp where w: "tx (cs_conn st') = tx (cs_conn sample_stream) @ wire"
    "\<forall>k rest ch cancel. rx (ts_stream k) (wire @ rest) \<and> dc_open ch \<longrightarrow>
      (\<exists>k' req r. srv_read_req ?alloc cancel k = Fin (k', Ok req) \<and> rx (ts_stream k') rest \<and>
        serve_req (api_dispatch_req (inline_dispatch (mux_struct_serve [calc, echo])) 0) () req ch =
          Return ([], ch\<lparr>dc_queue := dc_queue ch @ [Ok r]\<rparr>, True) \<and>
        (\<forall>k. willing (ts_stream k) \<longrightarrow>
          (\<exists>k'. srv_write_resp api_resp_encode () r k = Fin (k', Ok ()) \<and> srv_tx k' = srv_tx k @ resp)))"
    using rpc_call_correct [OF calc_serves [unfolded calc_inc_action] _ byte_rmp_supports _ string_err.err_codec_axioms,
        unfolded calc_inc_action, OF _ _ _ _ make st' inv alloc_ok_unat, of "Ok 5" 0] by blast
  have "tx (cs_conn st') \<noteq> tx (cs_conn sample_stream)"
    using send_request_wire [OF api.client_task_axioms st' inv] by (auto simp: req_wire_def req_head_bytes_def)
  with w(1) have "wire \<noteq> []" by auto
  then have "rx (ts_stream (fresh_server wire)) (wire @ [])" by (simp add: fresh_server_def rx_fresh)
  with w(2) [rule_format, of "fresh_server wire" "[]" "\<lparr>dc_queue = [], dc_open = True\<rparr>" False]
  show ?thesis by (intro exI [of _ wire]) auto
qed

section \<open>Many calls\<close>

text \<open>
  C2: calls in flight at the same time on one connection are all answered, each with its own answer.
  A client sends any number of calls back to back; a server connection reads them, in whatever pieces
  they arrive, serves them and closes; whatever the interleaving of its reader and its writer, the
  bytes it has sent make the client hand back every one of the tasks, with the answer the server's
  services give to that very request, and leave every other task registered.
\<close>

theorem pipelined_calls_answered:
  assumes "api_service serve" and "alloc_ok alloc"
    and "send_all uapi_ops (tcp_transport alloc uapi_ops) () ts st = Some (st', us)"
    and "stream_inv (tc_stream (cs_conn st))" and "tx (cs_conn st) = []"
    and "\<forall>u \<in> set us. call_served serve noti u"
    and "tcp_new_conn inp \<lparr>sk_out = [], sk_script = sc\<rparr> config = Return k0"
    and "all_data inp" and "script_data inp = tx (cs_conn st')"
    and "server_run alloc (api_dispatch_req (inline_dispatch serve) noti) api_resp_encode () aq_seq ap_seq k0 evs k"
    and "sn_writer k = W_Closed"
    and "timer_inv uapi_ops tm" and "\<not> tm_reg_stopped tm" and "mset us \<subseteq># timer_tasks tm"
    and "rx (tc_stream c) (sk_out (bs_out (ts_stream (sn_conn k))))"
  shows "\<exists>c' tm'. read_resps alloc uapi_ops () cl (length ts) tm c =
      Fin (c', tm', map (\<lambda>u. received uapi_ops () (the (api_reply serve noti (to_req (call_wire_req u)))) u) us, Ok ()) \<and>
    rx (tc_stream c') [] \<and> timer_tasks tm = mset us + timer_tasks tm'"
  using assms by (rule calls_answered)

text \<open>Two calls of a service the server does not have, for a concrete instance.\<close>

theorem pipelined_calls_answered_witness:
  "\<exists>us c c' tm tm' evs. read_resps (\<lambda>n. Some (unat n)) uapi_ops () None 2 tm c = Fin (c', tm', evs, Ok ()) \<and>
     length us = 2 \<and> evs = map (received uapi_ops () (Resp_Err (Enc_Rpc Service))) us \<and>
     timer_tasks tm = mset us + timer_tasks tm'"
proof -
  let ?alloc = "\<lambda>n :: i32. Some (unat n)" and ?serve = "mux_struct_serve [calc, echo]"
  obtain st' us where s: "send_all uapi_ops (tcp_transport ?alloc uapi_ops) () (replicate 2 (sample_task 0)) sample_stream =
      Some (st', us)" "\<forall>u \<in> set us. ar_action u = str ''Svc.add''" using sample_sends [OF sample_stream_willing] by blast
  have reply: "api_reply ?serve 0 (to_req (call_wire_req u)) = Some (Resp_Err (Enc_Rpc Service))" if "u \<in> set us" for u
    using s(2) that by (simp add: call_wire_req_def api_reply_def api_item_def to_req_def str_def dot_def mux_struct_serve_def
        calc_def echo_def aq_set_rpc_error_def api_answer_def encoded_err_from_int_def)
  have ok: "\<forall>u \<in> set us. call_served ?serve 0 u"
    unfolding call_served_def using s(2) reply by (auto simp: str_def err_body_def intro: order_trans [OF int_err_as_bytes_short])
  have "replicate 2 (sample_task 0) \<noteq> []" "length (replicate 2 (sample_task 0)) < 2 ^ 63" by simp_all
  from calls_instance [OF mux_calc_echo this s(1) ok] obtain inp k0 evs k tm and c :: tcp_client where
    w: "tcp_new_conn inp \<lparr>sk_out = [], sk_script = []\<rparr> server_config_default = Return k0" "all_data inp"
    "script_data inp = tx (cs_conn st')"
    "server_run ?alloc (api_dispatch_req (inline_dispatch ?serve) 0) api_resp_encode () aq_seq ap_seq k0 evs k"
    "sn_writer k = W_Closed" "timer_inv uapi_ops tm" "\<not> tm_reg_stopped tm" "timer_tasks tm = mset us"
    "rx (tc_stream c) (sk_out (bs_out (ts_stream (sn_conn k))))"
    by (elim exE conjE) (rule that)
  have sub: "mset us \<subseteq># timer_tasks tm" using w(8) by simp
  note res = pipelined_calls_answered [OF mux_calc_echo alloc_ok_unat s(1) sample_stream_fresh(1,2) ok w(1-7) sub w(9), of None,
      unfolded length_replicate]
  have len: "length us = 2"
    using send_all_wire [OF api.client_task_axioms sample_stream_fresh(1) s(1)] by simp
  have "map (\<lambda>u. received uapi_ops () (the (api_reply ?serve 0 (to_req (call_wire_req u)))) u) us =
      map (received uapi_ops () (Resp_Err (Enc_Rpc Service))) us" using reply by simp
  from res [unfolded this] len show ?thesis by blast
qed

section \<open>Generated tasks across the wire\<close>

text \<open>
  C7: a request of a client task enum arrives in the variant of the server task enum that lists its
  action: the server reads it and decodes the message the client's task held, with its number, its
  action and its blob.
\<close>

theorem enum_request_delivered:
  assumes "req_encode (client_enum_ops (Some a) (Some b) (gen_ops al at ec) (gen_ops al' at' ec'))
      ((ra, pa), (rb, pb)) buf cid t = (wire, Ok blob)"
    and "case t of
        Variant_A u \<Rightarrow> rmp_supports ra (gt_req u) \<and> action_ok a \<and> action_valid a \<and> a \<in> set as
      | Variant_B u \<Rightarrow> rmp_supports rb (gt_req u) \<and> action_ok b \<and> action_valid b \<and> b \<in> set bs - set as"
    and "rx (ts_stream k) (wire @ blob_bytes blob @ rest)" and "alloc_ok alloc"
  shows "\<exists>k' req w. srv_read_req alloc cancel k = Fin (k', Ok req) \<and> rx (ts_stream k') rest \<and>
    server_enum_decode as bs variant_decode_req full_decode_req (msgp_codec ra, msgp_codec rb)
      (sq_action req) (sq_seq req) (sq_msg req) (sq_blob req) noti = Ok w \<and>
    (case t of
       Variant_A u \<Rightarrow> w = Variant_A \<lparr>sv_seq = cm_seq (gt_common u), sv_action = a, sv_msg = gt_req u,
         sv_blob = some_blob (blob_bytes (gen_get_req_blob at u)), sv_res = None, sv_noti = Some noti\<rparr>
     | Variant_B u \<Rightarrow> w = Variant_B \<lparr>sf_seq = cm_seq (gt_common u), sf_action = b, sf_req = gt_req u,
         sf_req_blob = some_blob (blob_bytes (gen_get_req_blob at' u)), sf_resp = None, sf_resp_blob = None,
         sf_res = None, sf_noti = Some noti\<rparr>)"
proof -
  let ?ct = "client_enum_ops (Some a) (Some b) (gen_ops al at ec) (gen_ops al' at' ec')"
  let ?c = "((ra, pa), (rb, pb))" and ?msg = "enum_msg gen_msg gen_msg"
  note ct = gen_enum.enum_client_task [of "Some a" "Some b" al at ec al' at' ec']
  note w = client_task.req_encode_Ok [OF ct assms(1)]
  have wire: "rx (ts_stream k) (req_wire cid (ct_seq ?ct t) (ct_get_action ?ct t) (?msg ?c t) blob @ rest)"
    using client_task.req_encode_wire [OF ct assms(1)] assms(3) by (metis append.assoc)
  have act: "action_ok (ct_get_action ?ct t)" "action_valid (ct_get_action ?ct t)"
    using assms(2) by (cases t; simp add: client_enum_ops_def enum_get_action_def)+
  have "req_fits (ct_get_action ?ct t) (?msg ?c t) blob"
    using w act(1) by (auto simp: req_fits_def blob_bytes_def split: option.split)
  then obtain k' where "srv_read_req alloc cancel k = Fin (k', Ok \<lparr>sq_seq = ct_seq ?ct t, sq_action = ct_get_action ?ct t,
      sq_msg = ?msg ?c t, sq_blob = some_blob (blob_bytes blob)\<rparr>)" "rx (ts_stream k') rest"
    using srv_read_req_rx [OF wire _ act(2) assms(4)] by blast
  moreover have "blob = ct_get_req_blob ?ct t" using w by simp
  ultimately show ?thesis
    using assms(2)
    by (cases t)
       (auto simp: client_enum_ops_def enum_get_action_def enum_msg_def gen_ops_def gen_msg_def ct_seq_def common_seq_def
         server_enum_decode_def decode_arm_def variant_decode_req_def full_decode_req_def msgp_codec_def msgp_decode_def rmp_supports_def)
qed

text \<open>A task with a byte as its message and a blob, for a concrete instance.\<close>

definition byte_task :: "(byte, byte, rust_str) gen_task" where
  "byte_task = \<lparr>gt_common = \<lparr>cm_seq = 9\<rparr>, gt_req = 5, gt_resp = None, gt_req_blob = [1, 2], gt_resp_blob = None,
     gt_resp_data = [], gt_action = Act_Num 0, gt_res = None, gt_noti = Some 0\<rparr>"

abbreviation byte_attrs :: gen_attrs where
  "byte_attrs \<equiv> \<lparr>ga_action = None, ga_req_blob = True, ga_resp_blob = False\<rparr>"

abbreviation byte_enum ::
  "((byte rmp \<times> byte rmp) \<times> (byte rmp \<times> byte rmp),
    ((byte, byte, rust_str) gen_task, (byte, byte, rust_str) gen_task) task_enum) client_task_ops" where
  "byte_enum \<equiv> client_enum_ops (Some (Act_Num 1)) (Some (Act_Str (str ''b''))) (gen_ops (\<lambda>n. None) byte_attrs codec_string)
     (gen_ops (\<lambda>n. None) byte_attrs codec_string)"

abbreviation byte_codecs :: "(byte rmp \<times> byte rmp) \<times> (byte rmp \<times> byte rmp)" where
  "byte_codecs \<equiv> ((byte_rmp, byte_rmp), (byte_rmp, byte_rmp))"

theorem enum_request_delivered_witness:
  "\<exists>wire k' req y. req_encode byte_enum byte_codecs [] 3 (Variant_B byte_task) = (wire, Ok (Some [1, 2])) \<and>
     srv_read_req (\<lambda>n. Some (unat n)) False (fresh_server (wire @ [1, 2])) = Fin (k', Ok req) \<and>
     server_enum_decode [Act_Num 1] [Act_Str (str ''b'')] variant_decode_req full_decode_req
       (msgp_codec byte_rmp, msgp_codec byte_rmp) (sq_action req) (sq_seq req) (sq_msg req) (sq_blob req) 4 =
       (Ok (Variant_B y) :: (((byte, rust_str) server_task_variant, (byte, byte, rust_str) server_task_full) task_enum, unit) result) \<and>
     sf_req y = 5 \<and> sf_seq y = 9 \<and> sf_req_blob y = Some [1, 2]"
proof -
  obtain wire where w: "req_encode byte_enum byte_codecs [] 3 (Variant_B byte_task) = (wire, Ok (Some [1, 2]))"
    by (simp add: req_encode_def Let_def client_enum_ops_def enum_get_action_def gen_defs msgp_codec_def msgp_encode_into_def
        byte_rmp_def byte_task_def)
  have t: "case Variant_B byte_task of
        Variant_A u \<Rightarrow> rmp_supports byte_rmp (gt_req u) \<and> action_ok (Act_Num 1) \<and> action_valid (Act_Num 1) \<and> Act_Num 1 \<in> set [Act_Num 1]
      | Variant_B u \<Rightarrow> rmp_supports byte_rmp (gt_req u) \<and> action_ok (Act_Str (str ''b'')) \<and>
          action_valid (Act_Str (str ''b'')) \<and> Act_Str (str ''b'') \<in> set [Act_Str (str ''b'')] - set [Act_Num 1]"
    by (simp add: str_def)
  have "rx (ts_stream (fresh_server (wire @ [1, 2]))) (wire @ blob_bytes (Some [1, 2]) @ [])"
    using rx_fresh [of "wire @ [1, 2]"] by (simp add: fresh_server_def blob_bytes_def)
  from enum_request_delivered [OF w t this alloc_ok_unat, of False 4] w show ?thesis
    by (force simp: byte_task_def gen_get_req_blob_def some_blob_def blob_bytes_def)
qed

end
